(* ===== verification/Lox_Prelude.thy ===== *)
theory Lox_Prelude
  imports Main "HOL-Library.Word" "HOL-Library.Sublist" "HOL-Library.Monad_Syntax"
begin

unbundle bit_operations_syntax

text \<open>
  Shared ground of the development: the machine types of the Rust code, the parts of the
  Rust standard library it uses on byte slices (\<^verbatim>\<open>get\<close>, \<^verbatim>\<open>from_le_bytes\<close>,
  \<^verbatim>\<open>as_chunks\<close>), and the lemmas on them that the component theories share. A \<^verbatim>\<open>u8\<close> is an
  8-bit word, an \<^verbatim>\<open>f64\<close> is its 64-bit pattern (the client never computes with one, it only
  moves the bits), and a slice of bytes is a list of 8-bit words.
\<close>

named_theorems wire \<open>facts that evaluate slices and fixed-width fields of a wire buffer\<close>
named_theorems strs \<open>facts that evaluate string operations\<close>

section \<open>Machine types\<close>

type_synonym u8 = "8 word"
type_synonym u16 = "16 word"
type_synonym u32 = "32 word"
type_synonym u64 = "64 word"
type_synonym i32 = "32 word"
type_synonym i64 = "64 word"
type_synonym f64 = "64 word"
type_synonym bytes = "u8 list"

lemma unat_word_of_nat: "n < 2 ^ LENGTH('a::len) \<Longrightarrow> unat (word_of_nat n :: 'a word) = n"
  by (simp add: unat_of_nat)

section \<open>Bytes and characters\<close>

definition byte_char :: "u8 \<Rightarrow> char" where
  "byte_char b = char_of (unat b)"

definition char_byte :: "char \<Rightarrow> u8" where
  "char_byte c = word_of_nat (of_char c)"

definition as_bytes :: "string \<Rightarrow> bytes" where
  "as_bytes s = map char_byte s"

definition str_of :: "bytes \<Rightarrow> string" where
  "str_of bs = map byte_char bs"

lemma of_char_less_256 [simp]: "of_char c < (256 :: nat)"
proof -
  have "of_char c = (of_char c :: nat) mod 256"
    by (metis char_of_char of_char_of)
  then show ?thesis
    by (metis mod_less_divisor zero_less_numeral)
qed

lemma char_byte_byte_char [simp]: "char_byte (byte_char b) = b"
proof -
  have "unat b < 256"
    using unsigned_less [of b] by simp
  then show ?thesis
    by (simp add: char_byte_def byte_char_def of_char_of)
qed

lemma byte_char_char_byte [simp]: "byte_char (char_byte c) = c"
  by (simp add: char_byte_def byte_char_def unat_of_nat)

lemma as_bytes_str_of [simp]: "as_bytes (str_of bs) = bs"
  by (simp add: as_bytes_def str_of_def comp_def)

lemma str_of_as_bytes [simp]: "str_of (as_bytes s) = s"
  by (simp add: as_bytes_def str_of_def comp_def)

lemma length_as_bytes [simp]: "length (as_bytes s) = length s"
  by (simp add: as_bytes_def)

lemma length_str_of [simp]: "length (str_of s) = length s"
  by (simp add: str_of_def)

lemma as_bytes_append [simp]: "as_bytes (s @ t) = as_bytes s @ as_bytes t"
  by (simp add: as_bytes_def)

lemma as_bytes_inject [simp]: "as_bytes s = as_bytes t \<longleftrightarrow> s = t"
  by (metis str_of_as_bytes)

lemma char_byte_eq_iff: "char_byte c = b \<longleftrightarrow> c = byte_char b"
  by auto

section \<open>Slices\<close>

text \<open>
  \<^verbatim>\<open>xs.get(..n)\<close>, \<^verbatim>\<open>xs.get(n..)\<close> and \<^verbatim>\<open>xs.get(a..b)\<close>: \<^verbatim>\<open>None\<close> when the range runs past
  the slice.
\<close>

definition get_to :: "nat \<Rightarrow> 'a list \<Rightarrow> 'a list option" where
  "get_to n xs = (if n \<le> length xs then Some (take n xs) else None)"

definition get_from :: "nat \<Rightarrow> 'a list \<Rightarrow> 'a list option" where
  "get_from n xs = (if n \<le> length xs then Some (drop n xs) else None)"

definition get_range :: "nat \<Rightarrow> nat \<Rightarrow> 'a list \<Rightarrow> 'a list option" where
  "get_range a b xs = (if a \<le> b \<and> b \<le> length xs then Some (take (b - a) (drop a xs)) else None)"

lemma get_to_append [wire]: "length xs = n \<Longrightarrow> get_to n (xs @ ys) = Some xs"
  by (simp add: get_to_def)

lemma get_from_append [wire]: "length xs = n \<Longrightarrow> get_from n (xs @ ys) = Some ys"
  by (simp add: get_from_def)

text \<open>A fixed-width field at an offset of a buffer known to be long enough.\<close>

definition field :: "nat \<Rightarrow> nat \<Rightarrow> 'a list \<Rightarrow> 'a list" where
  "field off n xs = take n (drop off xs)"

lemma length_field: "off + n \<le> length xs \<Longrightarrow> length (field off n xs) = n"
  by (simp add: field_def)

lemma field_0 [wire]: "length xs = n \<Longrightarrow> field 0 n (xs @ ys) = xs"
  by (simp add: field_def)

lemma field_0_all [wire]: "length xs = n \<Longrightarrow> field 0 n xs = xs"
  by (simp add: field_def)

lemma field_skip [wire]: "length xs \<le> off \<Longrightarrow> field off n (xs @ ys) = field (off - length xs) n ys"
  by (simp add: field_def)

lemma field_append_left: "off + n \<le> length xs \<Longrightarrow> field off n (xs @ ys) = field off n xs"
  by (simp add: field_def)

text \<open>Adjacent fields join; a sequence of fields that covers a buffer is the buffer.\<close>

lemma join_fields: "m = off + n \<Longrightarrow> field off n xs @ field m k xs = field off (n + k) xs"
  by (simp add: field_def take_add) (simp add: add.commute)

section \<open>Little-endian words\<close>

primrec from_le_bytes :: "bytes \<Rightarrow> 'a::len word" where
  "from_le_bytes [] = 0"
| "from_le_bytes (b # bs) = ucast b OR push_bit 8 (from_le_bytes bs)"

primrec to_le_bytes :: "nat \<Rightarrow> 'a::len word \<Rightarrow> bytes" where
  "to_le_bytes 0 w = []"
| "to_le_bytes (Suc n) w = ucast w # to_le_bytes n (drop_bit 8 w)"

definition from_be_bytes :: "bytes \<Rightarrow> 'a::len word" where
  "from_be_bytes bs = from_le_bytes (rev bs)"

lemma length_to_le_bytes [simp]: "length (to_le_bytes n w) = n"
  by (induction n arbitrary: w) auto

lemma bit_from_le_bytes:
  "bit (from_le_bytes bs :: 'a::len word) i \<longleftrightarrow>
     i < LENGTH('a) \<and> i < 8 * length bs \<and> bit (bs ! (i div 8)) (i mod 8)"
proof (induction bs arbitrary: i)
  case Nil
  then show ?case by simp
next
  case (Cons b bs)
  show ?case
  proof (cases "i < 8")
    case True
    then show ?thesis
      by (auto simp: bit_simps)
  next
    case False
    then obtain j where j: "i = j + 8"
      by (metis add.commute le_Suc_ex not_less)
    have "\<not> bit b i"
      using False bit_imp_le_length [of b i] by auto
    moreover have "(j + 8) div 8 = Suc (j div 8)"
      by simp
    ultimately show ?thesis
      by (auto simp: j bit_simps Cons.IH)
  qed
qed

lemma nth_to_le_bytes:
  "k < n \<Longrightarrow> to_le_bytes n w ! k = ucast (drop_bit (8 * k) w)"
proof (induction n arbitrary: w k)
  case 0
  then show ?case by simp
next
  case (Suc n)
  then show ?case
    by (cases k) (simp_all add: ac_simps)
qed

lemma to_le_bytes_from_le_bytes:
  assumes "length bs = n" and "8 * n \<le> LENGTH('a::len)"
  shows "to_le_bytes n (from_le_bytes bs :: 'a word) = bs"
proof (rule nth_equalityI)
  show "length (to_le_bytes n (from_le_bytes bs :: 'a word)) = length bs"
    by (simp add: assms)
next
  fix k
  assume "k < length (to_le_bytes n (from_le_bytes bs :: 'a word))"
  then have k: "k < n" by simp
  show "to_le_bytes n (from_le_bytes bs :: 'a word) ! k = bs ! k"
  proof (rule bit_word_eqI)
    fix i :: nat
    assume i: "i < LENGTH(8)"
    then have "(8 * k + i) div 8 = k" "(8 * k + i) mod 8 = i" "8 * k + i < 8 * n"
      using k by auto
    then show "bit (to_le_bytes n (from_le_bytes bs :: 'a word) ! k) i \<longleftrightarrow> bit (bs ! k) i"
      using i k assms by (simp add: nth_to_le_bytes bit_simps bit_from_le_bytes)
  qed
qed

lemma from_le_bytes_to_le_bytes:
  assumes "LENGTH('a::len) \<le> 8 * n"
  shows "from_le_bytes (to_le_bytes n (w :: 'a word)) = w"
proof (rule bit_word_eqI)
  fix i
  assume i: "i < LENGTH('a)"
  then have "i div 8 < n"
    using assms by auto
  then show "bit (from_le_bytes (to_le_bytes n w) :: 'a word) i \<longleftrightarrow> bit w i"
    using i assms by (simp add: bit_from_le_bytes nth_to_le_bytes bit_simps)
qed

lemma le32_roundtrip [simp]: "from_le_bytes (to_le_bytes 4 (w :: u32)) = w"
  by (rule from_le_bytes_to_le_bytes) simp

lemma le64_roundtrip [simp]: "from_le_bytes (to_le_bytes 8 (w :: u64)) = w"
  by (rule from_le_bytes_to_le_bytes) simp

lemma from_le_bytes_inject:
  assumes "length bs = n" "length cs = n" "8 * n \<le> LENGTH('a::len)"
  shows "(from_le_bytes bs :: 'a word) = from_le_bytes cs \<longleftrightarrow> bs = cs"
  by (metis assms to_le_bytes_from_le_bytes)

end
