(* ===== verification/Lox_Strings.thy ===== *)
theory Lox_Strings
  imports Lox_Prelude
begin

text \<open>
  The Rust string operations the client uses. A Rust \<^verbatim>\<open>str\<close> is a UTF-8 byte sequence, so it
  is a list of (8-bit) characters here and every index and length counts bytes, as in Rust.
  Unicode white space is recognised by its UTF-8 encoding.
\<close>

section \<open>Prefixes, splitting, searching\<close>

definition starts_with :: "'a list \<Rightarrow> 'a list \<Rightarrow> bool" where
  "starts_with s p \<longleftrightarrow> take (length p) s = p"

definition strip_prefix :: "'a list \<Rightarrow> 'a list \<Rightarrow> 'a list option" where
  "strip_prefix p s = (if starts_with s p then Some (drop (length p) s) else None)"

definition split_once :: "'a \<Rightarrow> 'a list \<Rightarrow> ('a list \<times> 'a list) option" where
  "split_once c s =
     (case dropWhile (\<lambda>x. x \<noteq> c) s of
        [] \<Rightarrow> None
      | _ # rest \<Rightarrow> Some (takeWhile (\<lambda>x. x \<noteq> c) s, rest))"

fun split_on :: "'a \<Rightarrow> 'a list \<Rightarrow> 'a list list" where
  "split_on c [] = [[]]"
| "split_on c (x # xs) =
     (if x = c then [] # split_on c xs
      else (case split_on c xs of [] \<Rightarrow> [[x]] | y # ys \<Rightarrow> (x # y) # ys))"

fun contains :: "'a list \<Rightarrow> 'a list \<Rightarrow> bool" where
  "contains p [] \<longleftrightarrow> p = []"
| "contains p (x # xs) \<longleftrightarrow> starts_with (x # xs) p \<or> contains p xs"

text \<open>
  \<^verbatim>\<open>s.rsplit(p).next()\<close> for a pattern that cannot overlap itself: what follows the last
  occurrence of \<open>p\<close>, or \<open>s\<close> when there is none.
\<close>

fun after_last :: "'a list \<Rightarrow> 'a list \<Rightarrow> 'a list option" where
  "after_last p [] = None"
| "after_last p (x # xs) =
     (case after_last p xs of
        Some r \<Rightarrow> Some r
      | None \<Rightarrow> strip_prefix p (x # xs))"

definition rsplit_first :: "'a list \<Rightarrow> 'a list \<Rightarrow> 'a list" where
  "rsplit_first p s = (case after_last p s of Some r \<Rightarrow> r | None \<Rightarrow> s)"

definition trim_end_matches :: "'a \<Rightarrow> 'a list \<Rightarrow> 'a list" where
  "trim_end_matches c s = rev (dropWhile (\<lambda>x. x = c) (rev s))"

lemma starts_with_iff: "starts_with s p \<longleftrightarrow> (\<exists>t. s = p @ t)"
  unfolding starts_with_def by (metis append_eq_conv_conj append_take_drop_id)

lemma starts_with_append [simp]: "starts_with (p @ s) p"
  by (simp add: starts_with_def)

lemma starts_with_Nil [simp]: "starts_with s []"
  by (simp add: starts_with_def)

lemma starts_with_Cons [simp]: "starts_with (x # s) (y # p) \<longleftrightarrow> x = y \<and> starts_with s p"
  by (auto simp: starts_with_def)

lemma starts_with_Nil_Cons [simp]: "\<not> starts_with [] (y # p)"
  by (simp add: starts_with_def)

lemma strip_prefix_append [simp]: "strip_prefix p (p @ s) = Some s"
  by (simp add: strip_prefix_def)

lemma strip_prefix_Some: "strip_prefix p s = Some t \<longleftrightarrow> s = p @ t"
  by (auto simp: strip_prefix_def starts_with_iff)

lemma strip_prefix_Nil_pat [simp]: "strip_prefix [] s = Some s"
  by (simp add: strip_prefix_def)

lemma strip_prefix_Cons [simp]:
  "strip_prefix (y # p) (x # s) = (if x = y then strip_prefix p s else None)"
  by (simp add: strip_prefix_def)

lemma strip_prefix_Nil [simp]: "strip_prefix (y # p) [] = None"
  by (simp add: strip_prefix_def)

lemma split_once_append: "c \<notin> set a \<Longrightarrow> split_once c (a @ c # b) = Some (a, b)"
  by (simp add: split_once_def dropWhile_append takeWhile_append)

lemma split_once_None: "split_once c s = None \<longleftrightarrow> c \<notin> set s"
proof (cases "c \<in> set s")
  case True
  then obtain a b where "s = a @ c # b" "c \<notin> set a"
    by (meson split_list_first)
  then show ?thesis by (simp add: split_once_append)
next
  case False
  then have d: "dropWhile (\<lambda>x. x \<noteq> c) s = []"
    by (auto simp: dropWhile_eq_Nil_conv)
  show ?thesis
    unfolding split_once_def d using False by simp
qed

lemma split_once_Some: "split_once c s = Some (a, b) \<Longrightarrow> s = a @ c # b \<and> c \<notin> set a"
proof -
  assume *: "split_once c s = Some (a, b)"
  then have "c \<in> set s"
    by (metis option.distinct(1) split_once_None)
  then obtain a' b' where s: "s = a' @ c # b'" "c \<notin> set a'"
    by (meson split_list_first)
  with * show ?thesis
    by (simp add: split_once_append)
qed

lemma split_on_nonempty [simp]: "split_on c s \<noteq> []"
  by (induction s) (auto split: list.splits)

lemma split_on_no_sep: "c \<notin> set s \<Longrightarrow> split_on c s = [s]"
  by (induction s) auto

lemma split_on_append_sep: "c \<notin> set s \<Longrightarrow> split_on c (s @ c # t) = s # split_on c t"
  by (induction s) auto

lemma split_on_pieces: "p \<in> set (split_on c s) \<Longrightarrow> c \<notin> set p"
proof (induction s arbitrary: p)
  case Nil
  then show ?case by simp
next
  case (Cons x s)
  show ?case
  proof (cases "x = c")
    case True
    with Cons show ?thesis by auto
  next
    case False
    obtain y ys where "split_on c s = y # ys"
      by (metis neq_Nil_conv split_on_nonempty)
    with False Cons show ?thesis by auto
  qed
qed

lemma starts_with_prefix: "starts_with s p \<longleftrightarrow> prefix p s"
  by (simp add: starts_with_iff prefix_def)

lemma contains_iff: "contains p s \<longleftrightarrow> (\<exists>a b. s = a @ p @ b)"
proof (induction s)
  case Nil
  then show ?case by simp
next
  case (Cons x s)
  have "(\<exists>a b. x # s = a @ p @ b) \<longleftrightarrow> starts_with (x # s) p \<or> (\<exists>a b. s = a @ p @ b)"
    unfolding starts_with_iff by (metis append_Cons append_Nil append_eq_Cons_conv)
  with Cons.IH show ?case by simp
qed

lemma after_last_Nil_iff: "p \<noteq> [] \<Longrightarrow> after_last p s = None \<longleftrightarrow> \<not> contains p s"
  by (induction s) (auto simp: strip_prefix_def split: option.splits)

lemma rsplit_first_prefix:
  assumes "p \<noteq> []" and "\<not> contains p (tl (p @ s))"
  shows "rsplit_first p (p @ s) = s"
proof -
  obtain x xs where p: "p = x # xs"
    using assms(1) by (cases p) auto
  have "after_last p (xs @ s) = None"
    using assms by (simp add: after_last_Nil_iff p)
  then have "after_last p (p @ s) = strip_prefix p (p @ s)"
    by (simp add: p del: strip_prefix_Cons)
  then show ?thesis
    by (simp add: rsplit_first_def)
qed

lemma trim_end_matches_append_replicate:
  "trim_end_matches c (s @ replicate n c) = trim_end_matches c s"
  by (simp add: trim_end_matches_def dropWhile_append)

lemma trim_end_matches_id: "s = [] \<or> last s \<noteq> c \<Longrightarrow> trim_end_matches c s = s"
  by (cases s rule: rev_cases) (auto simp: trim_end_matches_def)

lemma trim_end_matches_last: "trim_end_matches c s = [] \<or> last (trim_end_matches c s) \<noteq> c"
  by (metis (mono_tags, lifting) hd_dropWhile last_rev rev_is_Nil_conv trim_end_matches_def)

lemma trim_end_matches_map:
  "(\<And>x y. f x = f y \<longleftrightarrow> x = y) \<Longrightarrow> trim_end_matches (f c) (map f s) = map f (trim_end_matches c s)"
  by (simp add: trim_end_matches_def rev_map dropWhile_map comp_def)

section \<open>Trimming Unicode white space\<close>

text \<open>The UTF-8 encodings of the characters with the Unicode property \<^verbatim>\<open>White_Space\<close>.\<close>

definition white_space :: "string list" where
  "white_space =
     [[CHR 0x09], [CHR 0x0A], [CHR 0x0B], [CHR 0x0C], [CHR 0x0D], [CHR 0x20],
      [CHR 0xC2, CHR 0x85], [CHR 0xC2, CHR 0xA0], [CHR 0xE1, CHR 0x9A, CHR 0x80],
      [CHR 0xE2, CHR 0x80, CHR 0x80], [CHR 0xE2, CHR 0x80, CHR 0x81],
      [CHR 0xE2, CHR 0x80, CHR 0x82], [CHR 0xE2, CHR 0x80, CHR 0x83],
      [CHR 0xE2, CHR 0x80, CHR 0x84], [CHR 0xE2, CHR 0x80, CHR 0x85],
      [CHR 0xE2, CHR 0x80, CHR 0x86], [CHR 0xE2, CHR 0x80, CHR 0x87],
      [CHR 0xE2, CHR 0x80, CHR 0x88], [CHR 0xE2, CHR 0x80, CHR 0x89],
      [CHR 0xE2, CHR 0x80, CHR 0x8A], [CHR 0xE2, CHR 0x80, CHR 0xA8],
      [CHR 0xE2, CHR 0x80, CHR 0xA9], [CHR 0xE2, CHR 0x80, CHR 0xAF],
      [CHR 0xE2, CHR 0x81, CHR 0x9F], [CHR 0xE3, CHR 0x80, CHR 0x80]]"

text \<open>
  Bytes taken by a white-space character at the front of a string, and at the end of the
  string whose reverse is given; 0 when there is none.
\<close>

definition ws_head :: "string \<Rightarrow> nat" where
  "ws_head s = (case find (starts_with s) white_space of None \<Rightarrow> 0 | Some e \<Rightarrow> length e)"

definition ws_last :: "string \<Rightarrow> nat" where
  "ws_last r = (case find (\<lambda>e. starts_with r (rev e)) white_space of None \<Rightarrow> 0 | Some e \<Rightarrow> length e)"

function trim_start :: "string \<Rightarrow> string" where
  "trim_start s = (if ws_head s = 0 \<or> s = [] then s else trim_start (drop (ws_head s) s))"
  by pat_completeness auto
termination
  by (relation "measure length") auto

function trim_rev :: "string \<Rightarrow> string" where
  "trim_rev r = (if ws_last r = 0 \<or> r = [] then r else trim_rev (drop (ws_last r) r))"
  by pat_completeness auto
termination
  by (relation "measure length") auto

declare trim_start.simps [simp del] trim_rev.simps [simp del]

definition trim :: "string \<Rightarrow> string" where
  "trim s = rev (trim_rev (rev (trim_start s)))"

text \<open>A graphic ASCII character neither starts nor ends a white-space encoding.\<close>

definition ascii_graphic :: "char \<Rightarrow> bool" where
  "ascii_graphic c \<longleftrightarrow> 33 \<le> (of_char c :: nat) \<and> (of_char c :: nat) < 127"

lemma white_space_ends:
  "list_all (\<lambda>e. e \<noteq> [] \<and> \<not> ascii_graphic (hd e) \<and> \<not> ascii_graphic (last e)) white_space"
  by (simp add: white_space_def ascii_graphic_def)

lemma starts_with_hd: "starts_with (c # s) e \<Longrightarrow> e \<noteq> [] \<Longrightarrow> hd e = c"
  by (cases e) auto

lemma find_NoneI: "(\<And>x. x \<in> set xs \<Longrightarrow> \<not> P x) \<Longrightarrow> find P xs = None"
  by (auto simp: find_None_iff)

lemma ws_head_graphic: "ascii_graphic c \<Longrightarrow> ws_head (c # s) = 0"
proof -
  assume c: "ascii_graphic c"
  have "find (starts_with (c # s)) white_space = None"
    using white_space_ends c by (auto simp: list_all_iff dest: starts_with_hd intro!: find_NoneI)
  then show ?thesis by (simp add: ws_head_def)
qed

lemma ws_last_graphic: "ascii_graphic c \<Longrightarrow> ws_last (c # r) = 0"
proof -
  assume c: "ascii_graphic c"
  have "find (\<lambda>e. starts_with (c # r) (rev e)) white_space = None"
    using white_space_ends c
    by (auto simp: list_all_iff hd_rev dest!: starts_with_hd intro!: find_NoneI)
  then show ?thesis by (simp add: ws_last_def)
qed

lemma trim_id:
  assumes "s = [] \<or> ascii_graphic (hd s) \<and> ascii_graphic (last s)"
  shows "trim s = s"
proof (cases s)
  case Nil
  then show ?thesis by (simp add: trim_def trim_start.simps trim_rev.simps)
next
  case (Cons c r)
  then have start: "trim_start s = s"
    using assms by (simp add: trim_start.simps ws_head_graphic)
  obtain d q where "rev s = d # q" "d = last s"
    using Cons by (metis hd_Cons_tl hd_rev list.distinct(1) rev_is_Nil_conv)
  then have "trim_rev (rev s) = rev s"
    using assms Cons by (simp add: trim_rev.simps ws_last_graphic)
  then show ?thesis
    by (simp add: trim_def start)
qed

section \<open>Lines\<close>

definition strip_cr :: "string \<Rightarrow> string" where
  "strip_cr s = (if s \<noteq> [] \<and> last s = CHR 0x0D then butlast s else s)"

text \<open>
  \<^verbatim>\<open>str::lines\<close>: pieces ended by a line feed lose it and a carriage return before it; a last
  piece with no line feed is kept as it is, unless it is empty.
\<close>

definition lines :: "string \<Rightarrow> string list" where
  "lines s =
     (let ps = split_on (CHR 0x0A) s
      in map strip_cr (butlast ps) @ (if last ps = [] then [] else [last ps]))"

lemma lines_Cons:
  assumes "CHR 0x0A \<notin> set l" and "l = [] \<or> last l \<noteq> CHR 0x0D"
  shows "lines (l @ CHR 0x0A # s) = l # lines s"
  using assms by (auto simp: lines_def Let_def split_on_append_sep strip_cr_def)

lemma lines_Nil [simp]: "lines [] = []"
  by (simp add: lines_def)

section \<open>Decimal numbers\<close>

definition digit_char :: "nat \<Rightarrow> char" where
  "digit_char d = char_of (48 + d)"

fun nat_str :: "nat \<Rightarrow> string" where
  "nat_str n = (if n < 10 then [digit_char n] else nat_str (n div 10) @ [digit_char (n mod 10)])"

declare nat_str.simps [simp del]

definition int_str :: "int \<Rightarrow> string" where
  "int_str i = (if i < 0 then CHR ''-'' # nat_str (nat (- i)) else nat_str (nat i))"

definition digit_val :: "char \<Rightarrow> nat option" where
  "digit_val c = (let v = of_char c in if 48 \<le> v \<and> v \<le> 57 then Some (v - 48) else None)"

fun digits_val :: "nat \<Rightarrow> string \<Rightarrow> nat option" where
  "digits_val acc [] = Some acc"
| "digits_val acc (c # cs) =
     (case digit_val c of None \<Rightarrow> None | Some d \<Rightarrow> digits_val (10 * acc + d) cs)"

definition parse_digits :: "string \<Rightarrow> nat option" where
  "parse_digits s = (if s = [] then None else digits_val 0 s)"

text \<open>\<^verbatim>\<open>str::parse\<close> for a signed and for an unsigned integer type: range errors are \<^verbatim>\<open>None\<close>.\<close>

definition parse_signed :: "int \<Rightarrow> int \<Rightarrow> string \<Rightarrow> int option" where
  "parse_signed lo hi s =
     (let v = (case s of
                 [] \<Rightarrow> None
               | c # r \<Rightarrow>
                   if c = CHR ''-'' then map_option (\<lambda>n. - int n) (parse_digits r)
                   else if c = CHR ''+'' then map_option int (parse_digits r)
                   else map_option int (parse_digits s))
      in case v of None \<Rightarrow> None | Some i \<Rightarrow> if lo \<le> i \<and> i \<le> hi then Some i else None)"

definition parse_unsigned :: "nat \<Rightarrow> string \<Rightarrow> nat option" where
  "parse_unsigned hi s =
     (let v = (case s of
                 [] \<Rightarrow> None
               | c # r \<Rightarrow> if c = CHR ''+'' then parse_digits r else parse_digits s)
      in case v of None \<Rightarrow> None | Some n \<Rightarrow> if n \<le> hi then Some n else None)"

lemma digit_val_digit_char: "d < 10 \<Longrightarrow> digit_val (digit_char d) = Some d"
  by (simp add: digit_val_def digit_char_def of_char_of Let_def)

lemma of_char_digit_char: "d < 10 \<Longrightarrow> of_char (digit_char d) = 48 + d"
  by (simp add: digit_char_def of_char_of)

lemma digits_val_append:
  "digits_val acc (s @ t) = (case digits_val acc s of None \<Rightarrow> None | Some a \<Rightarrow> digits_val a t)"
  by (induction s arbitrary: acc) (auto split: option.splits)

lemma nat_str_nonempty [simp]: "nat_str n \<noteq> []"
  by (subst nat_str.simps) simp

lemma digits_val_nat_str: "digits_val 0 (nat_str n) = Some n"
proof (induction n rule: nat_str.induct)
  case (1 n)
  show ?case
    by (subst nat_str.simps)
       (use 1 in \<open>auto simp: digits_val_append digit_val_digit_char\<close>)
qed

lemma parse_digits_nat_str [simp]: "parse_digits (nat_str n) = Some n"
  by (simp add: parse_digits_def digits_val_nat_str)

lemma nat_str_chars: "c \<in> set (nat_str n) \<Longrightarrow> 48 \<le> (of_char c :: nat) \<and> (of_char c :: nat) < 58"
proof (induction n rule: nat_str.induct)
  case (1 n)
  from "1.prems" show ?case
    by (subst (asm) nat_str.simps)
       (use "1.IH" in \<open>auto simp: of_char_digit_char split: if_splits\<close>)
qed

lemma nat_str_no_sign: "hd (nat_str n) \<noteq> CHR ''-'' \<and> hd (nat_str n) \<noteq> CHR ''+''"
proof -
  have "hd (nat_str n) \<in> set (nat_str n)"
    by simp
  from nat_str_chars [OF this] have "48 \<le> (of_char (hd (nat_str n)) :: nat)"
    by simp
  then show ?thesis by auto
qed

lemma parse_signed_int_str:
  assumes "lo \<le> i" "i \<le> hi"
  shows "parse_signed lo hi (int_str i) = Some i"
proof (cases "i < 0")
  case True
  with assms show ?thesis
    by (simp add: parse_signed_def int_str_def)
next
  case False
  obtain c r where cr: "nat_str (nat i) = c # r"
    by (meson list.exhaust nat_str_nonempty)
  then have "c \<noteq> CHR ''-''" "c \<noteq> CHR ''+''"
    using nat_str_no_sign [of "nat i"] by auto
  moreover have "parse_digits (c # r) = Some (nat i)"
    by (simp flip: cr)
  ultimately show ?thesis
    using False assms by (simp add: parse_signed_def int_str_def cr)
qed

lemma int_str_chars: "c \<in> set (int_str i) \<Longrightarrow> c = CHR ''-'' \<or> 48 \<le> (of_char c :: nat) \<and> (of_char c :: nat) < 58"
  by (auto simp: int_str_def dest: nat_str_chars split: if_splits)

section \<open>Hexadecimal and \<^verbatim>\<open>Debug\<close> formatting\<close>

definition hex_digit :: "nat \<Rightarrow> char" where
  "hex_digit d = ''0123456789abcdef'' ! d"

text \<open>\<^verbatim>\<open>{:02x}\<close> and \<^verbatim>\<open>{:x}\<close> of a byte.\<close>

definition hex2 :: "u8 \<Rightarrow> string" where
  "hex2 b = [hex_digit (unat b div 16), hex_digit (unat b mod 16)]"

definition hex1 :: "u8 \<Rightarrow> string" where
  "hex1 b = (if unat b < 16 then [hex_digit (unat b)] else hex2 b)"

text \<open>
  \<^verbatim>\<open>format!("{:?}", b as char)\<close> for a byte \<^verbatim>\<open>b\<close>, that is for a character of the Latin-1 range,
  as UTF-8. The controls, the no-break space and the soft hyphen are not printable.
\<close>

definition debug_char :: "u8 \<Rightarrow> string" where
  "debug_char b =
     (let esc = (\<lambda>c. [CHR 0x5C, c]);
          body =
            (if b = 0 then esc (CHR ''0'')
             else if b = 9 then esc (CHR ''t'')
             else if b = 10 then esc (CHR ''n'')
             else if b = 13 then esc (CHR ''r'')
             else if b = 0x27 then esc (CHR 0x27)
             else if b = 0x5C then esc (CHR 0x5C)
             else if b < 0x20 \<or> (0x7F \<le> b \<and> b \<le> 0xA0) \<or> b = 0xAD
               then [CHR 0x5C, CHR ''u'', CHR 0x7B] @ hex1 b @ [CHR 0x7D]
             else if b < 0x80 then [byte_char b]
             else [byte_char (0xC0 OR drop_bit 6 b), byte_char (0x80 OR (b AND 0x3F))])
      in [CHR 0x27] @ body @ [CHR 0x27])"

section \<open>UTF-8 validity\<close>

definition utf8_cont :: "u8 \<Rightarrow> bool" where
  "utf8_cont b \<longleftrightarrow> 0x80 \<le> b \<and> b \<le> 0xBF"

text \<open>One scalar value off the front: the rest of the buffer, or \<^verbatim>\<open>None\<close> if it is malformed.\<close>

definition utf8_step :: "u8 \<Rightarrow> bytes \<Rightarrow> bytes option" where
  "utf8_step a r =
     (if a < 0x80 then Some r
      else if 0xC2 \<le> a \<and> a \<le> 0xDF then
        (case r of b # r' \<Rightarrow> if utf8_cont b then Some r' else None | _ \<Rightarrow> None)
      else if 0xE0 \<le> a \<and> a \<le> 0xEF then
        (case r of
           b # c # r' \<Rightarrow>
             if utf8_cont b \<and> utf8_cont c \<and> (a = 0xE0 \<longrightarrow> 0xA0 \<le> b) \<and> (a = 0xED \<longrightarrow> b \<le> 0x9F)
             then Some r' else None
         | _ \<Rightarrow> None)
      else if 0xF0 \<le> a \<and> a \<le> 0xF4 then
        (case r of
           b # c # d # r' \<Rightarrow>
             if utf8_cont b \<and> utf8_cont c \<and> utf8_cont d
               \<and> (a = 0xF0 \<longrightarrow> 0x90 \<le> b) \<and> (a = 0xF4 \<longrightarrow> b \<le> 0x8F)
             then Some r' else None
         | _ \<Rightarrow> None)
      else None)"

lemma utf8_step_shorter: "utf8_step a r = Some r' \<Longrightarrow> length r' \<le> length r"
  by (auto simp: utf8_step_def split: if_splits list.splits)

function utf8_valid :: "bytes \<Rightarrow> bool" where
  "utf8_valid [] = True"
| "utf8_valid (a # r) = (case utf8_step a r of None \<Rightarrow> False | Some r' \<Rightarrow> utf8_valid r')"
  by pat_completeness auto
termination
  by (relation "measure length") (auto dest: utf8_step_shorter)

lemma utf8_valid_ascii: "(\<And>b. b \<in> set bs \<Longrightarrow> b < 0x80) \<Longrightarrow> utf8_valid bs"
  by (induction bs) (auto simp: utf8_step_def)

definition from_utf8 :: "bytes \<Rightarrow> string option" where
  "from_utf8 bs = (if utf8_valid bs then Some (str_of bs) else None)"

text \<open>
  Where decoding fails: \<open>utf8_error_len\<close> is the \<^verbatim>\<open>error_len\<close> of \<^verbatim>\<open>Utf8Error\<close> at a malformed
  sequence, \<^const>\<open>None\<close> when the input ends inside it, and \<open>utf8_fault\<close> finds the first one.
\<close>

definition utf8_second_ok :: "u8 \<Rightarrow> u8 \<Rightarrow> bool" where
  "utf8_second_ok a b \<longleftrightarrow>
     utf8_cont b \<and> (a = 0xE0 \<longrightarrow> 0xA0 \<le> b) \<and> (a = 0xED \<longrightarrow> b \<le> 0x9F) \<and>
     (a = 0xF0 \<longrightarrow> 0x90 \<le> b) \<and> (a = 0xF4 \<longrightarrow> b \<le> 0x8F)"

definition utf8_error_len :: "u8 \<Rightarrow> bytes \<Rightarrow> nat option" where
  "utf8_error_len a r =
     (if \<not> (0xC2 \<le> a \<and> a \<le> 0xF4) then Some 1
      else case r of
        [] \<Rightarrow> None
      | b # r' \<Rightarrow>
          if \<not> utf8_second_ok a b then Some 1
          else case r' of
            [] \<Rightarrow> None
          | c # r'' \<Rightarrow> if \<not> utf8_cont c then Some 2 else if r'' = [] then None else Some 3)"

function utf8_fault :: "nat \<Rightarrow> bytes \<Rightarrow> (nat \<times> nat option) option" where
  "utf8_fault k [] = None"
| "utf8_fault k (a # r) =
     (case utf8_step a r of
        None \<Rightarrow> Some (k, utf8_error_len a r)
      | Some r' \<Rightarrow> utf8_fault (k + Suc (length r) - length r') r')"
  by pat_completeness auto
termination
  by (relation "measure (length \<circ> snd)") (auto dest: utf8_step_shorter)

text \<open>The \<^verbatim>\<open>Display\<close> text of \<^verbatim>\<open>Utf8Error\<close>.\<close>

definition utf8_error_text :: "bytes \<Rightarrow> string" where
  "utf8_error_text bs =
     (case utf8_fault 0 bs of
        None \<Rightarrow> []
      | Some (at, None) \<Rightarrow> ''incomplete utf-8 byte sequence from index '' @ nat_str at
      | Some (at, Some n) \<Rightarrow>
          ''invalid utf-8 sequence of '' @ nat_str n @ '' bytes from index '' @ nat_str at)"

text \<open>\<^verbatim>\<open>String::from_utf8_lossy\<close>: each malformed sequence becomes one replacement character.\<close>

fun lossy_loop :: "nat \<Rightarrow> bytes \<Rightarrow> string" where
  "lossy_loop 0 bs = []"
| "lossy_loop (Suc n) bs =
     (case utf8_fault 0 bs of
        None \<Rightarrow> str_of bs
      | Some (at, len) \<Rightarrow>
          str_of (take at bs) @ [CHR 0xEF, CHR 0xBF, CHR 0xBD] @
          (case len of None \<Rightarrow> [] | Some l \<Rightarrow> lossy_loop n (drop (at + l) bs)))"

definition from_utf8_lossy :: "bytes \<Rightarrow> string" where
  "from_utf8_lossy bs = lossy_loop (Suc (length bs)) bs"

lemma utf8_fault_None: "utf8_fault k bs = None \<longleftrightarrow> utf8_valid bs"
  by (induction k bs rule: utf8_fault.induct) (auto split: option.splits)

lemma from_utf8_lossy_valid: "utf8_valid bs \<Longrightarrow> from_utf8_lossy bs = str_of bs"
  by (simp add: from_utf8_lossy_def utf8_fault_None [THEN iffD2])

lemma utf8_step_append: "utf8_step a r = Some r' \<Longrightarrow> utf8_step a (r @ t) = Some (r' @ t)"
  by (auto simp: utf8_step_def split: if_splits list.splits)

lemma utf8_valid_append: "utf8_valid xs \<Longrightarrow> utf8_valid ys \<Longrightarrow> utf8_valid (xs @ ys)"
proof (induction xs rule: utf8_valid.induct)
  case (2 a r)
  then show ?case
    by (auto simp: utf8_step_append split: option.splits)
qed simp

lemma utf8_valid_ascii_str:
  "list_all (\<lambda>c. (of_char c :: nat) < 128) s \<Longrightarrow> utf8_valid (as_bytes s)"
  by (rule utf8_valid_ascii)
    (auto simp: as_bytes_def char_byte_def list_all_iff word_less_nat_alt unat_of_nat)

section \<open>More string operations\<close>

text \<open>\<^verbatim>\<open>str::find\<close> and \<^verbatim>\<open>str::replace\<close> for a non-empty pattern, and a filter of white space.\<close>

fun find_str :: "string \<Rightarrow> string \<Rightarrow> nat option" where
  "find_str p [] = (if p = [] then Some 0 else None)"
| "find_str p (c # s) = (if starts_with (c # s) p then Some 0 else map_option Suc (find_str p s))"

fun replace_loop :: "nat \<Rightarrow> string \<Rightarrow> string \<Rightarrow> string \<Rightarrow> string" where
  "replace_loop 0 p r s = s"
| "replace_loop (Suc n) p r s =
     (case s of
        [] \<Rightarrow> []
      | c # s' \<Rightarrow>
          if starts_with s p then r @ replace_loop n p r (drop (length p) s)
          else c # replace_loop n p r s')"

definition replace_str :: "string \<Rightarrow> string \<Rightarrow> string \<Rightarrow> string" where
  "replace_str p r s = replace_loop (length s) p r s"

fun drop_white_loop :: "nat \<Rightarrow> string \<Rightarrow> string" where
  "drop_white_loop 0 s = []"
| "drop_white_loop (Suc n) s =
     (case s of
        [] \<Rightarrow> []
      | c # s' \<Rightarrow>
          if ws_head s > 0 then drop_white_loop n (drop (ws_head s) s)
          else c # drop_white_loop n s')"

definition drop_white :: "string \<Rightarrow> string" where
  "drop_white s = drop_white_loop (length s) s"

lemma drop_white_graphic: "list_all ascii_graphic s \<Longrightarrow> drop_white s = s"
proof -
  have "list_all ascii_graphic s \<Longrightarrow> drop_white_loop (length s) s = s"
    by (induction s) (simp_all add: ws_head_graphic)
  then show "list_all ascii_graphic s \<Longrightarrow> drop_white s = s"
    by (simp add: drop_white_def)
qed

lemma replace_str_id: "\<not> contains p s \<Longrightarrow> replace_str p r s = s"
proof -
  have "\<not> contains p s \<Longrightarrow> replace_loop (length s) p r s = s"
    by (induction s) simp_all
  then show "\<not> contains p s \<Longrightarrow> replace_str p r s = s"
    by (simp add: replace_str_def)
qed

lemma find_str_prefix: "find_str p (p @ s) = Some 0"
  by (cases "p @ s") (auto, metis starts_with_append)

end
