(* ===== verification/Lox_Error.thy ===== *)
theory Lox_Error
  imports Lox_Strings
begin

text \<open>
  The error type of the client (\<^verbatim>\<open>src/src/error.rs\<close>): every variant, its \<^verbatim>\<open>Display\<close> text, the two
  classifications the supervisor dispatches on, and \<^verbatim>\<open>in_step\<close>, which prefixes a message
  with the handshake step without losing a classification. A fallible function of the code
  returns a value of \<open>result\<close>, with the error on the left; \<open>try_then\<close> is the \<^verbatim>\<open>?\<close> operator.
\<close>

section \<open>The error type\<close>

text \<open>\<^verbatim>\<open>std::io::Error\<close>: the kinds the code inspects or creates, and the text it displays.\<close>

datatype io_kind = NotFound | InvalidData | ConnectionAborted | OtherKind

datatype io_error = IoError (io_error_kind: io_kind) (io_error_text: string)

datatype error =
    Http string
  | HttpStatus u16 string
  | WebSocket string
  | Tls string
  | TlsPinMismatch string string
  | Protocol string
  | Auth string
  | Crypto string
  | Json string
  | Io io_error
  | Timeout string
  | Closed string
  | ReconnectExhausted u32
  | NoEventSlots
  | TooManyConnections
  | UserDisabled
  | NotLocal
  | HandlerPanic
  | Stopped
  | InvalidUuid string
  | NotConnected
  | Backpressure
  | ChannelClosed

type_synonym 'a result = "error + 'a"

abbreviation Ok :: "'a \<Rightarrow> 'e + 'a" where "Ok \<equiv> Inr"
abbreviation Err :: "'e \<Rightarrow> 'e + 'a" where "Err \<equiv> Inl"

fun try_then :: "'e + 'a \<Rightarrow> ('a \<Rightarrow> 'e + 'b) \<Rightarrow> 'e + 'b" where
  "try_then (Inl e) f = Inl e"
| "try_then (Inr a) f = f a"

fun map_err :: "('e \<Rightarrow> 'f) \<Rightarrow> 'e + 'a \<Rightarrow> 'f + 'a" where
  "map_err f (Inl e) = Inl (f e)"
| "map_err f (Inr a) = Inr a"

definition ok_or :: "'e \<Rightarrow> 'a option \<Rightarrow> 'e + 'a" where
  "ok_or e x = (case x of None \<Rightarrow> Inl e | Some a \<Rightarrow> Inr a)"

fun error_display :: "error \<Rightarrow> string" where
  "error_display (Http m) = ''HTTP error: '' @ m"
| "error_display (HttpStatus s m) = ''HTTP status '' @ nat_str (unat s) @ '': '' @ m"
| "error_display (WebSocket m) = ''WebSocket error: '' @ m"
| "error_display (Tls m) = ''TLS error: '' @ m"
| "error_display (TlsPinMismatch e a) =
     ''certificate pin mismatch: expected SPKI '' @ e @ '', got '' @ a"
| "error_display (Protocol m) = ''protocol error: '' @ m"
| "error_display (Auth m) = ''authentication failed: '' @ m"
| "error_display (Crypto m) = ''encryption error: '' @ m"
| "error_display (Json m) = ''JSON error: '' @ m"
| "error_display (Io e) = ''I/O error: '' @ io_error_text e"
| "error_display (Timeout m) = ''timeout: '' @ m"
| "error_display (Closed m) = ''connection closed: '' @ m"
| "error_display (ReconnectExhausted n) =
     ''reconnect failed after '' @ nat_str (unat n) @ '' attempts''"
| "error_display NoEventSlots = ''Miniserver has no free event slots''"
| "error_display TooManyConnections = ''Miniserver has reached its connection limit''"
| "error_display UserDisabled = ''the Miniserver has disabled this user''"
| "error_display NotLocal = ''connection is not local''"
| "error_display HandlerPanic = ''the event handler panicked''"
| "error_display Stopped = ''client stopped''"
| "error_display (InvalidUuid m) = ''invalid UUID: '' @ m"
| "error_display NotConnected = ''not connected''"
| "error_display Backpressure = ''command channel is full''"
| "error_display ChannelClosed = ''command channel closed''"

definition is_terminal :: "error \<Rightarrow> bool" where
  "is_terminal e = (case e of NotLocal \<Rightarrow> True | UserDisabled \<Rightarrow> True | HandlerPanic \<Rightarrow> True | _ \<Rightarrow> False)"

definition needs_long_backoff :: "error \<Rightarrow> bool" where
  "needs_long_backoff e = (case e of NoEventSlots \<Rightarrow> True | TooManyConnections \<Rightarrow> True | _ \<Rightarrow> False)"

definition in_step :: "error \<Rightarrow> string \<Rightarrow> error" where
  "in_step e step =
     (if is_terminal e \<or> needs_long_backoff e then e
      else Auth (step @ '': '' @ error_display e))"

section \<open>Lemmas\<close>

lemmas error_class_defs = is_terminal_def needs_long_backoff_def

lemma is_terminal_iff: "is_terminal e \<longleftrightarrow> e \<in> {NotLocal, UserDisabled, HandlerPanic}"
  by (cases e) (auto simp: error_class_defs)

lemma needs_long_backoff_iff: "needs_long_backoff e \<longleftrightarrow> e \<in> {NoEventSlots, TooManyConnections}"
  by (cases e) (auto simp: error_class_defs)

lemma is_terminal_Auth [simp]: "\<not> is_terminal (Auth m)" "\<not> needs_long_backoff (Auth m)"
  by (simp_all add: error_class_defs)

lemma is_terminal_in_step [simp]: "is_terminal (in_step e s) \<longleftrightarrow> is_terminal e"
  by (auto simp: in_step_def needs_long_backoff_iff is_terminal_iff)

lemma needs_long_backoff_in_step [simp]: "needs_long_backoff (in_step e s) \<longleftrightarrow> needs_long_backoff e"
  by (auto simp: in_step_def needs_long_backoff_iff is_terminal_iff)

lemma try_then_Inr_iff: "try_then r f = Inr b \<longleftrightarrow> (\<exists>a. r = Inr a \<and> f a = Inr b)"
  by (cases r) auto

lemma try_then_Inl_iff: "try_then r f = Inl e \<longleftrightarrow> r = Inl e \<or> (\<exists>a. r = Inr a \<and> f a = Inl e)"
  by (cases r) auto

lemma map_err_Inr_iff [simp]: "map_err f r = Inr a \<longleftrightarrow> r = Inr a"
  by (cases r) auto

lemma map_err_Inl_iff: "map_err f r = Inl e \<longleftrightarrow> (\<exists>e'. r = Inl e' \<and> e = f e')"
  by (cases r) auto

lemma ok_or_simps [simp]: "ok_or e None = Inl e" "ok_or e (Some a) = Inr a"
  by (simp_all add: ok_or_def)

lemma ok_or_Inr_iff [simp]: "ok_or e x = Inr a \<longleftrightarrow> x = Some a"
  by (cases x) auto

text \<open>
  The texts of the variants that carry no data are pairwise different, and prefixing by a
  step is visible in the text: nothing the supervisor logs hides which step failed.
\<close>

lemma error_display_in_step:
  "error_display (in_step e s) =
     (if is_terminal e \<or> needs_long_backoff e then error_display e
      else ''authentication failed: '' @ s @ '': '' @ error_display e)"
  by (simp add: in_step_def)

end
