(* ===== verification/Lox_Uuid.thy ===== *)
theory Lox_Uuid
  imports Lox_Error
begin

text \<open>
  Loxone UUIDs (\<^verbatim>\<open>src/src/uuid.rs\<close>): the 16 wire bytes, the lookup-table formatter of the
  \<^verbatim>\<open>8-4-4-16\<close> string form, the parser, the slice reader and the hash input. The array
  \<^verbatim>\<open>[u8; 16]\<close> is a byte list, and \<open>wf_uuid\<close> says that it has sixteen elements.
\<close>

section \<open>The model\<close>

type_synonym LoxoneUuid = bytes

definition wf_uuid :: "LoxoneUuid \<Rightarrow> bool" where
  "wf_uuid u \<longleftrightarrow> length u = 16"

definition LOXONE_UUID_STR_LEN :: nat where
  "LOXONE_UUID_STR_LEN = 35"

definition digits :: bytes where
  "digits = as_bytes ''0123456789abcdef''"

function hex_lut_loop :: "nat \<Rightarrow> bytes \<Rightarrow> bytes" where
  "hex_lut_loop byte lut =
     (if byte < 256 then
        hex_lut_loop (byte + 1)
          (lut[byte * 2 := digits ! (drop_bit 4 byte), byte * 2 + 1 := digits ! (byte AND 0x0f)])
      else lut)"
  by pat_completeness auto
termination
  by (relation "measure (\<lambda>(byte, _). 256 - byte)") auto

declare hex_lut_loop.simps [simp del]

definition build_hex_lut :: bytes where
  "build_hex_lut = hex_lut_loop 0 (replicate 512 0)"

definition HEX :: bytes where
  "HEX = build_hex_lut"

definition put_hex :: "bytes \<Rightarrow> nat \<Rightarrow> u8 \<Rightarrow> bytes" where
  "put_hex out at byte =
     (let i = unat byte * 2 in out[at := HEX ! i, at + 1 := HEX ! (i + 1)])"

text \<open>\<^verbatim>\<open>std::str::from_utf8(buf).unwrap_or("")\<close>.\<close>

definition as_ascii :: "bytes \<Rightarrow> string" where
  "as_ascii buf = (case from_utf8 buf of Some s \<Rightarrow> s | None \<Rightarrow> [])"

function put_tail :: "nat \<Rightarrow> nat \<Rightarrow> bytes \<Rightarrow> bytes \<Rightarrow> bytes" where
  "put_tail src dst b out =
     (if src < 16 then put_tail (src + 1) (dst + 2) b (put_hex out dst (b ! src)) else out)"
  by pat_completeness auto
termination
  by (relation "measure (\<lambda>(src, _). 16 - src)") auto

declare put_tail.simps [simp del]

definition format_loxone_bytes :: "LoxoneUuid \<Rightarrow> bytes" where
  "format_loxone_bytes b =
     (let out = replicate LOXONE_UUID_STR_LEN (char_byte (CHR ''-''));
          out = put_hex out 0 (b ! 3);
          out = put_hex out 2 (b ! 2);
          out = put_hex out 4 (b ! 1);
          out = put_hex out 6 (b ! 0);
          out = put_hex out 9 (b ! 5);
          out = put_hex out 11 (b ! 4);
          out = put_hex out 14 (b ! 7);
          out = put_hex out 16 (b ! 6)
      in put_tail 8 19 b out)"

definition format_loxone_into :: "LoxoneUuid \<Rightarrow> string \<Rightarrow> string" where
  "format_loxone_into u buf = buf @ as_ascii (format_loxone_bytes u)"

definition format_loxone :: "LoxoneUuid \<Rightarrow> string" where
  "format_loxone u = format_loxone_into u []"

text \<open>\<^verbatim>\<open>LoxoneUuidStr\<close>, the 35 ASCII bytes kept inline as a map key.\<close>

datatype LoxoneUuidStr = LoxoneUuidStr (uuid_str_bytes: bytes)

definition format_loxone_key :: "LoxoneUuid \<Rightarrow> LoxoneUuidStr" where
  "format_loxone_key u = LoxoneUuidStr (format_loxone_bytes u)"

definition as_str :: "LoxoneUuidStr \<Rightarrow> string" where
  "as_str k = as_ascii (uuid_str_bytes k)"

definition debug_uuid_str :: "LoxoneUuidStr \<Rightarrow> string" where
  "debug_uuid_str k = ''LoxoneUuidStr('' @ as_str k @ '')''"

definition display_uuid :: "LoxoneUuid \<Rightarrow> string" where
  "display_uuid u = as_ascii (format_loxone_bytes u)"

definition debug_uuid :: "LoxoneUuid \<Rightarrow> string" where
  "debug_uuid u = ''LoxoneUuid('' @ display_uuid u @ '')''"

definition hex_nibble :: "u8 \<Rightarrow> u8 option" where
  "hex_nibble c =
     (if char_byte (CHR ''0'') \<le> c \<and> c \<le> char_byte (CHR ''9'') then Some (c - char_byte (CHR ''0''))
      else if char_byte (CHR ''a'') \<le> c \<and> c \<le> char_byte (CHR ''f'')
        then Some (c - char_byte (CHR ''a'') + 10)
      else if char_byte (CHR ''A'') \<le> c \<and> c \<le> char_byte (CHR ''F'')
        then Some (c - char_byte (CHR ''A'') + 10)
      else None)"

definition invalid_hex_digit :: "u8 \<Rightarrow> error" where
  "invalid_hex_digit c = InvalidUuid (''invalid hex digit '' @ debug_char c)"

definition put_nibble :: "bytes \<Rightarrow> nat \<Rightarrow> u8 \<Rightarrow> bytes" where
  "put_nibble raw nibbles v =
     (let i = nibbles div 2
      in raw[i := (if even nibbles then push_bit 4 v else raw ! i OR v)])"

fun parse_loop :: "bytes \<Rightarrow> bytes \<Rightarrow> nat \<Rightarrow> (bytes \<times> nat) result" where
  "parse_loop [] raw nibbles = Ok (raw, nibbles)"
| "parse_loop (c # cs) raw nibbles =
     (if c = char_byte (CHR ''-'') then parse_loop cs raw nibbles
      else case hex_nibble c of
        None \<Rightarrow> Err (invalid_hex_digit c)
      | Some v \<Rightarrow>
          if nibbles \<ge> 32 then Err (InvalidUuid ''expected 32 hex digits, got more'')
          else parse_loop cs (put_nibble raw nibbles v) (nibbles + 1))"

definition wire_order :: "bytes \<Rightarrow> LoxoneUuid" where
  "wire_order raw =
     [raw ! 3, raw ! 2, raw ! 1, raw ! 0, raw ! 5, raw ! 4, raw ! 7, raw ! 6,
      raw ! 8, raw ! 9, raw ! 10, raw ! 11, raw ! 12, raw ! 13, raw ! 14, raw ! 15]"

definition parse :: "string \<Rightarrow> LoxoneUuid result" where
  "parse s =
     try_then (parse_loop (as_bytes s) (replicate 16 0) 0) (\<lambda>(raw, nibbles).
       if nibbles \<noteq> 32
       then Err (InvalidUuid (''expected 32 hex digits, got '' @ nat_str nibbles))
       else Ok (wire_order raw))"

text \<open>\<^verbatim>\<open>usize\<close> is 64 bits wide; \<^verbatim>\<open>checked_add\<close> is \<^verbatim>\<open>None\<close> on overflow.\<close>

definition checked_add_usize :: "nat \<Rightarrow> nat \<Rightarrow> nat option" where
  "checked_add_usize a b = (if a + b < 2 ^ 64 then Some (a + b) else None)"

definition read_at :: "bytes \<Rightarrow> nat \<Rightarrow> LoxoneUuid option" where
  "read_at buf offset =
     do {
       end \<leftarrow> checked_add_usize offset 16;
       get_range offset end buf
     }"

text \<open>\<^verbatim>\<open>u64::from_ne_bytes\<close>: the flag says whether the target is little-endian.\<close>

definition from_ne_bytes :: "bool \<Rightarrow> bytes \<Rightarrow> u64" where
  "from_ne_bytes little bs = (if little then from_le_bytes bs else from_be_bytes bs)"

definition as_u64_pair :: "bool \<Rightarrow> LoxoneUuid \<Rightarrow> u64 \<times> u64" where
  "as_u64_pair little b =
     (from_ne_bytes little [b ! 0, b ! 1, b ! 2, b ! 3, b ! 4, b ! 5, b ! 6, b ! 7],
      from_ne_bytes little [b ! 8, b ! 9, b ! 10, b ! 11, b ! 12, b ! 13, b ! 14, b ! 15])"

text \<open>\<^verbatim>\<open>Hash\<close>: two \<^verbatim>\<open>write_u64\<close> calls on the hasher's state.\<close>

definition hash_uuid :: "bool \<Rightarrow> ('h \<Rightarrow> u64 \<Rightarrow> 'h) \<Rightarrow> LoxoneUuid \<Rightarrow> 'h \<Rightarrow> 'h" where
  "hash_uuid little write_u64 u state =
     (let (lo, hi) = as_u64_pair little u in write_u64 (write_u64 state lo) hi)"

section \<open>Reference definitions\<close>

text \<open>The format the Loxone documentation gives: \<^verbatim>\<open>{:02x}\<close> of each byte in display order.\<close>

definition display_order :: "LoxoneUuid \<Rightarrow> bytes" where
  "display_order b =
     [b ! 3, b ! 2, b ! 1, b ! 0, b ! 5, b ! 4, b ! 7, b ! 6,
      b ! 8, b ! 9, b ! 10, b ! 11, b ! 12, b ! 13, b ! 14, b ! 15]"

definition reference_format :: "LoxoneUuid \<Rightarrow> string" where
  "reference_format b =
     concat (map hex2 [b ! 3, b ! 2, b ! 1, b ! 0]) @ ''-'' @
     concat (map hex2 [b ! 5, b ! 4]) @ ''-'' @
     concat (map hex2 [b ! 7, b ! 6]) @ ''-'' @
     concat (map hex2 (drop 8 b))"

text \<open>The bytes written by a string of nibbles, two to a byte, the high one first.\<close>

fun pack :: "u8 list \<Rightarrow> bytes" where
  "pack (a # b # vs) = (push_bit 4 a OR b) # pack vs"
| "pack [a] = [push_bit 4 a]"
| "pack [] = []"

text \<open>What a UUID string means: dashes are ignored, and exactly 32 hex digits must remain.\<close>

definition parse_spec :: "string \<Rightarrow> LoxoneUuid result" where
  "parse_spec s =
     (let ds = filter (\<lambda>c. c \<noteq> char_byte (CHR ''-'')) (as_bytes s);
          good = takeWhile (\<lambda>c. hex_nibble c \<noteq> None) ds
      in if length good > 32 then Err (InvalidUuid ''expected 32 hex digits, got more'')
         else if length good < length ds then Err (invalid_hex_digit (ds ! length good))
         else if length ds \<noteq> 32
           then Err (InvalidUuid (''expected 32 hex digits, got '' @ nat_str (length ds)))
         else Ok (wire_order (pack (map (the \<circ> hex_nibble) ds))))"

section \<open>The lookup table\<close>

lemma length_hex_lut_loop [simp]: "length (hex_lut_loop n lut) = length lut"
proof (induction n lut rule: hex_lut_loop.induct)
  case (1 byte lut)
  then show ?case
    by (subst hex_lut_loop.simps) (simp del: One_nat_def)
qed

lemma hex_lut_loop_nth:
  assumes "length lut = 512" and "j < 256"
  shows "hex_lut_loop n lut ! (2 * j) = (if n \<le> j then digits ! (j div 16) else lut ! (2 * j)) \<and>
         hex_lut_loop n lut ! (2 * j + 1) = (if n \<le> j then digits ! (j mod 16) else lut ! (2 * j + 1))"
  using assms
proof (induction n lut rule: hex_lut_loop.induct)
  case (1 byte lut)
  have a: "byte AND 0x0f = byte mod 16" for byte :: nat
    using take_bit_eq_mask [of 4 byte] by (simp add: mask_eq_exp_minus_1 take_bit_eq_mod)
  show ?case
  proof (cases "byte < 256")
    case True
    note IH = "1.IH" [OF True]
    have "2 * j \<noteq> Suc (byte * 2)" "Suc (2 * j) \<noteq> byte * 2" for byte
      by presburger+
    with IH True "1.prems" show ?thesis
      by (subst (1 2) hex_lut_loop.simps)
        (auto simp: nth_list_update a drop_bit_eq_div le_eq_less_or_eq)
  next
    case False
    with "1.prems" show ?thesis
      by (subst (1 2) hex_lut_loop.simps) auto
  qed
qed

lemma byte_less_256: "unat (b :: u8) < 256"
  using unsigned_less [of b] by simp

lemma HEX_nth [wire]:
  "HEX ! (unat (b :: u8) * 2) = digits ! (unat b div 16)"
  "HEX ! (unat (b :: u8) * 2 + 1) = digits ! (unat b mod 16)"
  "HEX ! (Suc (unat (b :: u8) * 2)) = digits ! (unat b mod 16)"
  using hex_lut_loop_nth [of "replicate 512 0" "unat b" 0] byte_less_256 [of b]
  by (simp_all add: HEX_def build_hex_lut_def mult.commute)

section \<open>Formatting\<close>

lemma put_hex_eq:
  "put_hex out at byte =
     out[at := digits ! (unat byte div 16), at + 1 := digits ! (unat byte mod 16)]"
  by (simp add: put_hex_def Let_def wire)

lemma length_16E:
  assumes "length b = 16"
  obtains b0 b1 b2 b3 b4 b5 b6 b7 b8 b9 b10 b11 b12 b13 b14 b15
  where "b = [b0, b1, b2, b3, b4, b5, b6, b7, b8, b9, b10, b11, b12, b13, b14, b15]"
  using assms by (auto simp: numeral_eq_Suc length_Suc_conv)

lemma digits_hex_digit: "n < 16 \<Longrightarrow> digits ! n = char_byte (hex_digit n)"
  unfolding digits_def as_bytes_def hex_digit_def by (subst nth_map) simp_all

lemma length_hex2 [simp]: "length (hex2 b) = 2"
  by (simp add: hex2_def)

lemma put_hex_splice:
  assumes "at + 2 \<le> length out"
  shows "put_hex out at b = take at out @ as_bytes (hex2 b) @ drop (at + 2) out"
proof -
  have "digits ! (unat b div 16) = char_byte (hex_digit (unat b div 16))"
    "digits ! (unat b mod 16) = char_byte (hex_digit (unat b mod 16))"
    using byte_less_256 [of b] by (auto intro: digits_hex_digit)
  moreover from assms obtain pre x y post where "out = pre @ x # y # post" "length pre = at"
    by (metis (no_types, lifting) Cons_nth_drop_Suc Suc_eq_plus1 Suc_leD Suc_le_lessD add_2_eq_Suc'
        append_take_drop_id length_take min.absorb2)
  ultimately show ?thesis
    by (simp add: put_hex_eq hex2_def as_bytes_def list_update_append)
qed

text \<open>A run of bytes written one after the other, into a buffer of dashes.\<close>

primrec put_run :: "bytes \<Rightarrow> nat \<Rightarrow> bytes \<Rightarrow> bytes" where
  "put_run [] at out = out"
| "put_run (x # xs) at out = put_run xs (at + 2) (put_hex out at x)"

lemma put_run_dashes:
  "length pre = at \<Longrightarrow>
   put_run xs at (pre @ replicate (2 * length xs + k) d) =
     pre @ as_bytes (concat (map hex2 xs)) @ replicate k d"
proof (induction xs arbitrary: pre at)
  case (Cons x xs)
  have "put_hex (pre @ replicate (2 * length (x # xs) + k) d) at x =
      (pre @ as_bytes (hex2 x)) @ replicate (2 * length xs + k) d"
    using Cons.prems by (simp add: put_hex_splice)
  then show ?case
    using Cons.IH [of "pre @ as_bytes (hex2 x)" "at + 2"] Cons.prems by simp
qed (simp add: as_bytes_def)

lemma put_tail_run: "length b = 16 \<Longrightarrow> put_tail src dst b out = put_run (drop src b) dst out"
proof (induction src dst b out rule: put_tail.induct)
  case (1 src dst b out)
  then show ?case
    by (subst put_tail.simps) (auto simp: Cons_nth_drop_Suc [symmetric])
qed

lemma format_loxone_bytes_eq:
  assumes "wf_uuid b"
  shows "format_loxone_bytes b = as_bytes (reference_format b)"
proof -
  let ?d = "char_byte (CHR ''-'')"
  let ?h = "\<lambda>xs. as_bytes (concat (map hex2 xs))"
  let ?A = "[b ! 3, b ! 2, b ! 1, b ! 0]" and ?B = "[b ! 5, b ! 4]" and ?C = "[b ! 7, b ! 6]"
  have b: "length b = 16"
    using assms by (simp add: wf_uuid_def)
  have dash: "replicate (Suc n) ?d = as_bytes ''-'' @ replicate n ?d" for n
    by (simp add: as_bytes_def)
  have dashes: "replicate 27 ?d = as_bytes ''-'' @ replicate 26 ?d"
    "replicate 22 ?d = as_bytes ''-'' @ replicate 21 ?d"
    "replicate 17 ?d = as_bytes ''-'' @ replicate 16 ?d"
    using dash [of 26] dash [of 21] dash [of 16] by simp_all
  have len: "length (?h xs) = 2 * length xs" for xs
    by (induction xs) (simp_all add: as_bytes_def)
  have A: "put_run ?A 0 (replicate 35 ?d) = ?h ?A @ replicate 27 ?d"
    using put_run_dashes [of "[]" 0 ?A 27] by simp
  have B: "put_run ?B 9 (?h ?A @ replicate 27 ?d) = (?h ?A @ as_bytes ''-'' @ ?h ?B) @ replicate 22 ?d"
    unfolding dashes(1) using put_run_dashes [of "?h ?A @ as_bytes ''-''" 9 ?B 22]
    by (simp add: len)
  have C: "put_run ?C 14 ((?h ?A @ as_bytes ''-'' @ ?h ?B) @ replicate 22 ?d) =
      (?h ?A @ as_bytes ''-'' @ ?h ?B @ as_bytes ''-'' @ ?h ?C) @ replicate 17 ?d"
    unfolding dashes(2)
    using put_run_dashes [of "?h ?A @ as_bytes ''-'' @ ?h ?B @ as_bytes ''-''" 14 ?C 17] by (simp add: len)
  have D: "put_run (drop 8 b) 19 ((?h ?A @ as_bytes ''-'' @ ?h ?B @ as_bytes ''-'' @ ?h ?C) @ replicate 17 ?d) =
      ?h ?A @ as_bytes ''-'' @ ?h ?B @ as_bytes ''-'' @ ?h ?C @ as_bytes ''-'' @ ?h (drop 8 b)"
    unfolding dashes(3) using b
      put_run_dashes [of "?h ?A @ as_bytes ''-'' @ ?h ?B @ as_bytes ''-'' @ ?h ?C @ as_bytes ''-''" 19 "drop 8 b" 0]
    by (simp add: len)
  have "format_loxone_bytes b =
      put_run (drop 8 b) 19 (put_run ?C 14 (put_run ?B 9 (put_run ?A 0 (replicate 35 ?d))))"
    by (simp add: format_loxone_bytes_def LOXONE_UUID_STR_LEN_def put_tail_run [OF b] Let_def numeral_eq_Suc)
  also have "\<dots> = as_bytes (reference_format b)"
    unfolding A B C D reference_format_def as_bytes_append ..
  finally show ?thesis .
qed

lemma hex_digit_ascii: "n < 16 \<Longrightarrow> char_byte (hex_digit n) < 0x80"
proof -
  have "list_all (\<lambda>c. char_byte c < 0x80) ''0123456789abcdef''"
    by code_simp
  then show "n < 16 \<Longrightarrow> ?thesis"
    by (simp add: hex_digit_def list_all_length)
qed

lemma hex2_ascii: "c \<in> set (hex2 b) \<Longrightarrow> char_byte c < 0x80"
  using byte_less_256 [of b] by (auto simp: hex2_def intro!: hex_digit_ascii)

lemma reference_format_ascii: "c \<in> set (reference_format b) \<Longrightarrow> char_byte c < 0x80"
  by (auto simp: reference_format_def char_byte_def hex2_ascii [unfolded char_byte_def])

lemma as_ascii_as_bytes: "(\<And>c. c \<in> set s \<Longrightarrow> char_byte c < 0x80) \<Longrightarrow> as_ascii (as_bytes s) = s"
  using utf8_valid_ascii [of "as_bytes s"] by (auto simp: as_ascii_def from_utf8_def as_bytes_def
      str_of_as_bytes [unfolded as_bytes_def])

lemma format_loxone_eq: "wf_uuid b \<Longrightarrow> format_loxone b = reference_format b"
  by (simp add: format_loxone_def format_loxone_into_def format_loxone_bytes_eq
      as_ascii_as_bytes reference_format_ascii)

section \<open>Parsing\<close>

primrec put_nibbles :: "bytes \<Rightarrow> nat \<Rightarrow> u8 list \<Rightarrow> bytes" where
  "put_nibbles raw n [] = raw"
| "put_nibbles raw n (v # vs) = put_nibbles (put_nibble raw n v) (n + 1) vs"

lemma put_nibbles_pack:
  "length vs = 2 * k \<Longrightarrow> put_nibbles (pre @ replicate k 0) (2 * length pre) vs = pre @ pack vs"
proof (induction vs arbitrary: pre k rule: pack.induct)
  case (1 a b vs)
  then obtain k' where k: "k = Suc k'"
    by (cases k) auto
  have "put_nibbles ((pre @ [push_bit 4 a OR b]) @ replicate k' 0)
          (2 * length (pre @ [push_bit 4 a OR b])) vs = (pre @ [push_bit 4 a OR b]) @ pack vs"
    using "1.prems" k by (intro "1.IH") simp
  then show ?case
    by (simp add: k put_nibble_def Let_def)
qed auto

lemma parse_loop_filter:
  "parse_loop cs raw n = parse_loop (filter (\<lambda>c. c \<noteq> char_byte (CHR ''-'')) cs) raw n"
  by (induction cs raw n rule: parse_loop.induct) (auto split: option.splits)

lemma parse_loop_eq:
  assumes "char_byte (CHR ''-'') \<notin> set ds" and "n \<le> 32"
  shows "parse_loop ds raw n =
     (let good = takeWhile (\<lambda>c. hex_nibble c \<noteq> None) ds
      in if n + length good > 32 then Err (InvalidUuid ''expected 32 hex digits, got more'')
         else if length good < length ds then Err (invalid_hex_digit (ds ! length good))
         else Ok (put_nibbles raw n (map (the \<circ> hex_nibble) ds), n + length ds))"
  using assms
proof (induction ds raw n rule: parse_loop.induct)
  case (1 raw nibbles)
  then show ?case by simp
next
  case (2 c cs raw n)
  show ?case
  proof (cases "hex_nibble c")
    case None
    with "2.prems" show ?thesis by (auto simp: Let_def)
  next
    case (Some v)
    show ?thesis
    proof (cases "n \<ge> 32")
      case True
      with "2.prems" Some show ?thesis by (auto simp: Let_def)
    next
      case False
      with "2.prems" Some "2.IH"(2) [OF _ Some False] show ?thesis
        by (auto simp: Let_def)
    qed
  qed
qed

lemma parse_eq_parse_spec: "parse s = parse_spec s"
proof -
  define ds where "ds = filter (\<lambda>c. c \<noteq> char_byte (CHR ''-'')) (as_bytes s)"
  have "char_byte (CHR ''-'') \<notin> set ds"
    by (simp add: ds_def)
  moreover have "length ds = 32 \<Longrightarrow> put_nibbles (replicate 16 0) 0 (map (the \<circ> hex_nibble) ds) =
      pack (map (the \<circ> hex_nibble) ds)"
    using put_nibbles_pack [of "map (the \<circ> hex_nibble) ds" 16 "[]"] by simp
  ultimately show ?thesis
    unfolding parse_def parse_spec_def parse_loop_filter [of "as_bytes s"] ds_def [symmetric]
    by (simp add: parse_loop_eq Let_def)
qed

lemma hex_nibble_hex_digit:
  assumes "n < 16"
  shows "hex_nibble (char_byte (hex_digit n)) = Some (word_of_nat n)"
proof -
  have "n \<in> {0, 1, 2, 3, 4, 5, 6, 7, 8, 9, 10, 11, 12, 13, 14, 15}"
    using assms by simp arith
  then show ?thesis
    by (elim insertE emptyE) (simp_all add: hex_digit_def hex_nibble_def char_byte_def)
qed


lemma byte_nibbles: "push_bit 4 (word_of_nat (unat b div 16)) OR word_of_nat (unat b mod 16) = (b :: u8)"
proof -
  have "word_of_nat (unat b div 16) = drop_bit 4 b" "word_of_nat (unat b mod 16) = take_bit 4 b"
    using byte_less_256 [of b]
    by (simp_all add: word_unat_eq_iff drop_bit_eq_div take_bit_eq_mod unat_of_nat
        unat_div_distrib unat_mod_distrib)
  moreover have "push_bit 4 (drop_bit 4 b) OR take_bit 4 b = b"
    by (rule bit_word_eqI) (auto simp: bit_simps)
  ultimately show ?thesis by simp
qed

lemma hex_nibble_hex2:
  "map (the \<circ> hex_nibble) (as_bytes (hex2 b)) = [word_of_nat (unat b div 16), word_of_nat (unat b mod 16)]"
  "c \<in> set (as_bytes (hex2 b)) \<Longrightarrow> hex_nibble c \<noteq> None"
  using byte_less_256 [of b] by (auto simp: hex2_def as_bytes_def hex_nibble_hex_digit)

lemma pack_hex2: "pack (map (the \<circ> hex_nibble) (as_bytes (concat (map hex2 bs)))) = bs"
proof (induction bs)
  case Nil
  then show ?case by (simp add: as_bytes_def)
next
  case (Cons b bs)
  then show ?case
    by (simp only: list.map concat.simps as_bytes_append map_append hex_nibble_hex2 append.simps
        pack.simps byte_nibbles)
qed

lemma hex_nibble_dash [simp]: "hex_nibble (char_byte (CHR ''-'')) = None"
  by (simp add: hex_nibble_def char_byte_def)

lemma hex2_concat_ok:
  assumes "c \<in> set (as_bytes (concat (map hex2 bs)))"
  shows "hex_nibble c \<noteq> None"
  using assms hex_nibble_hex2(2) by (auto simp: as_bytes_def)

lemma wire_display_order: "wf_uuid b \<Longrightarrow> wire_order (display_order b) = b"
  unfolding wf_uuid_def by (erule length_16E) (simp add: wire_order_def display_order_def)

lemma reference_format_digits:
  assumes "wf_uuid b"
  shows "filter (\<lambda>c. c \<noteq> char_byte (CHR ''-'')) (as_bytes (reference_format b)) =
           as_bytes (concat (map hex2 (display_order b)))"
proof -
  have f: "filter (\<lambda>c. c \<noteq> char_byte (CHR ''-'')) (as_bytes (concat (map hex2 bs))) =
      as_bytes (concat (map hex2 bs))" for bs
  proof (rule filter_True, rule ballI, rule notI)
    fix c
    assume "c \<in> set (as_bytes (concat (map hex2 bs)))" and "c = char_byte (CHR ''-'')"
    then show False
      using hex2_concat_ok [of c bs] hex_nibble_dash by simp
  qed
  have "drop 8 b = [b ! 8, b ! 9, b ! 10, b ! 11, b ! 12, b ! 13, b ! 14, b ! 15]"
    using assms unfolding wf_uuid_def by (elim length_16E) simp
  then have "concat (map hex2 (display_order b)) = concat (map hex2 [b ! 3, b ! 2, b ! 1, b ! 0]) @
      concat (map hex2 [b ! 5, b ! 4]) @ concat (map hex2 [b ! 7, b ! 6]) @ concat (map hex2 (drop 8 b))"
    by (simp add: display_order_def)
  moreover have "filter (\<lambda>c. c \<noteq> char_byte (CHR ''-'')) (as_bytes ''-'') = []"
    by (simp add: as_bytes_def)
  ultimately show ?thesis
    by (simp only: reference_format_def as_bytes_append filter_append f append_Nil)
qed

lemma parse_reference_format: "wf_uuid b \<Longrightarrow> parse (reference_format b) = Ok b"
proof -
  assume b: "wf_uuid b"
  let ?ds = "as_bytes (concat (map hex2 (display_order b)))"
  have good: "takeWhile (\<lambda>c. hex_nibble c \<noteq> None) ?ds = ?ds"
    using hex2_concat_ok by (auto simp: takeWhile_eq_all_conv)
  have "length ?ds = 32"
    by (simp add: display_order_def)
  then show ?thesis
    unfolding parse_eq_parse_spec parse_spec_def reference_format_digits [OF b] Let_def good
    by (simp only: pack_hex2 wire_display_order [OF b]) simp
qed

lemma read_at_Some:
  "read_at buf off = Some u \<longleftrightarrow> off + 16 < 2 ^ 64 \<and> off + 16 \<le> length buf \<and> u = field off 16 buf"
  by (auto simp: read_at_def checked_add_usize_def get_range_def field_def)

lemma wf_read_at: "read_at buf off = Some u \<Longrightarrow> wf_uuid u"
  by (auto simp: read_at_Some wf_uuid_def field_def)

lemma from_ne_bytes_inject:
  "length xs = 8 \<Longrightarrow> length ys = 8 \<Longrightarrow> from_ne_bytes l xs = from_ne_bytes l ys \<longleftrightarrow> xs = ys"
  using from_le_bytes_inject [of xs 8 ys, where 'a = 64]
    from_le_bytes_inject [of "rev xs" 8 "rev ys", where 'a = 64]
  by (simp add: from_ne_bytes_def from_be_bytes_def)

lemma as_u64_pair_inject:
  assumes "wf_uuid u" "wf_uuid v"
  shows "as_u64_pair l u = as_u64_pair l v \<longleftrightarrow> u = v"
  using assms unfolding wf_uuid_def
  by (elim length_16E) (simp add: as_u64_pair_def from_ne_bytes_inject)

section \<open>Properties\<close>

text \<open>
  C16: Formatting and parsing are inverse: the parser gives back the sixteen bytes of every UUID
  from its string form, and the string form has 35 characters.
\<close>

theorem uuid_parse_format:
  assumes "wf_uuid u"
  shows "parse (format_loxone u) = Ok u \<and> length (format_loxone u) = LOXONE_UUID_STR_LEN"
proof -
  have "length (reference_format u) = 35"
    using assms by (simp add: reference_format_def wf_uuid_def length_concat comp_def sum_list_triv)
  then show ?thesis
    using assms by (simp add: format_loxone_eq parse_reference_format LOXONE_UUID_STR_LEN_def)
qed

theorem uuid_parse_format_witness:
  "parse (format_loxone [0, 1, 2, 3, 4, 5, 6, 7, 8, 9, 10, 11, 12, 13, 14, 255]) =
     Ok [0, 1, 2, 3, 4, 5, 6, 7, 8, 9, 10, 11, 12, 13, 14, 255]"
  using uuid_parse_format [of "[0, 1, 2, 3, 4, 5, 6, 7, 8, 9, 10, 11, 12, 13, 14, 255]"]
  by (simp add: wf_uuid_def)

text \<open>
  C17: The parser accepts exactly the strings with 32 hexadecimal digits between any dashes, and
  answers every other string with the error of its first fault: a 33rd digit, a character that
  is no digit, or too few digits.
\<close>

theorem uuid_parse_meaning: "parse s = parse_spec s"
  by (rule parse_eq_parse_spec)

text \<open>
  The lookup-table formatter prints what the byte-by-byte reference formatting prints: two
  lowercase digits per byte, the first three fields in big-endian order, dashes after 8, 12 and
  16 digits.
\<close>

theorem uuid_format_reference:
  assumes "wf_uuid u"
  shows "format_loxone u = reference_format u \<and> display_uuid u = reference_format u \<and>
    as_str (format_loxone_key u) = reference_format u"
proof -
  have "as_ascii (format_loxone_bytes u) = reference_format u"
    using assms by (simp add: format_loxone_bytes_eq as_ascii_as_bytes reference_format_ascii)
  then show ?thesis
    using assms by (simp add: format_loxone_eq display_uuid_def as_str_def format_loxone_key_def)
qed

theorem uuid_format_reference_witness:
  "format_loxone [0x1f, 0x1f, 0x1f, 0x1f, 0xa0, 0, 0, 0, 1, 2, 3, 4, 5, 6, 7, 0xff] =
     ''1f1f1f1f-00a0-0000-01020304050607ff''"
proof -
  have "reference_format [0x1f, 0x1f, 0x1f, 0x1f, 0xa0, 0, 0, 0, 1, 2, 3, 4, 5, 6, 7, 0xff] =
      ''1f1f1f1f-00a0-0000-01020304050607ff''"
    by (simp add: reference_format_def hex2_def hex_digit_def)
  then show ?thesis
    using uuid_format_reference [of "[0x1f, 0x1f, 0x1f, 0x1f, 0xa0, 0, 0, 0, 1, 2, 3, 4, 5, 6, 7, 0xff]"]
    by (simp add: wf_uuid_def)
qed

end
