(* ===== verification/Lox_Tables.thy ===== *)
theory Lox_Tables
  imports Lox_Uuid
begin

text \<open>
  What the event-table parsers share: the interface of the \<^verbatim>\<open>zerocopy\<close> crate, through which
  they view a byte slice as fixed-size records, and two contracts. \<open>record_codec\<close> is the
  contract of a fixed-size wire record; \<open>table_walker\<close> is the contract of a loop that splits
  one table after the other off a payload and calls back for each.
\<close>

section \<open>The \<^verbatim>\<open>zerocopy\<close> interface\<close>

text \<open>
  The three casts the code calls, for a target type of a given size in bytes. The types it
  casts to are all \<^verbatim>\<open>repr(C)\<close> with alignment 1, so that a value of the type is the byte list
  of that size.
\<close>

record zerocopy =
  read_from_bytes :: "nat \<Rightarrow> bytes \<Rightarrow> bytes option"
  ref_from_prefix :: "nat \<Rightarrow> bytes \<Rightarrow> (bytes \<times> bytes) option"
  ref_from_prefix_with_elems :: "nat \<Rightarrow> bytes \<Rightarrow> nat \<Rightarrow> (bytes list \<times> bytes) option"

primrec chunks :: "nat \<Rightarrow> nat \<Rightarrow> bytes \<Rightarrow> bytes list" where
  "chunks n 0 bs = []"
| "chunks n (Suc c) bs = take n bs # chunks n c (drop n bs)"

text \<open>The documented behaviour: a cast fails exactly when the slice has the wrong length.\<close>

definition zerocopy_ok :: "zerocopy \<Rightarrow> bool" where
  "zerocopy_ok zc \<longleftrightarrow>
     (\<forall>n bs. read_from_bytes zc n bs = (if length bs = n then Some bs else None)) \<and>
     (\<forall>n bs. ref_from_prefix zc n bs =
        (if n \<le> length bs then Some (take n bs, drop n bs) else None)) \<and>
     (\<forall>n bs c. ref_from_prefix_with_elems zc n bs c =
        (if n * c \<le> length bs then Some (chunks n c bs, drop (n * c) bs) else None))"

text \<open>An instance, on which the statements below are evaluated.\<close>

definition zc_layout :: zerocopy where
  "zc_layout =
     \<lparr>read_from_bytes = (\<lambda>n bs. if length bs = n then Some bs else None),
      ref_from_prefix = (\<lambda>n bs. if n \<le> length bs then Some (take n bs, drop n bs) else None),
      ref_from_prefix_with_elems =
        (\<lambda>n bs c. if n * c \<le> length bs then Some (chunks n c bs, drop (n * c) bs) else None)\<rparr>"

lemma zerocopy_ok_layout [simp]: "zerocopy_ok zc_layout"
  by (simp add: zerocopy_ok_def zc_layout_def)

lemma zerocopy_okD:
  assumes "zerocopy_ok zc"
  shows "read_from_bytes zc n bs = (if length bs = n then Some bs else None)"
    and "ref_from_prefix zc n bs = (if n \<le> length bs then Some (take n bs, drop n bs) else None)"
    and "ref_from_prefix_with_elems zc n bs c =
           (if n * c \<le> length bs then Some (chunks n c bs, drop (n * c) bs) else None)"
  using assms by (simp_all add: zerocopy_ok_def)

lemma length_chunks [simp]: "length (chunks n c bs) = c"
  by (induction c arbitrary: bs) auto

lemma chunks_elem_length: "n * c \<le> length bs \<Longrightarrow> r \<in> set (chunks n c bs) \<Longrightarrow> length r = n"
proof (induction c arbitrary: bs)
  case (Suc c)
  then show ?case
    using Suc.IH [of "drop n bs"] by auto
qed simp

lemma concat_chunks: "n * c \<le> length bs \<Longrightarrow> concat (chunks n c bs) = take (n * c) bs"
  by (induction c arbitrary: bs) (auto simp: take_add [symmetric] algebra_simps)

lemma chunks_concat:
  "(\<And>r. r \<in> set rs \<Longrightarrow> length r = n) \<Longrightarrow> chunks n (length rs) (concat rs @ t) = rs"
  by (induction rs) auto

lemma length_concat_const: "(\<And>r. r \<in> set rs \<Longrightarrow> length r = n) \<Longrightarrow> length (concat rs) = n * length rs"
  by (induction rs) auto

section \<open>Fixed-size wire records\<close>

locale record_codec =
  fixes size_of :: nat
    and enc :: "'r \<Rightarrow> bytes"
    and dec :: "bytes \<Rightarrow> 'r"
    and wf :: "'r \<Rightarrow> bool"
  assumes size_pos: "0 < size_of"
    and enc_length: "wf r \<Longrightarrow> length (enc r) = size_of"
    and dec_enc: "wf r \<Longrightarrow> dec (enc r) = r"
    and enc_dec: "length bs = size_of \<Longrightarrow> enc (dec bs) = bs"
    and wf_dec: "length bs = size_of \<Longrightarrow> wf (dec bs)"
begin

lemma enc_inject: "wf r \<Longrightarrow> wf s \<Longrightarrow> enc r = enc s \<longleftrightarrow> r = s"
  by (metis dec_enc)

lemma dec_inject:
  "length bs = size_of \<Longrightarrow> length cs = size_of \<Longrightarrow> dec bs = dec cs \<longleftrightarrow> bs = cs"
  by (metis enc_dec)

lemma length_enc_all: "list_all wf rs \<Longrightarrow> length (concat (map enc rs)) = size_of * length rs"
  by (induction rs) (auto simp: enc_length)

text \<open>The records of a table come back, whatever bytes follow it.\<close>

lemma dec_chunks_enc:
  assumes "list_all wf rs"
  shows "map dec (chunks size_of (length rs) (concat (map enc rs) @ t)) = rs"
proof -
  have "chunks size_of (length (map enc rs)) (concat (map enc rs) @ t) = map enc rs"
    using assms by (intro chunks_concat) (auto simp: list_all_iff enc_length)
  moreover have "map (dec \<circ> enc) rs = rs"
    using assms by (intro map_idI) (auto simp: list_all_iff dec_enc)
  ultimately show ?thesis by simp
qed

text \<open>A partial record at the end does not count.\<close>

lemma count_enc:
  "list_all wf rs \<Longrightarrow> length t < size_of \<Longrightarrow>
   length (concat (map enc rs) @ t) div size_of = length rs"
  using size_pos by (simp add: length_enc_all)

text \<open>Conversely every sufficiently long buffer is the encoding of the records it is read as.\<close>

lemma enc_dec_chunks:
  assumes "size_of * c \<le> length bs"
  shows "concat (map enc (map dec (chunks size_of c bs))) = take (size_of * c) bs"
    and "list_all wf (map dec (chunks size_of c bs))"
proof -
  have "map (enc \<circ> dec) (chunks size_of c bs) = chunks size_of c bs"
    using chunks_elem_length [OF assms] by (intro map_idI) (auto simp: enc_dec)
  then show "concat (map enc (map dec (chunks size_of c bs))) = take (size_of * c) bs"
    by (simp add: concat_chunks assms)
  show "list_all wf (map dec (chunks size_of c bs))"
    using chunks_elem_length [OF assms] by (auto simp: list_all_iff wf_dec)
qed

end

section \<open>Table walkers\<close>

text \<open>
  A walker takes one event off the front of the payload, calls back, and goes on with the
  rest; it stops at the first payload it cannot split. The callback is a state transformer,
  and a walker that does not return is \<^const>\<open>None\<close>.
\<close>

locale table_walker =
  fixes step :: "bytes \<Rightarrow> ('ev \<times> bytes) option"
    and walk :: "bytes \<Rightarrow> ('ev \<Rightarrow> 's \<Rightarrow> 's) \<Rightarrow> 's \<Rightarrow> 's option"
    and events :: "bytes \<Rightarrow> 'ev list"
    and enc :: "'ev \<Rightarrow> bytes"
    and wf :: "'ev \<Rightarrow> bool"
  assumes walk_unfold: "walk p f s = (case step p of None \<Rightarrow> Some s | Some (e, r) \<Rightarrow> walk r f (f e s))"
    and events_unfold: "events p = (case step p of None \<Rightarrow> [] | Some (e, r) \<Rightarrow> e # events r)"
    and step_shrinks: "step p = Some (e, r) \<Longrightarrow> length r < length p"
    and step_enc: "wf e \<Longrightarrow> step (enc e @ r) = Some (e, r)"
begin

lemma walk_stop: "step p = None \<Longrightarrow> walk p f s = Some s"
  by (subst walk_unfold) simp

lemma events_stop: "step p = None \<Longrightarrow> events p = []"
  by (subst events_unfold) simp

text \<open>The walker returns, and all it does is call back for the events of the payload in order.\<close>

lemma walk_events: "walk p f s = Some (fold f (events p) s)"
proof (induction "length p" arbitrary: p s rule: less_induct)
  case less
  show ?case
  proof (cases "step p")
    case None
    then show ?thesis
      by (simp add: walk_stop events_stop)
  next
    case (Some er)
    obtain e r where "er = (e, r)" by (cases er)
    with Some less [OF step_shrinks [of p e r]] show ?thesis
      by (subst walk_unfold, subst events_unfold) simp
  qed
qed

text \<open>Encoded events are delivered in order, each once, and then the rest is walked.\<close>

lemma events_enc: "list_all wf es \<Longrightarrow> events (concat (map enc es) @ t) = es @ events t"
proof (induction es)
  case (Cons e es)
  then show ?case
    by (subst events_unfold) (simp add: step_enc)
qed simp

lemma walk_enc:
  "list_all wf es \<Longrightarrow> walk (concat (map enc es) @ t) f s = walk t f (fold f es s)"
  by (simp add: walk_events events_enc)

lemma walk_enc_stop:
  "list_all wf es \<Longrightarrow> step t = None \<Longrightarrow> walk (concat (map enc es) @ t) f s = Some (fold f es s)"
  by (simp add: walk_enc walk_stop)

end

section \<open>Tables with a counted entry array\<close>

text \<open>
  A header of \<open>hs\<close> bytes with a signed 32-bit entry count at offset \<open>off\<close>, followed by that
  many entries of \<open>es\<close> bytes: what splitting one off a payload means.
\<close>

definition split_counted :: "nat \<Rightarrow> nat \<Rightarrow> nat \<Rightarrow> bytes \<Rightarrow> (bytes \<times> bytes \<times> bytes) option" where
  "split_counted hs off es p =
     (if length p < hs then None
      else let n = sint (from_le_bytes (field off 4 p) :: i32)
           in if n < 0 \<or> length p < hs + nat n * es then None
              else Some (take hs p, field hs (nat n * es) p, drop (hs + nat n * es) p))"

text \<open>\<^verbatim>\<open>usize::try_from\<close> of an \<^verbatim>\<open>i32\<close>, and \<^verbatim>\<open>checked_mul\<close> on \<^verbatim>\<open>usize\<close>.\<close>

definition usize_try_from :: "i32 \<Rightarrow> nat option" where
  "usize_try_from w = (if sint w < 0 then None else Some (nat (sint w)))"

definition checked_mul_usize :: "nat \<Rightarrow> nat \<Rightarrow> nat option" where
  "checked_mul_usize a b = (if a * b < 2 ^ 64 then Some (a * b) else None)"

lemma sint_i32_bounds: "- (2 ^ 31) \<le> sint (w :: i32)" "sint (w :: i32) < 2 ^ 31"
  using sint_greater_eq [of w] sint_less [of w] by simp_all

lemma sint_of_nat_i32: "n < 2 ^ 31 \<Longrightarrow> sint (word_of_nat n :: i32) = int n"
  by (simp add: signed_of_nat signed_take_bit_int_eq_self_iff)

lemma word_of_nat_sint_i32: "0 \<le> sint (w :: i32) \<Longrightarrow> word_of_nat (nat (sint w)) = w"
  by simp

lemma checked_mul_count: "es \<le> 128 \<Longrightarrow> checked_mul_usize (nat (sint (w :: i32))) es = Some (nat (sint w) * es)"
proof -
  assume "es \<le> 128"
  moreover have "nat (sint w) < 2 ^ 31"
    using sint_i32_bounds [of w] by simp
  ultimately have "nat (sint w) * es \<le> 2 ^ 31 * 128"
    by (intro mult_mono) simp_all
  then show ?thesis
    by (simp add: checked_mul_usize_def)
qed

lemma split_counted_shrinks: "split_counted hs off es p = Some (h, b, r) \<Longrightarrow> 0 < hs \<Longrightarrow> length r < length p"
  by (auto simp: split_counted_def Let_def split: if_splits)

lemma split_counted_parts:
  assumes "split_counted hs off es p = Some (h, b, r)" and "off + 4 \<le> hs"
  shows "p = h @ b @ r" "length h = hs" "0 \<le> sint (from_le_bytes (field off 4 h) :: i32)"
    "length b = nat (sint (from_le_bytes (field off 4 h) :: i32)) * es"
proof -
  have "field off 4 (take hs p) = field off 4 p"
    using assms(2) by (simp add: field_def take_drop min_def)
  with assms show "length h = hs" "0 \<le> sint (from_le_bytes (field off 4 h) :: i32)"
    "length b = nat (sint (from_le_bytes (field off 4 h) :: i32)) * es"
    by (auto simp: split_counted_def Let_def field_def split: if_splits)
  show "p = h @ b @ r"
    using assms(1) by (auto simp: split_counted_def Let_def field_def split: if_splits)
      (metis append_take_drop_id drop_drop add.commute)
qed

lemma split_counted_append:
  assumes "length h = hs" "off + 4 \<le> hs" "field off 4 h = to_le_bytes 4 (word_of_nat n :: i32)"
    and "n < 2 ^ 31" and "length b = n * es"
  shows "split_counted hs off es (h @ b @ r) = Some (h, b, r)"
proof -
  have "field off 4 (h @ b @ r) = to_le_bytes 4 (word_of_nat n :: i32)"
    using assms by (simp add: field_append_left)
  with assms show ?thesis
    by (simp add: split_counted_def Let_def sint_of_nat_i32 field_def)
qed

lemma split_counted_short: "length p < hs \<Longrightarrow> split_counted hs off es p = None"
  by (simp add: split_counted_def)

section \<open>Parsers over a given \<^verbatim>\<open>zerocopy\<close>\<close>

text \<open>The parser theories show in this context that their walkers keep the contract above.\<close>

locale zerocopy_env =
  fixes zc :: zerocopy
  assumes zc_ok: "zerocopy_ok zc"
begin

lemmas zc_simps = zerocopy_okD [OF zc_ok]

end

interpretation layout: zerocopy_env zc_layout
  by unfold_locales simp

end
