(* ===== verification/Lox_Header.thy ===== *)
theory Lox_Header
  imports Lox_Tables
begin

text \<open>
  The 8-byte message header (\<^verbatim>\<open>src/src/proto/header.rs\<close>): the message identifiers, the header
  struct with its accessors, and the parser that tells a header frame from any other frame.
\<close>

section \<open>The model\<close>

datatype MessageType =
    Text | BinaryFile | ValueStates | TextStates | DaytimerStates | OutOfService | Keepalive
  | WeatherStates

definition from_u8 :: "u8 \<Rightarrow> MessageType option" where
  "from_u8 v =
     (if v = 0 then Some Text
      else if v = 1 then Some BinaryFile
      else if v = 2 then Some ValueStates
      else if v = 3 then Some TextStates
      else if v = 4 then Some DaytimerStates
      else if v = 5 then Some OutOfService
      else if v = 6 then Some Keepalive
      else if v = 7 then Some WeatherStates
      else None)"

text \<open>The discriminants of \<^verbatim>\<open>repr(u8)\<close>.\<close>

fun message_type_u8 :: "MessageType \<Rightarrow> u8" where
  "message_type_u8 Text = 0"
| "message_type_u8 BinaryFile = 1"
| "message_type_u8 ValueStates = 2"
| "message_type_u8 TextStates = 3"
| "message_type_u8 DaytimerStates = 4"
| "message_type_u8 OutOfService = 5"
| "message_type_u8 Keepalive = 6"
| "message_type_u8 WeatherStates = 7"

record WsBinHdr =
  hdr_bin_type :: u8
  hdr_identifier :: u8
  hdr_info :: u8
  hdr_reserved :: u8
  hdr_len :: bytes

definition HDR_SIZE :: nat where "HDR_SIZE = 8"
definition MAGIC :: u8 where "MAGIC = 0x03"
definition INFO_ESTIMATED :: u8 where "INFO_ESTIMATED = 0x01"

definition hdr_of_bytes :: "bytes \<Rightarrow> WsBinHdr" where
  "hdr_of_bytes bs =
     \<lparr>hdr_bin_type = bs ! 0, hdr_identifier = bs ! 1, hdr_info = bs ! 2, hdr_reserved = bs ! 3,
      hdr_len = field 4 4 bs\<rparr>"

definition hdr_bytes :: "WsBinHdr \<Rightarrow> bytes" where
  "hdr_bytes h = [hdr_bin_type h, hdr_identifier h, hdr_info h, hdr_reserved h] @ hdr_len h"

definition wf_hdr :: "WsBinHdr \<Rightarrow> bool" where
  "wf_hdr h \<longleftrightarrow> length (hdr_len h) = 4"

definition payload_len :: "WsBinHdr \<Rightarrow> u32" where
  "payload_len h = from_le_bytes (hdr_len h)"

definition is_estimated :: "WsBinHdr \<Rightarrow> bool" where
  "is_estimated h \<longleftrightarrow> hdr_info h AND INFO_ESTIMATED \<noteq> 0"

definition message_type :: "WsBinHdr \<Rightarrow> MessageType option" where
  "message_type h = from_u8 (hdr_identifier h)"

definition parse_header :: "zerocopy \<Rightarrow> bytes \<Rightarrow> WsBinHdr option result" where
  "parse_header zc buf =
     (if length buf \<noteq> HDR_SIZE then Ok None
      else case read_from_bytes zc HDR_SIZE buf of
        None \<Rightarrow> Err (Protocol ''invalid header layout'')
      | Some bs \<Rightarrow>
          let hdr = hdr_of_bytes bs
          in if hdr_bin_type hdr \<noteq> MAGIC then Ok None else Ok (Some hdr))"

section \<open>Lemmas\<close>

lemmas hdr_defs = hdr_of_bytes_def hdr_bytes_def wf_hdr_def HDR_SIZE_def MAGIC_def

lemma from_u8_iff: "from_u8 v = Some t \<longleftrightarrow> v = message_type_u8 t"
  by (cases t) (auto simp: from_u8_def)

lemma from_u8_None: "from_u8 v = None \<longleftrightarrow> 7 < v"
proof -
  have "v = 0 \<or> v = 1 \<or> v = 2 \<or> v = 3 \<or> v = 4 \<or> v = 5 \<or> v = 6 \<or> v = 7 \<longleftrightarrow> v \<le> 7"
  proof -
    have "v \<le> 7 \<longleftrightarrow> unat v \<le> 7"
      by (simp add: word_le_nat_alt)
    also have "\<dots> \<longleftrightarrow> unat v \<in> {0, 1, 2, 3, 4, 5, 6, 7}"
      by (simp; arith)
    finally show ?thesis
      by (simp add: word_unat_eq_iff)
  qed
  then show ?thesis
    by (auto simp: from_u8_def not_less [symmetric])
qed

lemma length_8E:
  assumes "length b = 8"
  obtains b0 b1 b2 b3 b4 b5 b6 b7 where "b = [b0, b1, b2, b3, b4, b5, b6, b7]"
  using assms by (auto simp: numeral_eq_Suc length_Suc_conv)

lemma length_4E:
  assumes "length b = 4"
  obtains b0 b1 b2 b3 where "b = [b0, b1, b2, b3]"
  using assms by (auto simp: numeral_eq_Suc length_Suc_conv)

interpretation hdr: record_codec HDR_SIZE hdr_bytes hdr_of_bytes wf_hdr
proof unfold_locales
  show "wf_hdr r \<Longrightarrow> hdr_of_bytes (hdr_bytes r) = r" for r
    by (cases r) (auto simp: hdr_defs field_def elim: length_4E)
  show "length bs = HDR_SIZE \<Longrightarrow> hdr_bytes (hdr_of_bytes bs) = bs" for bs
    by (auto simp: hdr_defs field_def elim: length_8E)
qed (auto simp: hdr_defs field_def)

lemma parse_header_eq:
  "zerocopy_ok zc \<Longrightarrow>
   parse_header zc buf =
     Ok (if length buf = 8 \<and> buf ! 0 = 0x03 then Some (hdr_of_bytes buf) else None)"
  by (auto simp: parse_header_def zerocopy_okD hdr_defs Let_def)

lemma parse_header_Some:
  assumes "zerocopy_ok zc"
  shows "parse_header zc buf = Ok (Some h) \<longleftrightarrow> hdr_bin_type h = MAGIC \<and> wf_hdr h \<and> buf = hdr_bytes h"
proof
  assume "parse_header zc buf = Ok (Some h)"
  with assms have "length buf = HDR_SIZE" "buf ! 0 = 0x03" "h = hdr_of_bytes buf"
    by (auto simp: parse_header_eq HDR_SIZE_def split: if_splits)
  with hdr.enc_dec [of buf] hdr.wf_dec [of buf] show "hdr_bin_type h = MAGIC \<and> wf_hdr h \<and> buf = hdr_bytes h"
    by (simp add: hdr_of_bytes_def MAGIC_def)
next
  assume h: "hdr_bin_type h = MAGIC \<and> wf_hdr h \<and> buf = hdr_bytes h"
  then have "length buf = 8" "buf ! 0 = 0x03"
    by (auto simp: hdr_bytes_def wf_hdr_def MAGIC_def)
  with h hdr.dec_enc [of h] assms show "parse_header zc buf = Ok (Some h)"
    by (simp add: parse_header_eq)
qed

lemma is_estimated_bit: "is_estimated h \<longleftrightarrow> bit (hdr_info h) 0"
  by (simp add: is_estimated_def INFO_ESTIMATED_def and_one_eq bit_0 even_iff_mod_2_eq_zero)

section \<open>Properties\<close>

text \<open>
  C18: A frame is taken for a message header exactly when it is the eight bytes of one with the
  magic first byte; parsing never fails, and the parsed header encodes back to the frame.
\<close>

theorem parse_header_exact:
  assumes "zerocopy_ok zc"
  shows "(parse_header zc buf = Ok (Some h) \<longleftrightarrow>
           hdr_bin_type h = MAGIC \<and> wf_hdr h \<and> buf = hdr_bytes h) \<and>
         (\<exists>r. parse_header zc buf = Ok r)"
  using assms by (simp add: parse_header_Some) (simp add: parse_header_eq)

theorem parse_header_exact_witness:
  "parse_header zc_layout [3, 2, 0, 0, 24, 0, 0, 0] =
     Ok (Some \<lparr>hdr_bin_type = 3, hdr_identifier = 2, hdr_info = 0, hdr_reserved = 0,
               hdr_len = [24, 0, 0, 0]\<rparr>)"
  using parse_header_exact [of zc_layout "[3, 2, 0, 0, 24, 0, 0, 0]"
      "\<lparr>hdr_bin_type = 3, hdr_identifier = 2, hdr_info = 0, hdr_reserved = 0, hdr_len = [24, 0, 0, 0]\<rparr>"]
  by (simp add: MAGIC_def wf_hdr_def hdr_bytes_def)

end
