(* ===== verification/Lox_Value.thy ===== *)
theory Lox_Value
  imports Lox_Tables
begin

text \<open>
  The type-2 table of value states (\<^verbatim>\<open>src/src/proto/value.rs\<close>): fixed records of a UUID and a
  double. \<open>walk_values\<close> calls back once per complete record.
\<close>

section \<open>The model\<close>

definition VALUE_RECORD_SIZE :: nat where "VALUE_RECORD_SIZE = 24"

record ValueRecord =
  vr_uuid :: LoxoneUuid
  vr_value :: bytes

definition value_record_of :: "bytes \<Rightarrow> ValueRecord" where
  "value_record_of bs = \<lparr>vr_uuid = field 0 16 bs, vr_value = field 16 8 bs\<rparr>"

definition walk_values :: "zerocopy \<Rightarrow> bytes \<Rightarrow> (LoxoneUuid \<Rightarrow> f64 \<Rightarrow> 's \<Rightarrow> 's) \<Rightarrow> 's \<Rightarrow> 's" where
  "walk_values zc payload f s =
     (let count = length payload div VALUE_RECORD_SIZE
      in case ref_from_prefix_with_elems zc VALUE_RECORD_SIZE payload count of
           None \<Rightarrow> s
         | Some (records, tail) \<Rightarrow>
             fold (\<lambda>record. f (vr_uuid record) (from_le_bytes (vr_value record)))
               (map value_record_of records) s)"

section \<open>The table as a list of records\<close>

definition wf_value_record :: "ValueRecord \<Rightarrow> bool" where
  "wf_value_record r \<longleftrightarrow> wf_uuid (vr_uuid r) \<and> length (vr_value r) = 8"

definition value_record_bytes :: "ValueRecord \<Rightarrow> bytes" where
  "value_record_bytes r = vr_uuid r @ vr_value r"

text \<open>A value event, and its record on the wire.\<close>

definition value_record :: "LoxoneUuid \<times> f64 \<Rightarrow> ValueRecord" where
  "value_record ev = \<lparr>vr_uuid = fst ev, vr_value = to_le_bytes 8 (snd ev)\<rparr>"

definition value_event :: "ValueRecord \<Rightarrow> LoxoneUuid \<times> f64" where
  "value_event r = (vr_uuid r, from_le_bytes (vr_value r))"

definition value_events :: "bytes \<Rightarrow> (LoxoneUuid \<times> f64) list" where
  "value_events payload =
     map (value_event \<circ> value_record_of)
       (chunks VALUE_RECORD_SIZE (length payload div VALUE_RECORD_SIZE) payload)"

definition encode_values :: "(LoxoneUuid \<times> f64) list \<Rightarrow> bytes" where
  "encode_values evs = concat (map (value_record_bytes \<circ> value_record) evs)"

lemmas value_defs = value_record_of_def value_record_bytes_def wf_value_record_def wf_uuid_def
  VALUE_RECORD_SIZE_def field_def

interpretation vr: record_codec VALUE_RECORD_SIZE value_record_bytes value_record_of wf_value_record
  by unfold_locales (auto simp: value_defs)

lemma walk_values_events:
  "zerocopy_ok zc \<Longrightarrow> walk_values zc payload f s = fold (\<lambda>(u, v). f u v) (value_events payload) s"
  by (simp add: walk_values_def value_events_def zerocopy_okD Let_def fold_map comp_def
      value_event_def)

lemma value_event_record [simp]: "value_event (value_record ev) = ev"
  by (cases ev) (simp add: value_event_def value_record_def)

lemma wf_value_record_record [simp]: "wf_value_record (value_record ev) \<longleftrightarrow> wf_uuid (fst ev)"
  by (simp add: wf_value_record_def value_record_def)

lemma value_events_encode:
  assumes "list_all (wf_uuid \<circ> fst) evs" and "length t < 24"
  shows "value_events (encode_values evs @ t) = evs"
proof -
  let ?rs = "map value_record evs"
  have wf: "list_all wf_value_record ?rs"
    using assms by (simp add: list_all_iff)
  have "map value_record_of (chunks VALUE_RECORD_SIZE (length ?rs)
      (concat (map value_record_bytes ?rs) @ t)) = ?rs"
    by (rule vr.dec_chunks_enc [OF wf])
  moreover have "length (concat (map value_record_bytes ?rs) @ t) div VALUE_RECORD_SIZE = length ?rs"
    using assms by (intro vr.count_enc wf) (simp add: VALUE_RECORD_SIZE_def)
  ultimately have "value_events (encode_values evs @ t) = map value_event ?rs"
    by (metis encode_values_def list.map_comp value_events_def)
  then show ?thesis
    by (simp add: comp_def)
qed

lemma length_value_events: "length (value_events payload) = length payload div 24"
  by (simp add: value_events_def VALUE_RECORD_SIZE_def)

lemma value_events_nth:
  assumes "i < length payload div 24"
  shows "value_events payload ! i =
           (field (24 * i) 16 payload, from_le_bytes (field (24 * i + 16) 8 payload))"
proof -
  have "c > i \<Longrightarrow> chunks 24 c bs ! i = take 24 (drop (24 * i) bs)" for c and bs :: bytes
  proof (induction c arbitrary: i bs)
    case (Suc c)
    then show ?case by (cases i) (auto simp: algebra_simps)
  qed simp
  with assms show ?thesis
    by (simp add: value_events_def value_defs value_event_def take_drop add.commute)
qed

lemma wf_value_events: "(u, v) \<in> set (value_events payload) \<Longrightarrow> wf_uuid u"
  using vr.enc_dec_chunks(2) [of "length payload div VALUE_RECORD_SIZE" payload]
  by (auto simp: value_events_def value_event_def list_all_iff wf_value_record_def)

section \<open>Properties\<close>

text \<open>
  Walking a value table calls back once per complete record, in order, with its UUID and its
  value, and ignores the bytes after the last complete record.
\<close>

theorem walk_values_records:
  assumes "zerocopy_ok zc"
  shows "walk_values zc payload f s =
     fold (\<lambda>i. f (field (24 * i) 16 payload) (from_le_bytes (field (24 * i + 16) 8 payload)))
       [0..<length payload div 24] s"
proof -
  have "value_events payload =
      map (\<lambda>i. (field (24 * i) 16 payload, from_le_bytes (field (24 * i + 16) 8 payload)))
        [0..<length payload div 24]"
    by (rule nth_equalityI) (simp_all add: length_value_events value_events_nth)
  then show ?thesis
    using assms by (simp add: walk_values_events fold_map comp_def)
qed

theorem walk_values_records_witness:
  "walk_values zc_layout
     [1, 1, 1, 1, 1, 1, 1, 1, 1, 1, 1, 1, 1, 1, 1, 2, 0, 0, 0, 0, 0, 0, 0x45, 0x40, 9]
     (\<lambda>u v s. s @ [(u, v)]) [] =
     [([1, 1, 1, 1, 1, 1, 1, 1, 1, 1, 1, 1, 1, 1, 1, 2], 0x4045000000000000)]"
  by (subst walk_values_records) (simp_all add: field_def)

text \<open>
  C19: A table encoded from any list of values is walked as exactly that list, whatever partial
  record follows.
\<close>

theorem walk_values_roundtrip:
  assumes "zerocopy_ok zc" and "list_all (wf_uuid \<circ> fst) evs" and "length t < VALUE_RECORD_SIZE"
  shows "walk_values zc (encode_values evs @ t) f s = fold (\<lambda>(u, v). f u v) evs s"
  using assms by (simp add: walk_values_events value_events_encode VALUE_RECORD_SIZE_def)

theorem walk_values_roundtrip_witness:
  "walk_values zc_layout (encode_values [(replicate 16 1, 7), (replicate 16 2, 9)] @ [5])
     (\<lambda>u v s. s @ [v]) [] = [7, 9]"
  by (subst walk_values_roundtrip) (simp_all add: wf_uuid_def VALUE_RECORD_SIZE_def)

end
