(* ===== verification/Lox_Text.thy ===== *)
theory Lox_Text
  imports Lox_Tables
begin

text \<open>
  The type-3 table of text states (\<^verbatim>\<open>src/src/proto/text.rs\<close>): records of two UUIDs, a length
  and a text, padded to a multiple of four bytes. The padding of the last record may be
  missing.
\<close>

section \<open>The model\<close>

definition TEXT_HEADER_SIZE :: nat where "TEXT_HEADER_SIZE = 36"

record RecordHeader =
  rh_uuid :: bytes
  rh_uuid_icon :: bytes
  rh_text_length :: bytes

definition record_header_of :: "bytes \<Rightarrow> RecordHeader" where
  "record_header_of bs =
     \<lparr>rh_uuid = field 0 16 bs, rh_uuid_icon = field 16 16 bs, rh_text_length = field 32 4 bs\<rparr>"

text \<open>\<^verbatim>\<open>(TEXT_HEADER_SIZE + text_len + 3) & !3\<close> on the 64-bit \<^verbatim>\<open>usize\<close>.\<close>

definition record_len :: "nat \<Rightarrow> nat" where
  "record_len text_len = unat ((word_of_nat (TEXT_HEADER_SIZE + text_len + 3) :: u64) AND NOT 3)"

lemma and_not_3: "unat ((w :: u64) AND NOT 3) = unat w div 4 * 4"
proof -
  have "w AND NOT 3 = push_bit 2 (drop_bit 2 w)"
  proof (rule bit_word_eqI)
    fix n
    assume "n < LENGTH(64)"
    have "bit (3 :: u64) n \<longleftrightarrow> n = 0 \<or> n = 1"
      using bit_mask_iff [of 2 n, where 'a = "64 word"] \<open>n < LENGTH(64)\<close>
      by (auto simp: mask_eq_exp_minus_1)
    moreover have "2 \<le> n \<Longrightarrow> Suc (Suc (n - 2)) = n"
      by simp
    ultimately show "bit (w AND NOT 3) n \<longleftrightarrow> bit (push_bit 2 (drop_bit 2 w)) n"
      using \<open>n < LENGTH(64)\<close> by (cases "2 \<le> n") (auto simp: bit_simps)
  qed
  moreover have "unat (push_bit 2 (drop_bit 2 w)) = unat w div 4 * 4"
  proof -
    have "unat w div 4 * 4 \<le> unat w"
      by (rule div_times_less_eq_dividend)
    also have "unat w < 2 ^ 64"
      using unsigned_less [of w] by simp
    finally show ?thesis
      by (simp add: push_bit_eq_mult drop_bit_eq_div unat_word_ariths unat_div_distrib)
  qed
  ultimately show ?thesis by simp
qed

lemma record_len_eq:
  assumes "n < 2 ^ 32"
  shows "record_len n = (n + 39) div 4 * 4"
proof -
  have "unat (word_of_nat (36 + n + 3) :: u64) = 36 + n + 3"
    using assms by (intro unat_word_of_nat) simp
  then show ?thesis
    unfolding record_len_def and_not_3 TEXT_HEADER_SIZE_def by (simp only: ac_simps) simp
qed

lemma text_length_less: "unat (from_le_bytes b :: u32) < 2 ^ 32"
  using unsigned_less [of "from_le_bytes b :: u32"] by simp

function walk_texts ::
  "zerocopy \<Rightarrow> bytes \<Rightarrow> (LoxoneUuid \<Rightarrow> LoxoneUuid \<Rightarrow> bytes \<Rightarrow> 's \<Rightarrow> 's) \<Rightarrow> 's \<Rightarrow> 's" where
  "walk_texts zc rest f s =
     (case ref_from_prefix zc TEXT_HEADER_SIZE rest of
        None \<Rightarrow> s
      | Some (hdr, after_header) \<Rightarrow>
          let header = record_header_of hdr;
              text_len = unat (from_le_bytes (rh_text_length header) :: u32)
          in case get_to text_len after_header of
               None \<Rightarrow> s
             | Some t \<Rightarrow>
                 let s = f (rh_uuid header) (rh_uuid_icon header) t s
                 in case get_from (record_len text_len) rest of
                      None \<Rightarrow> s
                    | Some nxt \<Rightarrow> walk_texts zc nxt f s)"
  by pat_completeness auto
termination
proof (relation "measure (\<lambda>(_, rest, _, _). length rest)", goal_cases)
  case (2 zc rest f s a hdr aft header text_len t s' nxt)
  then have "0 < record_len text_len"
    using text_length_less by (simp add: record_len_eq)
  with 2 show ?case
    by (auto simp: get_from_def split: if_splits)
qed simp

declare walk_texts.simps [simp del]

section \<open>The table as a list of records\<close>

type_synonym text_event = "LoxoneUuid \<times> LoxoneUuid \<times> bytes"

text \<open>One record off the front. A record whose padding is cut off ends the payload.\<close>

definition text_step :: "bytes \<Rightarrow> (text_event \<times> bytes) option" where
  "text_step p =
     (if length p < 36 then None
      else let n = unat (from_le_bytes (field 32 4 p) :: u32)
           in if length p < 36 + n then None
              else Some ((field 0 16 p, field 16 16 p, field 36 n p), drop ((n + 39) div 4 * 4) p))"

lemma text_step_shrinks: "text_step p = Some (e, r) \<Longrightarrow> length r < length p"
  by (auto simp: text_step_def Let_def split: if_splits)

function text_events :: "bytes \<Rightarrow> text_event list" where
  "text_events p = (case text_step p of None \<Rightarrow> [] | Some (e, r) \<Rightarrow> e # text_events r)"
  by pat_completeness auto
termination
  by (relation "measure length") (auto dest: text_step_shrinks)

declare text_events.simps [simp del]

text \<open>A record without and with its padding.\<close>

definition wf_text :: "text_event \<Rightarrow> bool" where
  "wf_text e = (case e of (u, i, t) \<Rightarrow> wf_uuid u \<and> wf_uuid i \<and> length t < 2 ^ 32)"

definition text_record :: "text_event \<Rightarrow> bytes" where
  "text_record e = (case e of (u, i, t) \<Rightarrow> u @ i @ to_le_bytes 4 (word_of_nat (length t) :: u32) @ t)"

definition text_record_padded :: "text_event \<Rightarrow> bytes" where
  "text_record_padded e =
     text_record e @ replicate ((4 - length (snd (snd e)) mod 4) mod 4) 0"

definition encode_texts :: "text_event list \<Rightarrow> bytes" where
  "encode_texts es = concat (map text_record_padded es)"

lemma text_step_record:
  assumes "wf_text e" and "length pad \<le> (4 - length (snd (snd e)) mod 4) mod 4"
    and "length pad < (4 - length (snd (snd e)) mod 4) mod 4 \<Longrightarrow> r = []"
  shows "text_step (text_record e @ pad @ r) = Some (e, r)"
proof -
  obtain u i t where e: "e = (u, i, t)" by (cases e)
  let ?n = "length t"
  have wf: "length u = 16" "length i = 16" "?n < 2 ^ 32"
    using assms(1) by (auto simp: e wf_text_def wf_uuid_def)
  then have n: "unat (word_of_nat ?n :: u32) = ?n"
    by (intro unat_word_of_nat) simp
  have pad: "(?n + 39) div 4 * 4 = 36 + ?n + (4 - ?n mod 4) mod 4"
    by (cases "?n mod 4 = 0") (simp; presburger)+
  have len: "length (text_record e) = 36 + ?n"
    using wf by (simp add: e text_record_def)
  have "drop (36 + ?n + (4 - ?n mod 4) mod 4) (text_record e @ pad @ r) = r"
  proof (cases "length pad = (4 - ?n mod 4) mod 4")
    case True
    then show ?thesis
      by (simp add: len flip: True)
  next
    case False
    with assms(2,3) have "r = []" "length pad \<le> (4 - ?n mod 4) mod 4"
      by (auto simp: e)
    then show ?thesis
      by (simp add: len)
  qed
  then have "drop ((?n + 39) div 4 * 4) (text_record e @ pad @ r) = r"
    by (simp only: pad)
  moreover have "field 32 4 (text_record e @ pad @ r) = to_le_bytes 4 (word_of_nat ?n :: u32)"
    "field 0 16 (text_record e @ pad @ r) = u" "field 16 16 (text_record e @ pad @ r) = i"
    "field 36 ?n (text_record e @ pad @ r) = t"
    using wf by (simp_all add: e text_record_def wire)
  ultimately show ?thesis
    unfolding text_step_def by (simp add: n len [unfolded e] e Let_def)
qed

lemma text_step_padded: "wf_text e \<Longrightarrow> text_step (text_record_padded e @ r) = Some (e, r)"
  unfolding text_record_padded_def append_assoc by (rule text_step_record) simp_all

lemma walk_texts_unfold:
  assumes "zerocopy_ok zc"
  shows "walk_texts zc p f s =
     (case text_step p of None \<Rightarrow> s | Some ((u, i, t), r) \<Rightarrow> walk_texts zc r f (f u i t s))"
proof -
  let ?n = "unat (from_le_bytes (field 32 4 p) :: u32)"
  have n: "record_len ?n = (?n + 39) div 4 * 4"
    by (rule record_len_eq [OF text_length_less])
  have stop: "walk_texts zc [] f s' = s'" for s'
    using assms by (subst walk_texts.simps) (simp add: zerocopy_okD TEXT_HEADER_SIZE_def)
  have fields: "rh_text_length (record_header_of (take 36 p)) = field 32 4 p"
    "rh_uuid (record_header_of (take 36 p)) = field 0 16 p"
    "rh_uuid_icon (record_header_of (take 36 p)) = field 16 16 p"
    by (simp_all add: record_header_of_def field_def take_drop)
  show ?thesis
    using assms
    by (subst walk_texts.simps)
      (auto simp: zerocopy_okD TEXT_HEADER_SIZE_def text_step_def Let_def fields get_to_def
        get_from_def n stop field_def [of 36])
qed

sublocale zerocopy_env \<subseteq> txt_walk: table_walker text_step
    "\<lambda>p f s. Some (walk_texts zc p (\<lambda>u i t. f (u, i, t)) s)" text_events text_record_padded wf_text
proof unfold_locales
  show "Some (walk_texts zc p (\<lambda>u i t. f (u, i, t)) s) =
      (case text_step p of None \<Rightarrow> Some s
       | Some (e, r) \<Rightarrow> Some (walk_texts zc r (\<lambda>u i t. f (u, i, t)) (f e s)))" for p f s
    by (subst walk_texts_unfold [OF zc_ok]) (simp split: option.split)
  show "text_events p = (case text_step p of None \<Rightarrow> [] | Some (e, r) \<Rightarrow> e # text_events r)" for p
    by (rule text_events.simps)
qed (auto simp: text_step_padded dest: text_step_shrinks)

context zerocopy_env
begin

lemma walk_texts_fold: "walk_texts zc p f s = fold (\<lambda>(u, i, t). f u i t) (text_events p) s"
  using txt_walk.walk_events [of p "\<lambda>(u, i, t). f u i t" s] by simp

end

lemmas walk_texts_events = zerocopy_env.walk_texts_fold [OF zerocopy_env.intro]

lemma text_events_encode: "list_all wf_text es \<Longrightarrow> text_events (encode_texts es @ t) = es @ text_events t"
  unfolding encode_texts_def by (rule layout.txt_walk.events_enc)

text \<open>The padding of the last record may be missing, in whole or in part.\<close>

lemma text_events_last:
  assumes "wf_text e" and "length pad \<le> (4 - length (snd (snd e)) mod 4) mod 4"
  shows "text_events (text_record e @ pad) = [e]"
proof -
  have "text_step (text_record e @ pad @ []) = Some (e, [])"
    by (rule text_step_record [OF assms]) simp
  moreover have "text_events [] = []"
    by (subst text_events.simps) (simp add: text_step_def)
  ultimately show ?thesis
    by (subst text_events.simps) simp
qed

text \<open>A record whose length runs past the payload ends the walk, and so does a short header.\<close>

lemma text_step_None:
  "text_step p = None \<longleftrightarrow>
     length p < 36 \<or> length p < 36 + unat (from_le_bytes (field 32 4 p) :: u32)"
  by (simp add: text_step_def Let_def)

lemma text_events_stop: "text_step p = None \<Longrightarrow> text_events p = []"
  by (rule layout.txt_walk.events_stop)

lemma wf_text_events: "e \<in> set (text_events p) \<Longrightarrow> wf_text e"
proof (induction p rule: text_events.induct)
  case (1 p)
  show ?case
  proof (cases "text_step p")
    case None
    with 1 show ?thesis by (simp add: text_events_stop)
  next
    case (Some er)
    obtain e' r where er: "er = (e', r)" by (cases er)
    with Some have "wf_text e'"
      using text_length_less [of "field 32 4 p"]
      by (auto simp: text_step_def wf_text_def wf_uuid_def Let_def field_def split: if_splits)
    moreover have "e = e' \<or> e \<in> set (text_events r)"
      using "1.prems" Some er by (subst (asm) text_events.simps) simp
    ultimately show ?thesis
      using "1.IH" [OF Some er [symmetric]] by auto
  qed
qed

section \<open>Properties\<close>

text \<open>
  C20: A text table encoded from any list of texts is walked as exactly that list, also when the
  padding of its last record is missing in whole or in part.
\<close>

theorem walk_texts_roundtrip:
  assumes "zerocopy_ok zc" and "list_all wf_text es" and "wf_text e"
    and "length pad \<le> (4 - length (snd (snd e)) mod 4) mod 4"
  shows "walk_texts zc (encode_texts es @ text_record e @ pad) f s =
           fold (\<lambda>(u, i, t). f u i t) (es @ [e]) s"
  using assms by (simp add: walk_texts_events text_events_encode text_events_last)

theorem walk_texts_roundtrip_witness:
  "walk_texts zc_layout
     (encode_texts [(replicate 16 1, replicate 16 2, [104, 105])] @
      text_record (replicate 16 3, replicate 16 4, [33]) @ [0])
     (\<lambda>u i t s. s @ [t]) [] = [[104, 105], [33]]"
  by (subst walk_texts_roundtrip) (simp_all add: wf_text_def wf_uuid_def)

text \<open>
  The walk stops without a call at the first record whose header is short or whose
  announced text runs past the payload; the records before it have been delivered.
\<close>

theorem walk_texts_stops:
  assumes "zerocopy_ok zc" and "list_all wf_text es"
    and "length bad < TEXT_HEADER_SIZE \<or>
         length bad < TEXT_HEADER_SIZE + unat (from_le_bytes (field 32 4 bad) :: u32)"
  shows "walk_texts zc (encode_texts es @ bad) f s = fold (\<lambda>(u, i, t). f u i t) es s"
proof -
  have "text_step bad = None"
    using assms(3) by (simp add: text_step_None TEXT_HEADER_SIZE_def)
  with assms show ?thesis
    by (simp add: walk_texts_events text_events_encode text_events_stop)
qed

theorem walk_texts_stops_witness:
  "walk_texts zc_layout
     (encode_texts [(replicate 16 1, replicate 16 2, [104, 105])] @ replicate 36 0xff)
     (\<lambda>u i t s. s @ [t]) [] = [[104, 105]]"
proof -
  have "replicate 4 (0xff :: u8) = [0xff, 0xff, 0xff, 0xff]"
    by (simp add: numeral_eq_Suc)
  then have "unat (from_le_bytes (field 32 4 (replicate 36 0xff)) :: u32) = 0xffffffff"
    by (simp add: field_def)
  then show ?thesis
    by (subst walk_texts_stops) (simp_all add: wf_text_def wf_uuid_def TEXT_HEADER_SIZE_def)
qed

end
