(* ===== verification/Lox_Daytimer.thy ===== *)
theory Lox_Daytimer
  imports Lox_Tables
begin

text \<open>
  The type-4 tables of daytimer states (\<^verbatim>\<open>src/src/proto/daytimer.rs\<close>): a header with a signed
  entry count and that many 24-byte entries. The entries keep their fields as little-endian
  byte arrays, which the accessors decode. Both walkers are loops that may in principle not
  end, so they return an option; that they do return is proved.
\<close>

section \<open>The model\<close>

record DaytimerEntry =
  de_mode :: bytes
  de_from_minutes :: bytes
  de_to_minutes :: bytes
  de_need_activate :: bytes
  de_value :: bytes

record DaytimerEvent =
  dte_uuid :: LoxoneUuid
  dte_default_value :: f64
  dte_entries :: "DaytimerEntry list"

definition DAYTIMER_ENTRY_SIZE :: nat where "DAYTIMER_ENTRY_SIZE = 24"

definition daytimer_new :: "i32 \<Rightarrow> i32 \<Rightarrow> i32 \<Rightarrow> i32 \<Rightarrow> f64 \<Rightarrow> DaytimerEntry" where
  "daytimer_new m from_m to_m need v =
     \<lparr>de_mode = to_le_bytes 4 m, de_from_minutes = to_le_bytes 4 from_m,
      de_to_minutes = to_le_bytes 4 to_m, de_need_activate = to_le_bytes 4 need,
      de_value = to_le_bytes 8 v\<rparr>"

definition mode :: "DaytimerEntry \<Rightarrow> i32" where "mode e = from_le_bytes (de_mode e)"
definition from_minutes :: "DaytimerEntry \<Rightarrow> i32" where "from_minutes e = from_le_bytes (de_from_minutes e)"
definition to_minutes :: "DaytimerEntry \<Rightarrow> i32" where "to_minutes e = from_le_bytes (de_to_minutes e)"
definition need_activate :: "DaytimerEntry \<Rightarrow> i32" where
  "need_activate e = from_le_bytes (de_need_activate e)"
definition daytimer_value :: "DaytimerEntry \<Rightarrow> f64" where "daytimer_value e = from_le_bytes (de_value e)"

text \<open>The \<^verbatim>\<open>repr(C)\<close> layout of an entry.\<close>

definition daytimer_entry_of :: "bytes \<Rightarrow> DaytimerEntry" where
  "daytimer_entry_of bs =
     \<lparr>de_mode = field 0 4 bs, de_from_minutes = field 4 4 bs, de_to_minutes = field 8 4 bs,
      de_need_activate = field 12 4 bs, de_value = field 16 8 bs\<rparr>"

definition daytimer_read_at :: "zerocopy \<Rightarrow> bytes \<Rightarrow> nat \<Rightarrow> DaytimerEntry option" where
  "daytimer_read_at zc buf offset =
     do {
       end \<leftarrow> checked_add_usize offset DAYTIMER_ENTRY_SIZE;
       slice \<leftarrow> get_range offset end buf;
       bs \<leftarrow> read_from_bytes zc DAYTIMER_ENTRY_SIZE slice;
       Some (daytimer_entry_of bs)
     }"

definition DAYTIMER_HEADER_SIZE :: nat where "DAYTIMER_HEADER_SIZE = 28"

record DaytimerTableHeader =
  dth_uuid :: bytes
  dth_default_value :: bytes
  dth_nr_entries :: bytes

definition daytimer_header_of :: "bytes \<Rightarrow> DaytimerTableHeader" where
  "daytimer_header_of bs =
     \<lparr>dth_uuid = field 0 16 bs, dth_default_value = field 16 8 bs, dth_nr_entries = field 24 4 bs\<rparr>"

definition daytimer_entries_of :: "zerocopy \<Rightarrow> bytes \<Rightarrow> DaytimerEntry list" where
  "daytimer_entries_of zc bs =
     (let count = length bs div DAYTIMER_ENTRY_SIZE
      in case ref_from_prefix_with_elems zc DAYTIMER_ENTRY_SIZE bs count of
           Some (entries, rest) \<Rightarrow> map daytimer_entry_of entries
         | None \<Rightarrow> [])"

definition daytimer_split_table ::
  "zerocopy \<Rightarrow> bytes \<Rightarrow> (DaytimerTableHeader \<times> bytes \<times> bytes) option" where
  "daytimer_split_table zc payload =
     do {
       (hdr, after_header) \<leftarrow> ref_from_prefix zc DAYTIMER_HEADER_SIZE payload;
       let header = daytimer_header_of hdr;
       count \<leftarrow> usize_try_from (from_le_bytes (dth_nr_entries header));
       entries_len \<leftarrow> checked_mul_usize count DAYTIMER_ENTRY_SIZE;
       entries \<leftarrow> get_to entries_len after_header;
       rest \<leftarrow> get_from entries_len after_header;
       Some (header, entries, rest)
     }"

partial_function (option) walk_daytimers ::
  "zerocopy \<Rightarrow> bytes \<Rightarrow> (DaytimerEvent \<Rightarrow> 's \<Rightarrow> 's) \<Rightarrow> 's \<Rightarrow> 's option" where
  "walk_daytimers zc rest f s =
     (case daytimer_split_table zc rest of
        None \<Rightarrow> Some s
      | Some (header, entry_bytes, tail) \<Rightarrow>
          walk_daytimers zc tail f
            (f \<lparr>dte_uuid = dth_uuid header,
                dte_default_value = from_le_bytes (dth_default_value header),
                dte_entries = daytimer_entries_of zc entry_bytes\<rparr> s))"

partial_function (option) walk_daytimer_raw ::
  "zerocopy \<Rightarrow> bytes \<Rightarrow> (LoxoneUuid \<Rightarrow> f64 \<Rightarrow> i32 \<Rightarrow> 's \<Rightarrow> 's) \<Rightarrow>
   (LoxoneUuid \<Rightarrow> DaytimerEntry \<Rightarrow> 's \<Rightarrow> 's) \<Rightarrow> 's \<Rightarrow> 's option" where
  "walk_daytimer_raw zc rest table_fn entry_fn s =
     (case daytimer_split_table zc rest of
        None \<Rightarrow> Some s
      | Some (header, entry_bytes, tail) \<Rightarrow>
          let uuid = dth_uuid header;
              s = table_fn uuid (from_le_bytes (dth_default_value header))
                    (from_le_bytes (dth_nr_entries header)) s
          in walk_daytimer_raw zc tail table_fn entry_fn
               (fold (entry_fn uuid) (daytimer_entries_of zc entry_bytes) s))"

declare walk_daytimers.simps [code] walk_daytimer_raw.simps [code]

section \<open>Entries\<close>

definition wf_daytimer_entry :: "DaytimerEntry \<Rightarrow> bool" where
  "wf_daytimer_entry e \<longleftrightarrow>
     length (de_mode e) = 4 \<and> length (de_from_minutes e) = 4 \<and> length (de_to_minutes e) = 4 \<and>
     length (de_need_activate e) = 4 \<and> length (de_value e) = 8"

definition daytimer_entry_bytes :: "DaytimerEntry \<Rightarrow> bytes" where
  "daytimer_entry_bytes e =
     de_mode e @ de_from_minutes e @ de_to_minutes e @ de_need_activate e @ de_value e"

lemmas daytimer_entry_defs = daytimer_entry_of_def daytimer_entry_bytes_def wf_daytimer_entry_def
  DAYTIMER_ENTRY_SIZE_def

lemmas daytimer_accessor_defs = mode_def from_minutes_def to_minutes_def need_activate_def
  daytimer_value_def

interpretation dt_entry: record_codec DAYTIMER_ENTRY_SIZE daytimer_entry_bytes daytimer_entry_of
    wf_daytimer_entry
proof unfold_locales
  show "length bs = DAYTIMER_ENTRY_SIZE \<Longrightarrow> daytimer_entry_bytes (daytimer_entry_of bs) = bs" for bs
    unfolding daytimer_entry_defs by (simp add: join_fields field_0_all)
qed (auto simp: daytimer_entry_defs wire length_field)

lemma daytimer_new_accessors:
  "mode (daytimer_new m a b n v) = m" "from_minutes (daytimer_new m a b n v) = a"
  "to_minutes (daytimer_new m a b n v) = b" "need_activate (daytimer_new m a b n v) = n"
  "daytimer_value (daytimer_new m a b n v) = v" "wf_daytimer_entry (daytimer_new m a b n v)"
  by (simp_all add: daytimer_new_def daytimer_accessor_defs wf_daytimer_entry_def)

lemma daytimer_new_surj:
  "wf_daytimer_entry e \<Longrightarrow>
   daytimer_new (mode e) (from_minutes e) (to_minutes e) (need_activate e) (daytimer_value e) = e"
  by (cases e) (simp add: daytimer_new_def daytimer_accessor_defs wf_daytimer_entry_def
      to_le_bytes_from_le_bytes)

lemma daytimer_read_at_eq:
  "zerocopy_ok zc \<Longrightarrow> daytimer_read_at zc buf off =
     (if off + 24 < 2 ^ 64 \<and> off + 24 \<le> length buf
      then Some (daytimer_entry_of (field off 24 buf)) else None)"
  by (simp add: daytimer_read_at_def checked_add_usize_def get_range_def zerocopy_okD
      DAYTIMER_ENTRY_SIZE_def field_def)

lemma daytimer_entries_of_eq:
  "zerocopy_ok zc \<Longrightarrow> daytimer_entries_of zc bs =
     map daytimer_entry_of (chunks DAYTIMER_ENTRY_SIZE (length bs div DAYTIMER_ENTRY_SIZE) bs)"
  by (simp add: daytimer_entries_of_def zerocopy_okD Let_def)

section \<open>The payload as a list of tables\<close>

definition daytimer_event_of :: "bytes \<Rightarrow> bytes \<Rightarrow> DaytimerEvent" where
  "daytimer_event_of h b =
     \<lparr>dte_uuid = field 0 16 h, dte_default_value = from_le_bytes (field 16 8 h),
      dte_entries = map daytimer_entry_of (chunks 24 (length b div 24) b)\<rparr>"

definition daytimer_step :: "bytes \<Rightarrow> (DaytimerEvent \<times> bytes) option" where
  "daytimer_step p =
     (case split_counted 28 24 24 p of
        None \<Rightarrow> None
      | Some (h, b, r) \<Rightarrow> Some (daytimer_event_of h b, r))"

lemma daytimer_step_shrinks: "daytimer_step p = Some (e, r) \<Longrightarrow> length r < length p"
  by (auto simp: daytimer_step_def dest: split_counted_shrinks split: option.splits)

function daytimer_events :: "bytes \<Rightarrow> DaytimerEvent list" where
  "daytimer_events p =
     (case daytimer_step p of None \<Rightarrow> [] | Some (e, r) \<Rightarrow> e # daytimer_events r)"
  by pat_completeness auto
termination
  by (relation "measure length") (auto dest: daytimer_step_shrinks)

declare daytimer_events.simps [simp del]

definition wf_daytimer :: "DaytimerEvent \<Rightarrow> bool" where
  "wf_daytimer e \<longleftrightarrow>
     wf_uuid (dte_uuid e) \<and> list_all wf_daytimer_entry (dte_entries e) \<and> length (dte_entries e) < 2 ^ 31"

definition daytimer_table_bytes :: "DaytimerEvent \<Rightarrow> bytes" where
  "daytimer_table_bytes e =
     (dte_uuid e @ to_le_bytes 8 (dte_default_value e) @
      to_le_bytes 4 (word_of_nat (length (dte_entries e)) :: i32)) @
     concat (map daytimer_entry_bytes (dte_entries e))"

lemma daytimer_split_table_eq:
  assumes "zerocopy_ok zc"
  shows "daytimer_split_table zc p =
     map_option (\<lambda>(h, b, r). (daytimer_header_of h, b, r)) (split_counted 28 24 24 p)"
proof (cases "length p < 28")
  case True
  with assms show ?thesis
    by (simp add: daytimer_split_table_def zerocopy_okD DAYTIMER_HEADER_SIZE_def split_counted_def)
next
  case False
  have "dth_nr_entries (daytimer_header_of (take 28 p)) = field 24 4 p"
    by (simp add: daytimer_header_of_def field_def take_drop)
  with False assms show ?thesis
    by (auto simp: daytimer_split_table_def zerocopy_okD DAYTIMER_HEADER_SIZE_def split_counted_def
        DAYTIMER_ENTRY_SIZE_def usize_try_from_def checked_mul_count Let_def get_to_def get_from_def
        field_def [of 28] add.commute)
qed

lemma daytimer_step_bytes: "wf_daytimer e \<Longrightarrow> daytimer_step (daytimer_table_bytes e @ r) = Some (e, r)"
proof -
  assume e: "wf_daytimer e"
  define h where "h = dte_uuid e @ to_le_bytes 8 (dte_default_value e) @
      to_le_bytes 4 (word_of_nat (length (dte_entries e)) :: i32)"
  define b where "b = concat (map daytimer_entry_bytes (dte_entries e))"
  have u: "length (dte_uuid e) = 16" and wf: "list_all wf_daytimer_entry (dte_entries e)"
    using e by (auto simp: wf_daytimer_def wf_uuid_def)
  have len: "length b = length (dte_entries e) * 24"
    using dt_entry.length_enc_all [OF wf] by (simp add: b_def DAYTIMER_ENTRY_SIZE_def)
  have "map daytimer_entry_of (chunks 24 (length (dte_entries e)) b) = dte_entries e"
    using dt_entry.dec_chunks_enc [OF wf, of "[]"] by (simp add: b_def DAYTIMER_ENTRY_SIZE_def)
  then have "daytimer_event_of h b = e"
    using u by (cases e) (simp add: daytimer_event_of_def len h_def wire)
  moreover have "split_counted 28 24 24 (h @ b @ r) = Some (h, b, r)"
    using e u len by (intro split_counted_append) (auto simp: h_def wf_daytimer_def wire)
  ultimately show ?thesis
    by (simp add: daytimer_step_def daytimer_table_bytes_def h_def b_def)
qed

lemma walk_daytimers_unfold:
  assumes "zerocopy_ok zc"
  shows "walk_daytimers zc p f s =
     (case daytimer_step p of None \<Rightarrow> Some s | Some (e, r) \<Rightarrow> walk_daytimers zc r f (f e s))"
  by (subst walk_daytimers.simps)
    (auto simp: daytimer_split_table_eq [OF assms] daytimer_step_def daytimer_event_of_def
      daytimer_header_of_def daytimer_entries_of_eq [OF assms] DAYTIMER_ENTRY_SIZE_def
      split: option.split)

sublocale zerocopy_env \<subseteq> dt_walk: table_walker daytimer_step "walk_daytimers zc" daytimer_events
    daytimer_table_bytes wf_daytimer
proof unfold_locales
  show "daytimer_events p = (case daytimer_step p of None \<Rightarrow> [] | Some (e, r) \<Rightarrow> e # daytimer_events r)"
    for p
    by (rule daytimer_events.simps)
qed (auto simp: walk_daytimers_unfold [OF zc_ok] daytimer_step_bytes dest: daytimer_step_shrinks)

context zerocopy_env
begin

lemma walk_daytimers_fold: "walk_daytimers zc p f s = Some (fold f (daytimer_events p) s)"
  by (rule dt_walk.walk_events)

text \<open>The raw walk makes the calls of the collecting one, table by table.\<close>

lemma walk_daytimer_raw_fold:
  "walk_daytimer_raw zc p table_fn entry_fn s =
     Some (fold (\<lambda>e s. fold (entry_fn (dte_uuid e)) (dte_entries e)
             (table_fn (dte_uuid e) (dte_default_value e) (word_of_nat (length (dte_entries e))) s))
           (daytimer_events p) s)"
proof (induction p arbitrary: s rule: daytimer_events.induct)
  case (1 p)
  show ?case
  proof (cases "split_counted 28 24 24 p")
    case None
    then show ?thesis
      by (subst walk_daytimer_raw.simps, subst daytimer_events.simps)
        (simp add: daytimer_split_table_eq [OF zc_ok] daytimer_step_def)
  next
    case (Some hbr)
    obtain h b r where hbr: "hbr = (h, b, r)" by (cases hbr)
    with Some have "split_counted 28 24 24 p = Some (h, b, r)" by simp
    then have n: "0 \<le> sint (from_le_bytes (field 24 4 h) :: i32)"
      "length b = nat (sint (from_le_bytes (field 24 4 h) :: i32)) * 24"
      by (auto dest: split_counted_parts)
    have step: "daytimer_step p = Some (daytimer_event_of h b, r)"
      by (simp add: daytimer_step_def Some hbr)
    have "length (dte_entries (daytimer_event_of h b)) = nat (sint (from_le_bytes (field 24 4 h) :: i32))"
      by (simp add: daytimer_event_of_def n)
    then have nr: "word_of_nat (length (dte_entries (daytimer_event_of h b))) =
        (from_le_bytes (field 24 4 h) :: i32)"
      using n by simp
    show ?thesis
      by (subst walk_daytimer_raw.simps, subst daytimer_events.simps)
        (simp add: daytimer_split_table_eq [OF zc_ok] Some hbr step nr "1.IH" [OF step refl]
          daytimer_header_of_def daytimer_entries_of_eq [OF zc_ok] Let_def,
         simp add: daytimer_event_of_def DAYTIMER_ENTRY_SIZE_def)
  qed
qed

end

lemmas walk_daytimers_events = zerocopy_env.walk_daytimers_fold [OF zerocopy_env.intro]
lemmas walk_daytimer_raw_events = zerocopy_env.walk_daytimer_raw_fold [OF zerocopy_env.intro]

lemma daytimer_events_encode:
  "list_all wf_daytimer es \<Longrightarrow>
   daytimer_events (concat (map daytimer_table_bytes es) @ t) = es @ daytimer_events t"
  by (rule layout.dt_walk.events_enc)

text \<open>Where a walk stops: a short header, a negative count, or entries past the payload.\<close>

lemma daytimer_step_None:
  "daytimer_step p = None \<longleftrightarrow>
     length p < 28 \<or> sint (from_le_bytes (field 24 4 p) :: i32) < 0 \<or>
     length p < 28 + nat (sint (from_le_bytes (field 24 4 p) :: i32)) * 24"
  by (auto simp: daytimer_step_def split_counted_def Let_def)

lemma daytimer_events_stop: "daytimer_step p = None \<Longrightarrow> daytimer_events p = []"
  by (rule layout.dt_walk.events_stop)

section \<open>Properties\<close>

text \<open>
  C21: Walking the daytimer tables of a payload always returns; tables encoded from any list of
  events are delivered as exactly that list, and the walk stops at what follows them when it
  has a short header, a negative entry count, or entries past the payload.
\<close>

theorem walk_daytimers_roundtrip:
  assumes "zerocopy_ok zc" and "list_all wf_daytimer es"
    and "length bad < DAYTIMER_HEADER_SIZE \<or> sint (from_le_bytes (field 24 4 bad) :: i32) < 0 \<or>
         length bad < DAYTIMER_HEADER_SIZE +
           nat (sint (from_le_bytes (field 24 4 bad) :: i32)) * DAYTIMER_ENTRY_SIZE"
  shows "walk_daytimers zc (concat (map daytimer_table_bytes es) @ bad) f s = Some (fold f es s)"
proof -
  have "daytimer_events bad = []"
    using assms(3) by (intro daytimer_events_stop)
      (simp add: daytimer_step_None DAYTIMER_HEADER_SIZE_def DAYTIMER_ENTRY_SIZE_def)
  with assms show ?thesis
    by (simp add: walk_daytimers_events daytimer_events_encode)
qed

theorem walk_daytimers_roundtrip_witness:
  "walk_daytimers zc_layout
     (concat (map daytimer_table_bytes
        [\<lparr>dte_uuid = replicate 16 1, dte_default_value = 5,
          dte_entries = [daytimer_new 1 480 510 1 7, daytimer_new 2 0 60 0 8]\<rparr>]) @ [1, 2, 3])
     (\<lambda>e s. s @ map from_minutes (dte_entries e)) [] = Some [480, 0]"
  by (subst walk_daytimers_roundtrip)
    (simp_all add: wf_daytimer_def wf_uuid_def daytimer_new_accessors DAYTIMER_HEADER_SIZE_def)

text \<open>
  The raw walk reports the same tables and entries as the collecting walk: per table one
  table call with the announced count, which is the number of entries, then one call per entry.
\<close>

theorem walk_daytimer_raw_equiv:
  assumes "zerocopy_ok zc"
  shows "walk_daytimer_raw zc payload table_fn entry_fn s =
     walk_daytimers zc payload
       (\<lambda>e s. fold (entry_fn (dte_uuid e)) (dte_entries e)
          (table_fn (dte_uuid e) (dte_default_value e) (word_of_nat (length (dte_entries e))) s)) s"
  using assms by (simp add: walk_daytimers_events walk_daytimer_raw_events)

theorem walk_daytimer_raw_equiv_witness:
  "walk_daytimer_raw zc_layout
     (daytimer_table_bytes \<lparr>dte_uuid = replicate 16 1, dte_default_value = 5,
        dte_entries = [daytimer_new 1 480 510 1 7, daytimer_new 2 0 60 0 8]\<rparr>)
     (\<lambda>u d n s. s @ [n]) (\<lambda>u e s. s @ [mode e]) [] = Some [2, 1, 2]"
proof -
  let ?e = "\<lparr>dte_uuid = replicate 16 1, dte_default_value = 5,
      dte_entries = [daytimer_new 1 480 510 1 7, daytimer_new 2 0 60 0 8]\<rparr>"
  have "daytimer_events (concat (map daytimer_table_bytes [?e]) @ []) = [?e] @ daytimer_events []"
    by (rule daytimer_events_encode) (simp add: wf_daytimer_def wf_uuid_def daytimer_new_accessors)
  moreover have "daytimer_events [] = []"
    by (rule daytimer_events_stop) (simp add: daytimer_step_None)
  ultimately show ?thesis
    by (subst walk_daytimer_raw_equiv) (simp_all add: walk_daytimers_events daytimer_new_accessors)
qed

text \<open>
  The accessors of a daytimer entry give back the values it was built from, every
  well-formed entry is built from its accessors, and reading the entry from a buffer at the
  offset of its wire bytes gives the entry.
\<close>

theorem daytimer_entry_roundtrip:
  assumes "zerocopy_ok zc" and "length pre + DAYTIMER_ENTRY_SIZE < 2 ^ 64"
  shows "daytimer_read_at zc (pre @ daytimer_entry_bytes (daytimer_new m a b n v) @ post) (length pre) =
           Some (daytimer_new m a b n v) \<and>
         mode (daytimer_new m a b n v) = m \<and> from_minutes (daytimer_new m a b n v) = a \<and>
         to_minutes (daytimer_new m a b n v) = b \<and> need_activate (daytimer_new m a b n v) = n \<and>
         daytimer_value (daytimer_new m a b n v) = v"
proof -
  let ?e = "daytimer_new m a b n v"
  have len: "length (daytimer_entry_bytes ?e) = 24"
    using dt_entry.enc_length [of ?e] by (simp add: daytimer_new_accessors DAYTIMER_ENTRY_SIZE_def)
  then have "field (length pre) 24 (pre @ daytimer_entry_bytes ?e @ post) = daytimer_entry_bytes ?e"
    by (simp add: wire)
  moreover have "daytimer_entry_of (daytimer_entry_bytes ?e) = ?e"
    by (rule dt_entry.dec_enc) (simp add: daytimer_new_accessors)
  ultimately show ?thesis
    using assms len by (simp add: daytimer_read_at_eq daytimer_new_accessors DAYTIMER_ENTRY_SIZE_def)
qed

theorem daytimer_entry_roundtrip_witness:
  "daytimer_read_at zc_layout ([0] @ daytimer_entry_bytes (daytimer_new 1 480 510 1 7) @ []) 1 =
     Some (daytimer_new 1 480 510 1 7)"
  using daytimer_entry_roundtrip [of zc_layout "[0]" 1 480 510 1 7 "[]"]
  by (simp add: DAYTIMER_ENTRY_SIZE_def)

end
