(* ===== verification/Lox_Weather.thy ===== *)
theory Lox_Weather
  imports Lox_Tables
begin

text \<open>
  The type-7 tables of weather states (\<^verbatim>\<open>src/src/proto/weather.rs\<close>): a header with the time of
  the last update and a signed entry count, and that many 68-byte entries without padding.
\<close>

section \<open>The model\<close>

record WeatherEntry =
  we_timestamp :: bytes
  we_weather_type :: bytes
  we_wind_direction :: bytes
  we_solar_radiation :: bytes
  we_relative_humidity :: bytes
  we_temperature :: bytes
  we_perceived_temperature :: bytes
  we_dew_point :: bytes
  we_precipitation :: bytes
  we_wind_speed :: bytes
  we_barometric_pressure :: bytes

record WeatherEvent =
  wev_uuid :: LoxoneUuid
  wev_last_update :: u32
  wev_entries :: "WeatherEntry list"

definition WEATHER_ENTRY_SIZE :: nat where "WEATHER_ENTRY_SIZE = 68"

definition weather_new ::
  "i32 \<Rightarrow> i32 \<Rightarrow> i32 \<Rightarrow> i32 \<Rightarrow> i32 \<Rightarrow> f64 \<Rightarrow> f64 \<Rightarrow> f64 \<Rightarrow> f64 \<Rightarrow> f64 \<Rightarrow> f64 \<Rightarrow> WeatherEntry" where
  "weather_new ts wt wd sr rh te pt dp pr ws bp =
     \<lparr>we_timestamp = to_le_bytes 4 ts,
      we_weather_type = to_le_bytes 4 wt,
      we_wind_direction = to_le_bytes 4 wd,
      we_solar_radiation = to_le_bytes 4 sr,
      we_relative_humidity = to_le_bytes 4 rh,
      we_temperature = to_le_bytes 8 te,
      we_perceived_temperature = to_le_bytes 8 pt,
      we_dew_point = to_le_bytes 8 dp,
      we_precipitation = to_le_bytes 8 pr,
      we_wind_speed = to_le_bytes 8 ws,
      we_barometric_pressure = to_le_bytes 8 bp\<rparr>"

definition timestamp :: "WeatherEntry \<Rightarrow> i32" where
  "timestamp e = from_le_bytes (we_timestamp e)"
definition weather_type :: "WeatherEntry \<Rightarrow> i32" where
  "weather_type e = from_le_bytes (we_weather_type e)"
definition wind_direction :: "WeatherEntry \<Rightarrow> i32" where
  "wind_direction e = from_le_bytes (we_wind_direction e)"
definition solar_radiation :: "WeatherEntry \<Rightarrow> i32" where
  "solar_radiation e = from_le_bytes (we_solar_radiation e)"
definition relative_humidity :: "WeatherEntry \<Rightarrow> i32" where
  "relative_humidity e = from_le_bytes (we_relative_humidity e)"
definition temperature :: "WeatherEntry \<Rightarrow> f64" where
  "temperature e = from_le_bytes (we_temperature e)"
definition perceived_temperature :: "WeatherEntry \<Rightarrow> f64" where
  "perceived_temperature e = from_le_bytes (we_perceived_temperature e)"
definition dew_point :: "WeatherEntry \<Rightarrow> f64" where
  "dew_point e = from_le_bytes (we_dew_point e)"
definition precipitation :: "WeatherEntry \<Rightarrow> f64" where
  "precipitation e = from_le_bytes (we_precipitation e)"
definition wind_speed :: "WeatherEntry \<Rightarrow> f64" where
  "wind_speed e = from_le_bytes (we_wind_speed e)"
definition barometric_pressure :: "WeatherEntry \<Rightarrow> f64" where
  "barometric_pressure e = from_le_bytes (we_barometric_pressure e)"

text \<open>The \<^verbatim>\<open>repr(C)\<close> layout of an entry.\<close>

definition weather_entry_of :: "bytes \<Rightarrow> WeatherEntry" where
  "weather_entry_of bs =
     \<lparr>we_timestamp = field 0 4 bs,
      we_weather_type = field 4 4 bs,
      we_wind_direction = field 8 4 bs,
      we_solar_radiation = field 12 4 bs,
      we_relative_humidity = field 16 4 bs,
      we_temperature = field 20 8 bs,
      we_perceived_temperature = field 28 8 bs,
      we_dew_point = field 36 8 bs,
      we_precipitation = field 44 8 bs,
      we_wind_speed = field 52 8 bs,
      we_barometric_pressure = field 60 8 bs\<rparr>"

definition weather_read_at :: "zerocopy \<Rightarrow> bytes \<Rightarrow> nat \<Rightarrow> WeatherEntry option" where
  "weather_read_at zc buf offset =
     do {
       end \<leftarrow> checked_add_usize offset WEATHER_ENTRY_SIZE;
       slice \<leftarrow> get_range offset end buf;
       bs \<leftarrow> read_from_bytes zc WEATHER_ENTRY_SIZE slice;
       Some (weather_entry_of bs)
     }"

definition WEATHER_HEADER_SIZE :: nat where "WEATHER_HEADER_SIZE = 24"

record WeatherTableHeader =
  wth_uuid :: bytes
  wth_last_update :: bytes
  wth_nr_entries :: bytes

definition weather_header_of :: "bytes \<Rightarrow> WeatherTableHeader" where
  "weather_header_of bs =
     \<lparr>wth_uuid = field 0 16 bs, wth_last_update = field 16 4 bs, wth_nr_entries = field 20 4 bs\<rparr>"

definition weather_entries_of :: "zerocopy \<Rightarrow> bytes \<Rightarrow> WeatherEntry list" where
  "weather_entries_of zc bs =
     (let count = length bs div WEATHER_ENTRY_SIZE
      in case ref_from_prefix_with_elems zc WEATHER_ENTRY_SIZE bs count of
           Some (entries, rest) \<Rightarrow> map weather_entry_of entries
         | None \<Rightarrow> [])"

definition weather_split_table ::
  "zerocopy \<Rightarrow> bytes \<Rightarrow> (WeatherTableHeader \<times> bytes \<times> bytes) option" where
  "weather_split_table zc payload =
     do {
       (hdr, after_header) \<leftarrow> ref_from_prefix zc WEATHER_HEADER_SIZE payload;
       let header = weather_header_of hdr;
       count \<leftarrow> usize_try_from (from_le_bytes (wth_nr_entries header));
       entries_len \<leftarrow> checked_mul_usize count WEATHER_ENTRY_SIZE;
       entries \<leftarrow> get_to entries_len after_header;
       rest \<leftarrow> get_from entries_len after_header;
       Some (header, entries, rest)
     }"

partial_function (option) walk_weather ::
  "zerocopy \<Rightarrow> bytes \<Rightarrow> (WeatherEvent \<Rightarrow> 's \<Rightarrow> 's) \<Rightarrow> 's \<Rightarrow> 's option" where
  "walk_weather zc rest f s =
     (case weather_split_table zc rest of
        None \<Rightarrow> Some s
      | Some (header, entry_bytes, tail) \<Rightarrow>
          walk_weather zc tail f
            (f \<lparr>wev_uuid = wth_uuid header,
                wev_last_update = from_le_bytes (wth_last_update header),
                wev_entries = weather_entries_of zc entry_bytes\<rparr> s))"

declare walk_weather.simps [code]

section \<open>Entries\<close>

definition wf_weather_entry :: "WeatherEntry \<Rightarrow> bool" where
  "wf_weather_entry e \<longleftrightarrow>
     length (we_timestamp e) = 4 \<and>
     length (we_weather_type e) = 4 \<and>
     length (we_wind_direction e) = 4 \<and>
     length (we_solar_radiation e) = 4 \<and>
     length (we_relative_humidity e) = 4 \<and>
     length (we_temperature e) = 8 \<and>
     length (we_perceived_temperature e) = 8 \<and>
     length (we_dew_point e) = 8 \<and>
     length (we_precipitation e) = 8 \<and>
     length (we_wind_speed e) = 8 \<and>
     length (we_barometric_pressure e) = 8"

definition weather_entry_bytes :: "WeatherEntry \<Rightarrow> bytes" where
  "weather_entry_bytes e =
     we_timestamp e @
     we_weather_type e @
     we_wind_direction e @
     we_solar_radiation e @
     we_relative_humidity e @
     we_temperature e @
     we_perceived_temperature e @
     we_dew_point e @
     we_precipitation e @
     we_wind_speed e @
     we_barometric_pressure e"

lemmas weather_entry_defs = weather_entry_of_def weather_entry_bytes_def wf_weather_entry_def
  WEATHER_ENTRY_SIZE_def

lemmas weather_accessor_defs = timestamp_def weather_type_def wind_direction_def solar_radiation_def relative_humidity_def temperature_def
  perceived_temperature_def dew_point_def precipitation_def wind_speed_def barometric_pressure_def

interpretation we_entry: record_codec WEATHER_ENTRY_SIZE weather_entry_bytes weather_entry_of
    wf_weather_entry
proof unfold_locales
  show "length bs = WEATHER_ENTRY_SIZE \<Longrightarrow> weather_entry_bytes (weather_entry_of bs) = bs" for bs
    unfolding weather_entry_defs by (simp add: join_fields field_0_all)
qed (auto simp: weather_entry_defs wire length_field)

lemma weather_new_accessors:
  "timestamp (weather_new ts wt wd sr rh te pt dp pr ws bp) = ts"
  "weather_type (weather_new ts wt wd sr rh te pt dp pr ws bp) = wt"
  "wind_direction (weather_new ts wt wd sr rh te pt dp pr ws bp) = wd"
  "solar_radiation (weather_new ts wt wd sr rh te pt dp pr ws bp) = sr"
  "relative_humidity (weather_new ts wt wd sr rh te pt dp pr ws bp) = rh"
  "temperature (weather_new ts wt wd sr rh te pt dp pr ws bp) = te"
  "perceived_temperature (weather_new ts wt wd sr rh te pt dp pr ws bp) = pt"
  "dew_point (weather_new ts wt wd sr rh te pt dp pr ws bp) = dp"
  "precipitation (weather_new ts wt wd sr rh te pt dp pr ws bp) = pr"
  "wind_speed (weather_new ts wt wd sr rh te pt dp pr ws bp) = ws"
  "barometric_pressure (weather_new ts wt wd sr rh te pt dp pr ws bp) = bp"
  "wf_weather_entry (weather_new ts wt wd sr rh te pt dp pr ws bp)"
  by (simp_all add: weather_new_def weather_accessor_defs wf_weather_entry_def)

lemma weather_new_surj:
  "wf_weather_entry e \<Longrightarrow>
   weather_new (timestamp e) (weather_type e) (wind_direction e) (solar_radiation e) (relative_humidity e)
     (temperature e) (perceived_temperature e) (dew_point e)
     (precipitation e) (wind_speed e) (barometric_pressure e) = e"
  by (cases e) (simp add: weather_new_def weather_accessor_defs wf_weather_entry_def
      to_le_bytes_from_le_bytes)

lemma weather_read_at_eq:
  "zerocopy_ok zc \<Longrightarrow> weather_read_at zc buf off =
     (if off + 68 < 2 ^ 64 \<and> off + 68 \<le> length buf
      then Some (weather_entry_of (field off 68 buf)) else None)"
  by (simp add: weather_read_at_def checked_add_usize_def get_range_def zerocopy_okD
      WEATHER_ENTRY_SIZE_def field_def)

lemma weather_entries_of_eq:
  "zerocopy_ok zc \<Longrightarrow> weather_entries_of zc bs =
     map weather_entry_of (chunks WEATHER_ENTRY_SIZE (length bs div WEATHER_ENTRY_SIZE) bs)"
  by (simp add: weather_entries_of_def zerocopy_okD Let_def)

section \<open>The payload as a list of tables\<close>

definition weather_event_of :: "bytes \<Rightarrow> bytes \<Rightarrow> WeatherEvent" where
  "weather_event_of h b =
     \<lparr>wev_uuid = field 0 16 h, wev_last_update = from_le_bytes (field 16 4 h),
      wev_entries = map weather_entry_of (chunks 68 (length b div 68) b)\<rparr>"

definition weather_step :: "bytes \<Rightarrow> (WeatherEvent \<times> bytes) option" where
  "weather_step p =
     (case split_counted 24 20 68 p of
        None \<Rightarrow> None
      | Some (h, b, r) \<Rightarrow> Some (weather_event_of h b, r))"

lemma weather_step_shrinks: "weather_step p = Some (e, r) \<Longrightarrow> length r < length p"
  by (auto simp: weather_step_def dest: split_counted_shrinks split: option.splits)

function weather_events :: "bytes \<Rightarrow> WeatherEvent list" where
  "weather_events p =
     (case weather_step p of None \<Rightarrow> [] | Some (e, r) \<Rightarrow> e # weather_events r)"
  by pat_completeness auto
termination
  by (relation "measure length") (auto dest: weather_step_shrinks)

declare weather_events.simps [simp del]

definition wf_weather :: "WeatherEvent \<Rightarrow> bool" where
  "wf_weather e \<longleftrightarrow>
     wf_uuid (wev_uuid e) \<and> list_all wf_weather_entry (wev_entries e) \<and> length (wev_entries e) < 2 ^ 31"

definition weather_table_bytes :: "WeatherEvent \<Rightarrow> bytes" where
  "weather_table_bytes e =
     (wev_uuid e @ to_le_bytes 4 (wev_last_update e) @
      to_le_bytes 4 (word_of_nat (length (wev_entries e)) :: i32)) @
     concat (map weather_entry_bytes (wev_entries e))"

lemma weather_split_table_eq:
  assumes "zerocopy_ok zc"
  shows "weather_split_table zc p =
     map_option (\<lambda>(h, b, r). (weather_header_of h, b, r)) (split_counted 24 20 68 p)"
proof (cases "length p < 24")
  case True
  with assms show ?thesis
    by (simp add: weather_split_table_def zerocopy_okD WEATHER_HEADER_SIZE_def split_counted_def)
next
  case False
  have "wth_nr_entries (weather_header_of (take 24 p)) = field 20 4 p"
    by (simp add: weather_header_of_def field_def take_drop)
  with False assms show ?thesis
    by (auto simp: weather_split_table_def zerocopy_okD WEATHER_HEADER_SIZE_def split_counted_def
        WEATHER_ENTRY_SIZE_def usize_try_from_def checked_mul_count Let_def get_to_def get_from_def
        field_def [of 24] add.commute)
qed

lemma weather_step_bytes: "wf_weather e \<Longrightarrow> weather_step (weather_table_bytes e @ r) = Some (e, r)"
proof -
  assume e: "wf_weather e"
  define h where "h = wev_uuid e @ to_le_bytes 4 (wev_last_update e) @
      to_le_bytes 4 (word_of_nat (length (wev_entries e)) :: i32)"
  define b where "b = concat (map weather_entry_bytes (wev_entries e))"
  have u: "length (wev_uuid e) = 16" and wf: "list_all wf_weather_entry (wev_entries e)"
    using e by (auto simp: wf_weather_def wf_uuid_def)
  have len: "length b = length (wev_entries e) * 68"
    using we_entry.length_enc_all [OF wf] by (simp add: b_def WEATHER_ENTRY_SIZE_def)
  have "map weather_entry_of (chunks 68 (length (wev_entries e)) b) = wev_entries e"
    using we_entry.dec_chunks_enc [OF wf, of "[]"] by (simp add: b_def WEATHER_ENTRY_SIZE_def)
  then have "weather_event_of h b = e"
    using u by (cases e) (simp add: weather_event_of_def len h_def wire)
  moreover have "split_counted 24 20 68 (h @ b @ r) = Some (h, b, r)"
    using e u len by (intro split_counted_append) (auto simp: h_def wf_weather_def wire)
  ultimately show ?thesis
    by (simp add: weather_step_def weather_table_bytes_def h_def b_def)
qed

lemma walk_weather_unfold:
  assumes "zerocopy_ok zc"
  shows "walk_weather zc p f s =
     (case weather_step p of None \<Rightarrow> Some s | Some (e, r) \<Rightarrow> walk_weather zc r f (f e s))"
  by (subst walk_weather.simps)
    (auto simp: weather_split_table_eq [OF assms] weather_step_def weather_event_of_def
      weather_header_of_def weather_entries_of_eq [OF assms] WEATHER_ENTRY_SIZE_def
      split: option.split)

sublocale zerocopy_env \<subseteq> we_walk: table_walker weather_step "walk_weather zc" weather_events
    weather_table_bytes wf_weather
proof unfold_locales
  show "weather_events p = (case weather_step p of None \<Rightarrow> [] | Some (e, r) \<Rightarrow> e # weather_events r)"
    for p
    by (rule weather_events.simps)
qed (auto simp: walk_weather_unfold [OF zc_ok] weather_step_bytes dest: weather_step_shrinks)

context zerocopy_env
begin

lemma walk_weather_fold: "walk_weather zc p f s = Some (fold f (weather_events p) s)"
  by (rule we_walk.walk_events)

end

lemmas walk_weather_events = zerocopy_env.walk_weather_fold [OF zerocopy_env.intro]

lemma weather_events_encode:
  "list_all wf_weather es \<Longrightarrow>
   weather_events (concat (map weather_table_bytes es) @ t) = es @ weather_events t"
  by (rule layout.we_walk.events_enc)

text \<open>Where a walk stops: a short header, a negative count, or entries past the payload.\<close>

lemma weather_step_None:
  "weather_step p = None \<longleftrightarrow>
     length p < 24 \<or> sint (from_le_bytes (field 20 4 p) :: i32) < 0 \<or>
     length p < 24 + nat (sint (from_le_bytes (field 20 4 p) :: i32)) * 68"
  by (auto simp: weather_step_def split_counted_def Let_def)

lemma weather_events_stop: "weather_step p = None \<Longrightarrow> weather_events p = []"
  by (rule layout.we_walk.events_stop)

section \<open>Properties\<close>

text \<open>
  C22: Walking the weather tables of a payload always returns; tables encoded from any list of
  events are delivered as exactly that list, and the walk stops at what follows them when it
  has a short header, a negative entry count, or entries past the payload.
\<close>

theorem walk_weather_roundtrip:
  assumes "zerocopy_ok zc" and "list_all wf_weather es"
    and "length bad < WEATHER_HEADER_SIZE \<or> sint (from_le_bytes (field 20 4 bad) :: i32) < 0 \<or>
         length bad < WEATHER_HEADER_SIZE +
           nat (sint (from_le_bytes (field 20 4 bad) :: i32)) * WEATHER_ENTRY_SIZE"
  shows "walk_weather zc (concat (map weather_table_bytes es) @ bad) f s = Some (fold f es s)"
proof -
  have "weather_events bad = []"
    using assms(3) by (intro weather_events_stop)
      (simp add: weather_step_None WEATHER_HEADER_SIZE_def WEATHER_ENTRY_SIZE_def)
  with assms show ?thesis
    by (simp add: walk_weather_events weather_events_encode)
qed

theorem walk_weather_roundtrip_witness:
  "walk_weather zc_layout
     (concat (map weather_table_bytes
        [\<lparr>wev_uuid = replicate 16 1, wev_last_update = 5,
          wev_entries = [weather_new 1000 2 180 500 70 1 2 3 4 5 6]\<rparr>]) @ [1, 2, 3])
     (\<lambda>e s. s @ map wind_direction (wev_entries e)) [] = Some [180]"
  by (subst walk_weather_roundtrip)
    (simp_all add: wf_weather_def wf_uuid_def weather_new_accessors WEATHER_HEADER_SIZE_def)

end
