(* ===== verification/Lox_Collect.thy ===== *)
theory Lox_Collect
  imports Lox_Value Lox_Text
begin

text \<open>
  Owned snapshots of an event table (\<^verbatim>\<open>src/src/collect.rs\<close>): the multiply-rotate hasher and the
  four collectors, which insert every record of a table into a map. A \<^verbatim>\<open>HashMap\<close> is a map;
  \<^verbatim>\<open>Bytes\<close> is its content.
\<close>

section \<open>The hasher\<close>

record LoxHasher =
  hash_state :: u64

definition hasher_default :: LoxHasher where
  "hasher_default = \<lparr>hash_state = 0\<rparr>"

definition SEED :: u64 where
  "SEED = 0x517cc1b727220a95"

definition hasher_add :: "LoxHasher \<Rightarrow> u64 \<Rightarrow> LoxHasher" where
  "hasher_add h word = h\<lparr>hash_state := (word_rotl 5 (hash_state h) XOR word) * SEED\<rparr>"

text \<open>\<^verbatim>\<open>as_chunks::<8>\<close>: the complete chunks, and what is left.\<close>

definition as_chunks :: "nat \<Rightarrow> bytes \<Rightarrow> bytes list \<times> bytes" where
  "as_chunks n bs = (let c = length bs div n in (chunks n c bs, drop (n * c) bs))"

definition hasher_write :: "bool \<Rightarrow> LoxHasher \<Rightarrow> bytes \<Rightarrow> LoxHasher" where
  "hasher_write little h bs =
     (let (cs, rest) = as_chunks 8 bs;
          h = fold (\<lambda>chunk h. hasher_add h (from_ne_bytes little chunk)) cs h
      in if rest \<noteq> []
         then hasher_add h (from_ne_bytes little (rest @ replicate (8 - length rest) 0))
         else h)"

definition hasher_write_u8 :: "LoxHasher \<Rightarrow> u8 \<Rightarrow> LoxHasher" where
  "hasher_write_u8 h n = hasher_add h (ucast n)"

definition hasher_write_u64 :: "LoxHasher \<Rightarrow> u64 \<Rightarrow> LoxHasher" where
  "hasher_write_u64 h n = hasher_add h n"

definition hasher_write_usize :: "LoxHasher \<Rightarrow> u64 \<Rightarrow> LoxHasher" where
  "hasher_write_usize h n = hasher_add h n"

definition hasher_finish :: "LoxHasher \<Rightarrow> u64" where
  "hasher_finish h = hash_state h"

section \<open>The collectors\<close>

definition own_text :: "bytes \<Rightarrow> bytes" where
  "own_text text = (if text = [] then [] else text)"

definition text_capacity :: "bytes \<Rightarrow> nat" where
  "text_capacity payload = length payload div TEXT_HEADER_SIZE"

definition value_capacity :: "bytes \<Rightarrow> nat" where
  "value_capacity payload = length payload div VALUE_RECORD_SIZE"

definition collect_values :: "zerocopy \<Rightarrow> bytes \<Rightarrow> (LoxoneUuid \<rightharpoonup> f64)" where
  "collect_values zc payload = walk_values zc payload (\<lambda>uuid value m. m(uuid \<mapsto> value)) Map.empty"

definition collect_texts :: "zerocopy \<Rightarrow> bytes \<Rightarrow> (LoxoneUuid \<rightharpoonup> bytes)" where
  "collect_texts zc payload =
     walk_texts zc payload (\<lambda>uuid icon text m. m(uuid \<mapsto> own_text text)) Map.empty"

definition collect_values_by_name :: "zerocopy \<Rightarrow> bytes \<Rightarrow> (LoxoneUuidStr \<rightharpoonup> f64)" where
  "collect_values_by_name zc payload =
     walk_values zc payload (\<lambda>uuid value m. m(format_loxone_key uuid \<mapsto> value)) Map.empty"

definition collect_texts_by_name :: "zerocopy \<Rightarrow> bytes \<Rightarrow> (LoxoneUuidStr \<rightharpoonup> bytes)" where
  "collect_texts_by_name zc payload =
     walk_texts zc payload (\<lambda>uuid icon text m. m(format_loxone_key uuid \<mapsto> own_text text)) Map.empty"

section \<open>Lemmas\<close>

lemma own_text_id [simp]: "own_text t = t"
  by (simp add: own_text_def)

text \<open>Inserting in order is the map of the reversed list: the last record wins.\<close>

lemma fold_map_upd: "fold (\<lambda>e m. m(k e \<mapsto> v e)) es m = m ++ map_of (rev (map (\<lambda>e. (k e, v e)) es))"
  by (induction es arbitrary: m) (auto simp: map_add_def split: option.split)

lemma collect_values_map_of:
  "zerocopy_ok zc \<Longrightarrow> collect_values zc p = map_of (rev (value_events p))"
  using fold_map_upd [of fst snd "value_events p" Map.empty]
  by (simp add: collect_values_def walk_values_events case_prod_unfold)

lemma collect_texts_map_of:
  "zerocopy_ok zc \<Longrightarrow> collect_texts zc p = map_of (rev (map (\<lambda>(u, i, t). (u, t)) (text_events p)))"
  using fold_map_upd [of fst "\<lambda>e. snd (snd e)" "text_events p" Map.empty]
  by (simp add: collect_texts_def walk_texts_events case_prod_unfold)

lemma format_loxone_key_inject:
  assumes "wf_uuid u" "wf_uuid v"
  shows "format_loxone_key u = format_loxone_key v \<longleftrightarrow> u = v"
proof -
  have "reference_format u = reference_format v \<longleftrightarrow> u = v"
    using assms by (metis parse_reference_format sum.inject(2))
  then show ?thesis
    by (simp add: format_loxone_key_def format_loxone_bytes_eq assms)
qed

text \<open>Renaming keys injectively commutes with collecting.\<close>

lemma fold_map_upd_rename:
  assumes "\<And>e e'. e \<in> insert x (set es) \<Longrightarrow> e' \<in> insert x (set es) \<Longrightarrow> r (k e) = r (k e') \<longleftrightarrow> k e = k e'"
    and "(m' (r (k x)) :: 'v option) = m (k x)"
  shows "fold (\<lambda>e m. m(r (k e) \<mapsto> v e)) es m' (r (k x)) = fold (\<lambda>e m. m(k e \<mapsto> v e)) es m (k x)"
  using assms
proof (induction es arbitrary: m m')
  case (Cons e es)
  show ?case
    unfolding fold_simps
  proof (rule Cons.IH)
    show "(m'(r (k e) \<mapsto> v e)) (r (k x)) = (m(k e \<mapsto> v e)) (k x)"
      using Cons.prems by auto
  qed (use Cons.prems in auto)
qed simp

lemma collect_values_by_name_eq:
  assumes "zerocopy_ok zc" and "wf_uuid u"
  shows "collect_values_by_name zc p (format_loxone_key u) = collect_values zc p u"
proof -
  have "fold (\<lambda>e m. m(format_loxone_key (fst e) \<mapsto> snd e)) (value_events p) Map.empty
          (format_loxone_key (fst (u, 0 :: f64))) =
        fold (\<lambda>e m. m(fst e \<mapsto> snd e)) (value_events p) Map.empty (fst (u, 0 :: f64))"
    using assms(2) by (intro fold_map_upd_rename) (auto simp: format_loxone_key_inject dest!: wf_value_events)
  then show ?thesis
    using assms(1) by (simp add: collect_values_def collect_values_by_name_def walk_values_events
        case_prod_unfold)
qed

lemma collect_texts_by_name_eq:
  assumes "zerocopy_ok zc" and "wf_uuid u"
  shows "collect_texts_by_name zc p (format_loxone_key u) = collect_texts zc p u"
proof -
  have "fold (\<lambda>e m. m(format_loxone_key (fst e) \<mapsto> snd (snd e))) (text_events p) Map.empty
          (format_loxone_key (fst (u, u, [] :: bytes))) =
        fold (\<lambda>e m. m(fst e \<mapsto> snd (snd e))) (text_events p) Map.empty (fst (u, u, [] :: bytes))"
    using assms(2)
    by (intro fold_map_upd_rename) (auto simp: format_loxone_key_inject wf_text_def dest!: wf_text_events)
  then show ?thesis
    using assms(1) by (simp add: collect_texts_def collect_texts_by_name_def walk_texts_events
        case_prod_unfold)
qed

text \<open>Adding a word loses nothing: the seed is odd, so the step has an inverse in the word.\<close>

definition SEED_INV :: u64 where
  "SEED_INV = 0x2040003d780970bd"

lemma seed_inverse: "SEED * SEED_INV = 1"
  by (simp add: SEED_def SEED_INV_def)

lemma hasher_add_inject:
  "hasher_add h w = hasher_add h w' \<longleftrightarrow> w = w'"
proof
  assume "hasher_add h w = hasher_add h w'"
  then have "(word_rotl 5 (hash_state h) XOR w) * SEED = (word_rotl 5 (hash_state h) XOR w') * SEED"
    by (simp add: hasher_add_def) (metis LoxHasher.select_convs(1) LoxHasher.update_convs(1) LoxHasher.surjective)
  then have "(word_rotl 5 (hash_state h) XOR w) * (SEED * SEED_INV) =
      (word_rotl 5 (hash_state h) XOR w') * (SEED * SEED_INV)"
    by (simp only: mult.assoc [symmetric])
  then have "word_rotl 5 (hash_state h) XOR (word_rotl 5 (hash_state h) XOR w) =
      word_rotl 5 (hash_state h) XOR (word_rotl 5 (hash_state h) XOR w')"
    by (simp add: seed_inverse)
  then show "w = w'"
    by (simp add: xor.assoc [symmetric])
qed simp

section \<open>Properties\<close>

text \<open>
  C23: Collecting a value or a text table maps every UUID of the table to what its last record
  says, and nothing else.
\<close>

theorem collect_last_wins:
  assumes "zerocopy_ok zc"
  shows "collect_values zc p = map_of (rev (value_events p)) \<and>
         collect_texts zc p = map_of (rev (map (\<lambda>(u, i, t). (u, t)) (text_events p)))"
  using assms by (simp add: collect_values_map_of collect_texts_map_of)

theorem collect_last_wins_witness:
  "collect_values zc_layout (encode_values [(replicate 16 1, 7), (replicate 16 2, 8), (replicate 16 1, 9)])
     (replicate 16 1) = Some 9"
proof -
  have "value_events (encode_values [(replicate 16 1, 7), (replicate 16 2, 8), (replicate 16 1, 9)] @ []) =
      [(replicate 16 1, 7), (replicate 16 2, 8), (replicate 16 1, 9)]"
    by (rule value_events_encode) (simp_all add: wf_uuid_def)
  then show ?thesis
    using collect_last_wins [of zc_layout] by simp
qed

text \<open>
  The snapshots keyed by the string form agree with those keyed by the bytes: looking up
  the string key of a UUID gives what looking up the UUID gives.
\<close>

theorem collect_by_name_agrees:
  assumes "zerocopy_ok zc" and "wf_uuid u"
  shows "collect_values_by_name zc p (format_loxone_key u) = collect_values zc p u \<and>
         collect_texts_by_name zc p (format_loxone_key u) = collect_texts zc p u"
  using assms by (simp add: collect_values_by_name_eq collect_texts_by_name_eq)

theorem collect_by_name_agrees_witness:
  "collect_values_by_name zc_layout (replicate 24 0) (format_loxone_key (replicate 16 0)) =
     collect_values zc_layout (replicate 24 0) (replicate 16 0)"
  using collect_by_name_agrees [of zc_layout "replicate 16 0" "replicate 24 0"]
  by (simp add: wf_uuid_def)

end
