(* ===== verification/Lox_Scan.thy ===== *)
theory Lox_Scan
  imports Lox_Strings
begin

text \<open>
  The cheap \<^verbatim>\<open>LL.control\<close> scan of \<^verbatim>\<open>src/src/client/pending.rs\<close>: the eight-bytes-at-a-time search
  for one of two bytes, the search for the key, and the extraction of the value. The word
  arithmetic is modelled on 64-bit words and proved to find what a byte-at-a-time search
  finds.
\<close>

section \<open>The model\<close>

definition CONTROL_KEY_SCAN_LIMIT :: nat where "CONTROL_KEY_SCAN_LIMIT = 512"
definition CONTROL_VALUE_LIMIT :: nat where "CONTROL_VALUE_LIMIT = 8 * 1024"

definition word_at :: "bytes \<Rightarrow> u64" where
  "word_at chunk = from_le_bytes chunk"

definition ONES :: u64 where "ONES = 0x0101010101010101"

definition repeat_byte :: "u8 \<Rightarrow> u64" where
  "repeat_byte byte = ucast byte * ONES"

definition zero_byte_mask :: "u64 \<Rightarrow> u64" where
  "zero_byte_mask word = (word - ONES) AND NOT word AND 0x8080808080808080"

text \<open>\<^verbatim>\<open>u64::trailing_zeros\<close> and \<^verbatim>\<open>Iterator::position\<close>.\<close>

definition trailing_zeros :: "u64 \<Rightarrow> nat" where
  "trailing_zeros w = length (takeWhile (\<lambda>i. \<not> bit w i) [0..<64])"

primrec position :: "('a \<Rightarrow> bool) \<Rightarrow> 'a list \<Rightarrow> nat option" where
  "position P [] = None"
| "position P (x # xs) = (if P x then Some 0 else map_option Suc (position P xs))"

fun find_either_loop :: "u8 \<Rightarrow> u8 \<Rightarrow> bytes list \<Rightarrow> bytes \<Rightarrow> nat \<Rightarrow> nat option" where
  "find_either_loop a b [] remainder offset =
     map_option (\<lambda>i. offset + i) (position (\<lambda>x. x = a \<or> x = b) remainder)"
| "find_either_loop a b (chunk # cs) remainder offset =
     (let word = from_le_bytes chunk :: u64;
          mask = zero_byte_mask (word XOR repeat_byte a) OR zero_byte_mask (word XOR repeat_byte b)
      in if mask \<noteq> 0 then Some (offset + trailing_zeros mask div 8)
         else find_either_loop a b cs remainder (offset + 8))"

text \<open>\<^verbatim>\<open>as_chunks::<8>\<close>.\<close>

primrec chunks8 :: "nat \<Rightarrow> bytes \<Rightarrow> bytes list" where
  "chunks8 0 bs = []"
| "chunks8 (Suc c) bs = take 8 bs # chunks8 c (drop 8 bs)"

definition find_either :: "bytes \<Rightarrow> u8 \<Rightarrow> u8 \<Rightarrow> nat option" where
  "find_either haystack a b =
     (let c = length haystack div 8
      in find_either_loop a b (chunks8 c haystack) (drop (8 * c) haystack) 0)"

definition find_byte :: "bytes \<Rightarrow> u8 \<Rightarrow> nat option" where
  "find_byte haystack needle = find_either haystack needle needle"

definition CONTROL_KEY :: bytes where
  "CONTROL_KEY = as_bytes (CHR 0x22 # ''control'' @ [CHR 0x22])"

definition quote :: u8 where "quote = 0x22"
definition backslash :: u8 where "backslash = 0x5C"
definition colon :: u8 where "colon = 0x3A"

function find_control_key_loop :: "bytes \<Rightarrow> nat \<Rightarrow> nat \<Rightarrow> nat option" where
  "find_control_key_loop window last_at from_at =
     (if from_at \<le> last_at then
        case find_byte (drop from_at window) quote of
          None \<Rightarrow> None
        | Some i \<Rightarrow>
            let at = from_at + i
            in if at > last_at then None
               else if word_at (take 8 (drop at window)) = word_at (take 8 CONTROL_KEY) \<and>
                       window ! (at + 8) = quote
                 then Some at
               else find_control_key_loop window last_at (at + 1)
      else None)"
  by pat_completeness auto
termination
  by (relation "measure (\<lambda>(_, last_at, from_at). Suc last_at - from_at)") auto

declare find_control_key_loop.simps [simp del]

definition find_control_key :: "bytes \<Rightarrow> nat option" where
  "find_control_key window =
     (if length window < length CONTROL_KEY then None
      else find_control_key_loop window (length window - length CONTROL_KEY) 0)"

definition is_ascii_whitespace :: "u8 \<Rightarrow> bool" where
  "is_ascii_whitespace b \<longleftrightarrow> b \<in> {0x20, 0x09, 0x0A, 0x0C, 0x0D}"

definition extract_ll_control :: "bytes \<Rightarrow> string option" where
  "extract_ll_control payload =
     do {
       let key_window = take (min (length payload) CONTROL_KEY_SCAN_LIMIT) payload;
       key_at \<leftarrow> find_control_key key_window;
       let after_key = drop (key_at + length CONTROL_KEY) payload;
       c \<leftarrow> find_byte after_key colon;
       let after_colon = drop (c + 1) after_key;
       q \<leftarrow> position (\<lambda>b. \<not> is_ascii_whitespace b) after_colon;
       if after_colon ! q \<noteq> quote then None
       else do {
         let rest = drop (q + 1) after_colon;
         let val = take (min (length rest) CONTROL_VALUE_LIMIT) rest;
         e \<leftarrow> find_either val quote backslash;
         if val ! e \<noteq> quote then None
         else from_utf8 (take e val)
       }
     }"

section \<open>First positions\<close>

lemma position_Some:
  "position P xs = Some i \<longleftrightarrow> i < length xs \<and> P (xs ! i) \<and> (\<forall>j<i. \<not> P (xs ! j))"
proof (induction xs arbitrary: i)
  case (Cons x xs)
  then show ?case
    by (cases i) (auto simp: less_Suc_eq_0_disj)
qed simp

lemma position_None: "position P xs = None \<longleftrightarrow> (\<forall>x\<in>set xs. \<not> P x)"
  by (induction xs) auto

lemma position_append:
  "position P (xs @ ys) =
     (case position P xs of Some i \<Rightarrow> Some i | None \<Rightarrow> map_option (\<lambda>i. length xs + i) (position P ys))"
  by (induction xs; cases "position P ys") (auto split: option.splits)

lemma position_split:
  "position P xs = Some i \<longleftrightarrow>
     (\<exists>a x b. xs = a @ x # b \<and> length a = i \<and> P x \<and> (\<forall>y\<in>set a. \<not> P y))"
proof
  assume "position P xs = Some i"
  then show "\<exists>a x b. xs = a @ x # b \<and> length a = i \<and> P x \<and> (\<forall>y\<in>set a. \<not> P y)"
    by (intro exI [of _ "take i xs"] exI [of _ "xs ! i"] exI [of _ "drop (Suc i) xs"])
      (auto simp: position_Some id_take_nth_drop [symmetric] in_set_conv_nth)
next
  assume "\<exists>a x b. xs = a @ x # b \<and> length a = i \<and> P x \<and> (\<forall>y\<in>set a. \<not> P y)"
  then show "position P xs = Some i"
    by (auto simp: position_append position_None [symmetric])
qed

section \<open>Bytes of integers\<close>

lemma bit_byte_cons:
  fixes x y :: int
  assumes "0 \<le> x" "x < 256"
  shows "bit (x + 256 * y) n \<longleftrightarrow> (if n < 8 then bit x n else bit y (n - 8))"
proof -
  have t: "take_bit 8 (x + 256 * y) = take_bit 8 x" and d: "drop_bit 8 (x + 256 * y) = y"
    using assms by (simp_all add: take_bit_eq_mod drop_bit_eq_div)
  show ?thesis
  proof (cases "n < 8")
    case True
    then show ?thesis
      using arg_cong [OF t, of "\<lambda>z. bit z n"] by (simp add: bit_take_bit_iff)
  next
    case False
    then obtain k where k: "n = 8 + k"
      by (metis le_Suc_ex not_less)
    have "bit (x + 256 * y) (8 + k) = bit (drop_bit 8 (x + 256 * y)) k"
      by (simp only: bit_drop_bit_eq comp_apply)
    then show ?thesis
      unfolding k d by simp
  qed
qed

lemma and_byte_cons:
  fixes x y :: int
  assumes "0 \<le> x" "x < 256" "0 \<le> x'" "x' < 256"
  shows "(x + 256 * y) AND (x' + 256 * y') = (x AND x') + 256 * (y AND y')"
proof (rule bit_eqI)
  fix n
  have "0 \<le> x AND x'" "x AND x' < 256"
    using assms AND_upper1 [of x x'] by (simp, linarith)
  with assms show "bit ((x + 256 * y) AND (x' + 256 * y')) n = bit ((x AND x') + 256 * (y AND y')) n"
    by (simp add: bit_byte_cons bit_and_iff)
qed

text \<open>The value of a little-endian byte list, and the two constants of the mask at any width.\<close>

primrec le_int :: "bytes \<Rightarrow> int" where
  "le_int [] = 0"
| "le_int (b # bs) = uint b + 256 * le_int bs"

primrec ones_int :: "nat \<Rightarrow> int" where
  "ones_int 0 = 0"
| "ones_int (Suc n) = 1 + 256 * ones_int n"

definition mask_int :: "bytes \<Rightarrow> int" where
  "mask_int bs =
     ((le_int bs - ones_int (length bs)) AND NOT (le_int bs)) AND (128 * ones_int (length bs))"

lemma uint_byte_bounds: "0 \<le> uint (b :: u8)" "uint (b :: u8) < 256"
  using uint_lt2p [of b] by simp_all

lemma not_byte_cons: "NOT (uint (b :: u8) + 256 * y) = (255 - uint b) + 256 * NOT y"
  by (simp add: not_int_def)

lemma bit_128: "bit (128 :: int) n \<longleftrightarrow> n = 7"
proof -
  have "bit ((2 :: int) ^ 7) n \<longleftrightarrow> n = 7"
    by (simp only: bit_exp_iff) auto
  then show ?thesis by simp
qed

lemma byte_step_nonzero:
  fixes b :: u8
  assumes "b \<noteq> 0"
  shows "((uint b - 1) AND (255 - uint b)) AND 128 = 0"
proof -
  have "uint b \<noteq> 0"
    using assms by (simp add: uint_0_iff)
  then have u: "1 \<le> uint b" "uint b < 256"
    using uint_byte_bounds [of b] by linarith+
  have "\<not> (bit (uint b - 1) 7 \<and> bit (255 - uint b) 7)"
  proof (cases "uint b < 128")
    case True
    with u have "(uint b - 1) div 2 ^ 7 = 0"
      by (intro div_pos_pos_trivial) simp_all
    then show ?thesis by (simp add: bit_iff_odd)
  next
    case False
    with u have "(255 - uint b) div 2 ^ 7 = 0"
      by (intro div_pos_pos_trivial) simp_all
    then show ?thesis by (simp add: bit_iff_odd)
  qed
  then show ?thesis
    by (intro bit_eqI) (auto simp: bit_and_iff bit_128)
qed

lemma mask_int_Cons:
  "mask_int (b # bs) =
     (((uint b - 1) + 256 * (le_int bs - ones_int (length bs))) AND
      ((255 - uint b) + 256 * NOT (le_int bs))) AND
     (128 + 256 * (128 * ones_int (length bs)))"
proof -
  have "le_int (b # bs) - ones_int (length (b # bs)) =
      (uint b - 1) + 256 * (le_int bs - ones_int (length bs))"
    "128 * ones_int (length (b # bs)) = 128 + 256 * (128 * ones_int (length bs))"
    by simp_all
  then show ?thesis
    by (simp only: mask_int_def le_int.simps not_byte_cons)
qed

lemma mask_int_Cons_zero: "\<exists>y. mask_int (0 # bs) = 128 + 256 * y"
proof -
  let ?n = "length bs"
  have "(uint (0 :: u8) - 1) + 256 * (le_int bs - ones_int ?n) = 255 + 256 * (le_int bs - ones_int ?n - 1)"
    by simp
  moreover have "(255 + 256 * x) AND (255 - uint (0 :: u8) + 256 * y) = 255 + 256 * (x AND y)" for x y
    using and_byte_cons [of 255 255 x y] by simp
  moreover have "(255 + 256 * x) AND (128 + 256 * y) = 128 + 256 * (x AND y)" for x y :: int
    using and_byte_cons [of 255 128 x y] by simp
  ultimately show ?thesis
    by (simp only: mask_int_Cons) blast
qed

lemma mask_int_Cons_nonzero: "b \<noteq> 0 \<Longrightarrow> mask_int (b # bs) = 256 * mask_int bs"
proof -
  assume b: "b \<noteq> 0"
  let ?n = "length bs" and ?m = "(uint b - 1) AND (255 - uint b)"
  have u: "1 \<le> uint b" "uint b < 256"
    using b uint_byte_bounds [of b] uint_0_iff [of b] by linarith+
  have m: "0 \<le> ?m" "?m < 256"
    using u AND_upper1 [of "uint b - 1" "255 - uint b"] by (simp, linarith)
  have "mask_int (b # bs) = (?m + 256 * ((le_int bs - ones_int ?n) AND NOT (le_int bs))) AND
      (128 + 256 * (128 * ones_int ?n))"
    unfolding mask_int_Cons using u by (subst and_byte_cons) simp_all
  also have "\<dots> = (?m AND 128) + 256 * mask_int bs"
    using m unfolding mask_int_def by (intro and_byte_cons) simp_all
  finally show ?thesis
    by (simp add: byte_step_nonzero [OF b])
qed

text \<open>The lowest bit of the mask is the high bit of the first zero byte.\<close>

definition lowest_bit :: "int \<Rightarrow> nat \<Rightarrow> bool" where
  "lowest_bit m n \<longleftrightarrow> bit m n \<and> (\<forall>k<n. \<not> bit m k)"

lemma mask_int_position:
  "case position (\<lambda>x. x = 0) bs of
     None \<Rightarrow> mask_int bs = 0
   | Some i \<Rightarrow> lowest_bit (mask_int bs) (8 * i + 7)"
proof (induction bs)
  case Nil
  then show ?case by (simp add: mask_int_def)
next
  case (Cons b bs)
  show ?case
  proof (cases "b = 0")
    case True
    obtain y where "mask_int (b # bs) = 128 + 256 * y"
      using mask_int_Cons_zero True by blast
    then show ?thesis
      by (simp add: True lowest_bit_def bit_byte_cons bit_128)
  next
    case False
    then have m: "mask_int (b # bs) = 0 + 256 * mask_int bs"
      by (simp add: mask_int_Cons_nonzero)
    show ?thesis
    proof (cases "position (\<lambda>x. x = 0) bs")
      case None
      with Cons False m show ?thesis by simp
    next
      case (Some i)
      with Cons have "lowest_bit (mask_int bs) (8 * i + 7)" by simp
      moreover have "bit (mask_int (b # bs)) n \<longleftrightarrow> 8 \<le> n \<and> bit (mask_int bs) (n - 8)" for n
        unfolding m by (subst bit_byte_cons) auto
      ultimately have "lowest_bit (mask_int (b # bs)) (8 * Suc i + 7)"
        unfolding lowest_bit_def by (auto simp: add.commute)
      with False Some show ?thesis by simp
    qed
  qed
qed

section \<open>From integers to words\<close>

lemma bit_le_int: "bit (le_int bs) i \<longleftrightarrow> i < 8 * length bs \<and> bit (bs ! (i div 8)) (i mod 8)"
proof (induction bs arbitrary: i)
  case (Cons b bs)
  show ?case
  proof (cases "i < 8")
    case True
    then show ?thesis
      by (simp add: bit_byte_cons uint_byte_bounds bit_uint_iff)
  next
    case False
    then obtain j where "i = j + 8"
      by (metis add.commute le_Suc_ex not_less)
    moreover have "(j + 8) div 8 = Suc (j div 8)"
      by simp
    ultimately show ?thesis
      by (simp add: bit_byte_cons uint_byte_bounds Cons.IH)
  qed
qed simp

lemma uint_from_le_bytes: "length bs = 8 \<Longrightarrow> uint (from_le_bytes bs :: u64) = le_int bs"
  by (rule bit_eqI) (auto simp: bit_uint_iff bit_from_le_bytes bit_le_int)

lemma ones_int_8: "ones_int 8 = uint ONES" "128 * ones_int 8 = uint (0x8080808080808080 :: u64)"
proof -
  have "ones_int 8 = 0x0101010101010101"
    by (simp add: numeral_eq_Suc)
  then show "ones_int 8 = uint ONES" "128 * ones_int 8 = uint (0x8080808080808080 :: u64)"
    by (simp_all add: ONES_def)
qed

lemma uint_zero_byte_mask:
  assumes "length bs = 8"
  shows "uint (zero_byte_mask (from_le_bytes bs)) = mask_int bs"
proof (rule bit_eqI)
  fix n
  define high :: u64 where "high = 0x8080808080808080"
  let ?w = "from_le_bytes bs :: u64"
  have "bit (uint (?w - ONES)) n \<longleftrightarrow> n < 64 \<and> bit (uint ?w - uint ONES) n"
    by (simp only: uint_word_arith_bintrs(2) bit_take_bit_iff) simp
  then have "n < 64 \<Longrightarrow> bit (?w - ONES) n \<longleftrightarrow> bit (uint ?w - uint ONES) n"
    by (simp add: bit_uint_iff)
  then show "bit (uint (zero_byte_mask ?w)) n \<longleftrightarrow> bit (mask_int bs) n"
    unfolding mask_int_def assms ones_int_8(2) high_def [symmetric]
    unfolding ones_int_8(1) uint_from_le_bytes [OF assms, symmetric] zero_byte_mask_def
      high_def [symmetric]
    by (auto simp: bit_uint_iff bit_and_iff bit_not_iff)
qed

lemma zero_byte_mask_position:
  assumes "length bs = 8"
  shows "case position (\<lambda>x. x = 0) bs of
           None \<Rightarrow> zero_byte_mask (from_le_bytes bs) = 0
         | Some i \<Rightarrow> bit (zero_byte_mask (from_le_bytes bs)) (8 * i + 7) \<and>
             (\<forall>k<8 * i + 7. \<not> bit (zero_byte_mask (from_le_bytes bs)) k)"
proof (cases "position (\<lambda>x. x = 0) bs")
  case None
  then have "uint (zero_byte_mask (from_le_bytes bs)) = 0"
    using mask_int_position [of bs] by (simp add: uint_zero_byte_mask assms)
  with None show ?thesis
    by (simp add: uint_0_iff)
next
  case (Some i)
  then have "i < 8"
    using assms by (simp add: position_Some)
  moreover have "lowest_bit (uint (zero_byte_mask (from_le_bytes bs))) (8 * i + 7)"
    using mask_int_position [of bs] Some by (simp add: uint_zero_byte_mask assms)
  ultimately show ?thesis
    using Some by (auto simp: lowest_bit_def bit_uint_iff)
qed

lemma uint_ucast_byte: "uint (ucast (a :: u8) :: u64) = uint a"
  by (rule bit_eqI) (auto simp: bit_uint_iff bit_ucast_iff dest: bit_imp_le_length)

lemma repeat_byte_eq: "repeat_byte a = from_le_bytes (replicate 8 a)"
proof -
  have "le_int (replicate n a) = uint a * ones_int n" for n
    by (induction n) (simp_all add: algebra_simps)
  then have "uint (from_le_bytes (replicate 8 a) :: u64) = uint a * uint ONES"
    by (simp add: uint_from_le_bytes ones_int_8)
  moreover have "uint a * uint ONES < 2 ^ 64"
  proof -
    have "uint a * uint ONES \<le> 255 * uint ONES"
      using uint_byte_bounds [of a] by (intro mult_right_mono) simp_all
    then show ?thesis
      by (simp add: ONES_def)
  qed
  ultimately have "uint (from_le_bytes (replicate 8 a) :: u64) = uint (ucast a * ONES :: u64)"
    by (simp add: uint_word_ariths uint_ucast_byte)
  then show ?thesis
    by (simp only: repeat_byte_def word_uint_eq_iff)
qed

lemma xor_repeat_byte:
  "length bs = 8 \<Longrightarrow> (from_le_bytes bs :: u64) XOR repeat_byte a = from_le_bytes (map (\<lambda>x. x XOR a) bs)"
  unfolding repeat_byte_eq by (rule bit_word_eqI) (auto simp: bit_xor_iff bit_from_le_bytes)

lemma position_xor: "position (\<lambda>x. x = 0) (map (\<lambda>x. x XOR a) bs) = position (\<lambda>x. x = a) bs"
  for a :: u8
proof (induction bs)
  case (Cons b bs)
  have "b XOR a = 0 \<longleftrightarrow> b = a"
  proof
    assume "b XOR a = 0"
    then have "(b XOR a) XOR a = 0 XOR a" by simp
    then show "b = a" by (simp add: xor.assoc)
  qed simp
  with Cons show ?case by simp
qed simp

lemma trailing_zeros_lowest:
  assumes "bit w n" "\<forall>k<n. \<not> bit w k"
  shows "trailing_zeros w = n"
proof -
  have "n < 64"
    using bit_imp_le_length [OF assms(1)] by simp
  then have "[0..<64] = [0..<n] @ n # [Suc n..<64]"
    by (metis less_imp_le_nat upt_add_eq_append upt_conv_Cons le0 le_add_diff_inverse)
  then have "takeWhile (\<lambda>i. \<not> bit w i) [0..<64] = [0..<n]"
    using assms by (simp add: takeWhile_append)
  then show ?thesis
    by (simp add: trailing_zeros_def)
qed

text \<open>The first position of either byte is the smaller of the two first positions.\<close>

lemma position_either:
  "position (\<lambda>x. P x \<or> Q x) xs =
     (case position P xs of None \<Rightarrow> position Q xs
      | Some i \<Rightarrow> (case position Q xs of None \<Rightarrow> Some i | Some j \<Rightarrow> Some (min i j)))"
  by (induction xs) (auto split: option.splits)

lemma either_mask:
  fixes a b :: u8
  assumes len: "length bs = 8"
    and m: "m = zero_byte_mask ((from_le_bytes bs :: u64) XOR repeat_byte a) OR
      zero_byte_mask ((from_le_bytes bs :: u64) XOR repeat_byte b)"
  shows "(case position (\<lambda>x. x = a \<or> x = b) bs of
            None \<Rightarrow> m = 0 | Some i \<Rightarrow> m \<noteq> 0 \<and> trailing_zeros m div 8 = i)"
proof -
  have z: "case position (\<lambda>x. x = a) bs of
           None \<Rightarrow> zero_byte_mask (from_le_bytes bs XOR repeat_byte a) = 0
         | Some i \<Rightarrow> bit (zero_byte_mask (from_le_bytes bs XOR repeat_byte a)) (8 * i + 7) \<and>
             (\<forall>k<8 * i + 7. \<not> bit (zero_byte_mask (from_le_bytes bs XOR repeat_byte a)) k)" for a
    using zero_byte_mask_position [of "map (\<lambda>x. x XOR a) bs"] len
    unfolding position_xor xor_repeat_byte [OF len] by simp
  have low: "m \<noteq> 0 \<and> trailing_zeros m div 8 = i"
    if "bit m (8 * i + 7)" "\<forall>k<8 * i + 7. \<not> bit m k" for i
    using trailing_zeros_lowest [OF that] that(1) by auto
  show ?thesis
  proof (cases "position (\<lambda>x. x = a) bs")
    case a: None
    with z [of a] have m': "m = zero_byte_mask (from_le_bytes bs XOR repeat_byte b)"
      by (simp add: m)
    show ?thesis
    proof (cases "position (\<lambda>x. x = b) bs")
      case None
      with a z [of b] show ?thesis
        by (simp add: position_either m')
    next
      case (Some j)
      with z [of b] have "m \<noteq> 0 \<and> trailing_zeros m div 8 = j"
        by (intro low) (simp_all add: m')
      with a Some show ?thesis
        by (simp add: position_either)
    qed
  next
    case a: (Some i)
    show ?thesis
    proof (cases "position (\<lambda>x. x = b) bs")
      case None
      with z [of b] have m': "m = zero_byte_mask (from_le_bytes bs XOR repeat_byte a)"
        by (simp add: m)
      with a z [of a] have "m \<noteq> 0 \<and> trailing_zeros m div 8 = i"
        by (intro low) (simp_all add: m')
      with a None show ?thesis
        by (simp add: position_either)
    next
      case b: (Some j)
      have "bit m (8 * min i j + 7)"
        using a b z [of a] z [of b] by (simp add: m bit_or_iff min_def)
      moreover have "\<not> bit m k" if "k < 8 * min i j + 7" for k
      proof -
        from that have "k < 8 * i + 7" "k < 8 * j + 7" by simp_all
        with a b z [of a] z [of b] show ?thesis
          by (simp add: m bit_or_iff)
      qed
      ultimately have "m \<noteq> 0 \<and> trailing_zeros m div 8 = min i j"
        by (intro low) simp_all
      with a b show ?thesis
        by (simp add: position_either)
    qed
  qed
qed

section \<open>The searches\<close>

lemma length_chunks8: "8 * c \<le> length bs \<Longrightarrow> x \<in> set (chunks8 c bs) \<Longrightarrow> length x = 8"
proof (induction c arbitrary: bs)
  case (Suc c)
  then show ?case
    using Suc.IH [of "drop 8 bs"] by auto
qed simp

lemma concat_chunks8: "8 * c \<le> length bs \<Longrightarrow> concat (chunks8 c bs) = take (8 * c) bs"
  by (induction c arbitrary: bs) (auto simp: take_add)

lemma find_either_loop_eq:
  "(\<And>c. c \<in> set cs \<Longrightarrow> length c = 8) \<Longrightarrow>
   find_either_loop a b cs rest off =
     map_option (\<lambda>i. off + i) (position (\<lambda>x. x = a \<or> x = b) (concat cs @ rest))"
proof (induction a b cs rest off rule: find_either_loop.induct)
  case (2 a b c cs rest off)
  have c: "length c = 8"
    using 2 by simp
  let ?m = "zero_byte_mask ((from_le_bytes c :: u64) XOR repeat_byte a) OR
      zero_byte_mask ((from_le_bytes c :: u64) XOR repeat_byte b)"
  show ?case
  proof (cases "position (\<lambda>x. x = a \<or> x = b) c")
    case None
    then have m: "?m = 0"
      using either_mask [OF c refl, of a b] by simp
    have "find_either_loop a b cs rest (off + 8) =
        map_option (\<lambda>i. off + 8 + i) (position (\<lambda>x. x = a \<or> x = b) (concat cs @ rest))"
      using "2.IH" [of "from_le_bytes c" ?m] "2.prems" m by simp
    with None m c show ?thesis
      by (simp add: position_append Let_def option.map_comp comp_def add.assoc)
  next
    case (Some i)
    then have "?m \<noteq> 0" "trailing_zeros ?m div 8 = i"
      using either_mask [OF c refl, of a b] by simp_all
    with Some show ?thesis
      by (simp add: position_append Let_def)
  qed
qed simp

lemma find_either_position: "find_either hay a b = position (\<lambda>x. x = a \<or> x = b) hay"
proof -
  let ?c = "length hay div 8"
  have le: "8 * ?c \<le> length hay"
    by simp
  have "find_either hay a b = map_option (\<lambda>i. 0 + i)
      (position (\<lambda>x. x = a \<or> x = b) (concat (chunks8 ?c hay) @ drop (8 * ?c) hay))"
    unfolding find_either_def Let_def by (rule find_either_loop_eq) (rule length_chunks8 [OF le])
  also have "concat (chunks8 ?c hay) @ drop (8 * ?c) hay = hay"
    by (simp only: concat_chunks8 [OF le] append_take_drop_id)
  finally show ?thesis
    by (simp only: add_0 option.map_ident)
qed

lemma find_byte_position: "find_byte hay a = position (\<lambda>x. x = a) hay"
  by (simp add: find_byte_def find_either_position)

text \<open>The key search: jumping from quote to quote misses no occurrence.\<close>

definition key_at :: "bytes \<Rightarrow> nat \<Rightarrow> bool" where
  "key_at window i \<longleftrightarrow> take (length CONTROL_KEY) (drop i window) = CONTROL_KEY"

lemma length_CONTROL_KEY [simp]: "length CONTROL_KEY = 9"
  by (simp add: CONTROL_KEY_def)

lemma CONTROL_KEY_ends: "CONTROL_KEY ! 0 = quote" "CONTROL_KEY ! 8 = quote"
  by (simp_all add: CONTROL_KEY_def as_bytes_def quote_def char_byte_def)

lemma key_at_test:
  assumes "i + 9 \<le> length window"
  shows "word_at (take 8 (drop i window)) = word_at (take 8 CONTROL_KEY) \<and> window ! (i + 8) = quote \<longleftrightarrow>
           key_at window i"
proof -
  have w: "take 9 (drop i window) = take 8 (drop i window) @ [window ! (i + 8)]"
    using assms take_Suc_conv_app_nth [of 8 "drop i window"] by simp
  have k: "CONTROL_KEY = take 8 CONTROL_KEY @ [quote]"
    using take_Suc_conv_app_nth [of 8 CONTROL_KEY] by (simp add: CONTROL_KEY_ends)
  have "key_at window i \<longleftrightarrow> take 8 (drop i window) @ [window ! (i + 8)] = take 8 CONTROL_KEY @ [quote]"
    unfolding key_at_def length_CONTROL_KEY w
    by (rule arg_cong [OF k, of "\<lambda>k. take 8 (drop i window) @ [window ! (i + 8)] = k"])
  moreover have "word_at (take 8 (drop i window)) = word_at (take 8 CONTROL_KEY) \<longleftrightarrow>
      take 8 (drop i window) = take 8 CONTROL_KEY"
    unfolding word_at_def using assms by (intro from_le_bytes_inject [of _ 8]) simp_all
  ultimately show ?thesis
    by simp
qed

lemma key_at_quote: "key_at window i \<Longrightarrow> i + 9 \<le> length window \<and> window ! i = quote"
proof -
  assume k: "key_at window i"
  then have "length (take 9 (drop i window)) = 9"
    by (simp only: key_at_def length_CONTROL_KEY)
  then have "i + 9 \<le> length window"
    by simp
  moreover have "take 9 (drop i window) ! 0 = quote"
    using k CONTROL_KEY_ends by (simp only: key_at_def length_CONTROL_KEY)
  ultimately show ?thesis
    by simp
qed

lemma nth_mem_drop: "k \<le> j \<Longrightarrow> j < length w \<Longrightarrow> w ! j \<in> set (drop k w)"
  using nth_mem [of "j - k" "drop k w"] by (simp add: diff_less_mono)

lemma find_control_key_loop_Some:
  assumes "last_at + 9 = length window"
  shows "find_control_key_loop window last_at k = Some i \<longleftrightarrow>
     k \<le> i \<and> key_at window i \<and> (\<forall>j. k \<le> j \<and> j < i \<longrightarrow> \<not> key_at window j)"
  using assms
proof (induction window last_at k rule: find_control_key_loop.induct)
  case (1 window last_at k)
  have le: "key_at window j \<Longrightarrow> j \<le> last_at \<and> window ! j = quote" for j
    using key_at_quote [of window j] "1.prems" by simp
  show ?case
  proof (cases "k \<le> last_at")
    case k: True
    show ?thesis
    proof (cases "find_byte (drop k window) quote")
      case None
      then have "key_at window j \<Longrightarrow> k \<le> j \<Longrightarrow> False" for j
        using key_at_quote [of window j] nth_mem_drop [of k j window]
        by (auto simp: find_byte_position position_None)
      with None k show ?thesis
        by (subst find_control_key_loop.simps) auto
    next
      case (Some d)
      let ?at = "k + d"
      have at: "?at < length window" "window ! ?at = quote"
        and before: "\<And>j. k \<le> j \<Longrightarrow> j < ?at \<Longrightarrow> \<not> key_at window j"
      proof -
        from Some show "?at < length window" "window ! ?at = quote"
          by (auto simp: find_byte_position position_Some)
        fix j
        assume j: "k \<le> j" "j < ?at"
        then have "j - k < d" by simp
        with Some have "drop k window ! (j - k) \<noteq> quote"
          by (auto simp: find_byte_position position_Some)
        moreover have "drop k window ! (j - k) = window ! j"
          using j \<open>?at < length window\<close> by simp
        ultimately show "\<not> key_at window j"
          using key_at_quote [of window j] by auto
      qed
      show ?thesis
      proof (cases "?at > last_at")
        case True
        with Some k have "find_control_key_loop window last_at k = None"
          by (subst find_control_key_loop.simps) (simp add: Let_def)
        moreover have "\<not> (k \<le> i \<and> key_at window i)"
          using le [of i] before [of i] True by (meson leD leI le_less_trans)
        ultimately show ?thesis by auto
      next
        case False
        then have t: "word_at (take 8 (drop ?at window)) = word_at (take 8 CONTROL_KEY) \<and>
            window ! (?at + 8) = quote \<longleftrightarrow> key_at window ?at"
          using "1.prems" by (intro key_at_test) simp
        show ?thesis
        proof (cases "key_at window ?at")
          case True
          with Some k False t have "find_control_key_loop window last_at k = Some ?at"
            by (subst find_control_key_loop.simps) (simp add: Let_def)
          with True before show ?thesis
            by (metis add.commute le_add2 linorder_neqE_nat option.inject)
        next
          case no: False
          with Some k False t have "find_control_key_loop window last_at k =
              find_control_key_loop window last_at (?at + 1)"
            by (subst find_control_key_loop.simps) (auto simp: Let_def)
          moreover have "\<not> (word_at (take 8 (drop ?at window)) = word_at (take 8 CONTROL_KEY) \<and>
              window ! (?at + 8) = quote)"
            using no t by simp
          note IH = "1.IH" [OF k Some refl False this "1.prems"]
          have "k \<le> j \<and> key_at window j \<longleftrightarrow> ?at + 1 \<le> j \<and> key_at window j" for j
            using before [of j] no by (cases j ?at rule: linorder_cases) auto
          then have "k \<le> i \<and> key_at window i \<and> (\<forall>j. k \<le> j \<and> j < i \<longrightarrow> \<not> key_at window j) \<longleftrightarrow>
              ?at + 1 \<le> i \<and> key_at window i \<and> (\<forall>j. ?at + 1 \<le> j \<and> j < i \<longrightarrow> \<not> key_at window j)"
            by blast
          ultimately show ?thesis
            using IH by simp
        qed
      qed
    qed
  next
    case False
    then have "\<not> (k \<le> i \<and> key_at window i)"
      using le [of i] by auto
    with False show ?thesis
      by (subst find_control_key_loop.simps) auto
  qed
qed

lemma find_control_key_Some:
  "find_control_key window = Some i \<longleftrightarrow> key_at window i \<and> (\<forall>j<i. \<not> key_at window j)"
proof (cases "length window < 9")
  case True
  with key_at_quote [of window i] show ?thesis
    by (auto simp: find_control_key_def)
next
  case False
  then show ?thesis
    by (simp add: find_control_key_def find_control_key_loop_Some)
qed

lemma key_at_append:
  "key_at window i \<longleftrightarrow> (\<exists>pre post. window = pre @ CONTROL_KEY @ post \<and> length pre = i)"
proof
  assume k: "key_at window i"
  then have "drop i window = CONTROL_KEY @ drop 9 (drop i window)"
    unfolding key_at_def length_CONTROL_KEY by (metis append_take_drop_id)
  moreover have "i \<le> length window"
    using key_at_quote [OF k] by simp
  ultimately show "\<exists>pre post. window = pre @ CONTROL_KEY @ post \<and> length pre = i"
    by (intro exI [of _ "take i window"] exI [of _ "drop 9 (drop i window)"])
      (simp, metis append_take_drop_id)
qed (auto simp: key_at_def)

text \<open>What the extraction accepts, as a decomposition of the payload.\<close>

definition ll_control_shape ::
  "bytes \<Rightarrow> bytes \<Rightarrow> bytes \<Rightarrow> bytes \<Rightarrow> string \<Rightarrow> bytes \<Rightarrow> bool" where
  "ll_control_shape payload pre mid ws v rest \<longleftrightarrow>
     payload = pre @ CONTROL_KEY @ mid @ colon # ws @ quote # as_bytes v @ quote # rest \<and>
     length pre + 9 \<le> CONTROL_KEY_SCAN_LIMIT \<and>
     (\<forall>j<length pre. \<not> key_at (take CONTROL_KEY_SCAN_LIMIT payload) j) \<and>
     colon \<notin> set mid \<and> list_all is_ascii_whitespace ws \<and>
     quote \<notin> set (as_bytes v) \<and> backslash \<notin> set (as_bytes v) \<and> length v < CONTROL_VALUE_LIMIT \<and>
     utf8_valid (as_bytes v)"

lemma key_at_take: "key_at (take n p) i \<longleftrightarrow> key_at p i \<and> i + 9 \<le> n"
proof -
  have "key_at (take n p) i \<Longrightarrow> i + 9 \<le> n"
    using key_at_quote [of "take n p" i] by simp
  moreover have "i + 9 \<le> n \<Longrightarrow> min 9 (n - i) = 9"
    by simp
  ultimately show ?thesis
    by (auto simp: key_at_def drop_take)
qed

lemma take_min_length: "take (min (length xs) n) xs = take n xs"
  by (simp add: min_def)

lemma from_utf8_Some: "from_utf8 bs = Some v \<longleftrightarrow> utf8_valid bs \<and> bs = as_bytes v"
  by (auto simp: from_utf8_def)

lemma extract_ll_control_shape:
  assumes "ll_control_shape payload pre mid ws v rest"
  shows "extract_ll_control payload = Some v"
proof -
  have a: "payload = pre @ CONTROL_KEY @ mid @ colon # ws @ quote # as_bytes v @ quote # rest"
      "length pre + 9 \<le> CONTROL_KEY_SCAN_LIMIT"
      "\<forall>j<length pre. \<not> key_at (take CONTROL_KEY_SCAN_LIMIT payload) j"
      "colon \<notin> set mid" "list_all is_ascii_whitespace ws" "quote \<notin> set (as_bytes v)"
      "backslash \<notin> set (as_bytes v)" "length v < CONTROL_VALUE_LIMIT" "utf8_valid (as_bytes v)"
    using assms unfolding ll_control_shape_def by blast+
  let ?after = "mid @ colon # ws @ quote # as_bytes v @ quote # rest"
  have p: "payload = pre @ CONTROL_KEY @ ?after"
    by (rule a(1))
  have "key_at payload (length pre)"
    unfolding key_at_append using p by blast
  then have 1: "find_control_key (take (min (length payload) CONTROL_KEY_SCAN_LIMIT) payload) = Some (length pre)"
    using a(2,3) by (simp add: find_control_key_Some take_min_length key_at_take)
  have 2: "drop (length pre + length CONTROL_KEY) payload = ?after"
    unfolding p by simp
  have 3: "find_byte ?after colon = Some (length mid)"
    unfolding find_byte_position position_split using a(4) by blast
  have 4: "position (\<lambda>b. \<not> is_ascii_whitespace b) (ws @ quote # as_bytes v @ quote # rest) = Some (length ws)"
    unfolding position_split using a(5)
    by (intro exI [of _ ws] exI [of _ quote] exI [of _ "as_bytes v @ quote # rest"])
      (auto simp: list_all_iff is_ascii_whitespace_def quote_def)
  let ?rest = "as_bytes v @ quote # rest"
  let ?val = "take (min (length ?rest) CONTROL_VALUE_LIMIT) ?rest"
  have val: "?val = as_bytes v @ quote # take (CONTROL_VALUE_LIMIT - Suc (length v)) rest"
    using a(8) unfolding take_min_length by (simp add: take_Cons')
  have 5: "find_either ?val quote backslash = Some (length v)"
    unfolding val find_either_position position_split using a(6,7)
    by (intro exI [of _ "as_bytes v"] exI [of _ quote]
        exI [of _ "take (CONTROL_VALUE_LIMIT - Suc (length v)) rest"]) auto
  have 6: "drop (length mid + 1) ?after = ws @ quote # ?rest"
      "(ws @ quote # ?rest) ! length ws = quote" "drop (length ws + 1) (ws @ quote # ?rest) = ?rest"
    by simp_all
  have 7: "?val ! length v = quote" "from_utf8 (take (length v) ?val) = Some v"
    unfolding val using a(9) by (simp_all add: from_utf8_Some nth_append)
  show ?thesis
    by (simp only: extract_ll_control_def Let_def 1 2 3 4 5 6 7 Option.bind.simps simp_thms if_False)
qed

lemma extract_ll_control_SomeE:
  assumes "extract_ll_control payload = Some v"
  obtains pre mid ws rest where "ll_control_shape payload pre mid ws v rest"
proof -
  let ?win = "take (min (length payload) CONTROL_KEY_SCAN_LIMIT) payload"
  obtain i c q e where
    i: "find_control_key ?win = Some i" and
    c: "find_byte (drop (i + 9) payload) colon = Some c" and
    q: "position (\<lambda>b. \<not> is_ascii_whitespace b) (drop (c + 1) (drop (i + 9) payload)) = Some q"
      "drop (c + 1) (drop (i + 9) payload) ! q = quote" and
    e: "find_either (take (min (length (drop (q + 1) (drop (c + 1) (drop (i + 9) payload)))) CONTROL_VALUE_LIMIT)
           (drop (q + 1) (drop (c + 1) (drop (i + 9) payload)))) quote backslash = Some e"
      "take (min (length (drop (q + 1) (drop (c + 1) (drop (i + 9) payload)))) CONTROL_VALUE_LIMIT)
           (drop (q + 1) (drop (c + 1) (drop (i + 9) payload))) ! e = quote"
      "from_utf8 (take e (take (min (length (drop (q + 1) (drop (c + 1) (drop (i + 9) payload)))) CONTROL_VALUE_LIMIT)
           (drop (q + 1) (drop (c + 1) (drop (i + 9) payload))))) = Some v"
    using assms unfolding extract_ll_control_def Let_def length_CONTROL_KEY
    by (auto simp: bind_eq_Some_conv simp del: drop_drop take_take length_drop drop_Suc
        split: if_splits)
  have k: "key_at payload i" "i + 9 \<le> CONTROL_KEY_SCAN_LIMIT"
      "\<forall>j<i. \<not> key_at (take CONTROL_KEY_SCAN_LIMIT payload) j"
    using i by (auto simp: find_control_key_Some key_at_take min_def split: if_splits)
  then obtain pre after where p: "payload = pre @ CONTROL_KEY @ after" "length pre = i"
    by (auto simp: key_at_append)
  have d1: "drop (i + 9) payload = after"
    using p by simp
  obtain mid after2 where m: "after = mid @ colon # after2" "length mid = c" "colon \<notin> set mid"
    using c unfolding d1 by (auto simp: find_byte_position position_split)
  have d2: "drop (c + 1) after = after2"
    using m by simp
  obtain ws x rest2 where w: "after2 = ws @ x # rest2" "length ws = q" "list_all is_ascii_whitespace ws"
    using q(1) unfolding d1 d2 by (auto simp: position_split list_all_iff)
  have x: "x = quote" and d3: "drop (q + 1) after2 = rest2"
    using q(2) w unfolding d1 d2 by auto
  let ?val = "take (min (length rest2) CONTROL_VALUE_LIMIT) rest2"
  obtain vb y r where v: "?val = vb @ y # r" "length vb = e" "\<forall>z\<in>set vb. z \<noteq> quote \<and> z \<noteq> backslash"
    using e(1) unfolding d1 d2 d3 by (auto simp: find_either_position position_split)
  have "?val ! e = y"
    using v(1,2) by (simp add: nth_append)
  then have y: "y = quote"
    using e(2) unfolding d1 d2 d3 by simp
  have vb: "vb = as_bytes v" "utf8_valid vb"
    using e(3) v(1,2) unfolding d1 d2 d3 by (auto simp: from_utf8_Some)
  have len: "length v < CONTROL_VALUE_LIMIT"
    using arg_cong [OF v(1), of length] vb by auto
  have "rest2 = ?val @ drop (min (length rest2) CONTROL_VALUE_LIMIT) rest2"
    by simp
  then obtain rest where "rest2 = as_bytes v @ quote # rest"
    unfolding v(1) y vb(1) by auto
  then have "ll_control_shape payload pre mid ws v rest"
    using p m w k x v vb y len by (auto simp: ll_control_shape_def)
  then show ?thesis ..
qed

section \<open>Properties\<close>

text \<open>
  C24: The search that compares eight bytes per step finds what a byte-by-byte search finds: the
  first position of either byte, on every haystack.
\<close>

theorem find_either_first: "find_either haystack a b = position (\<lambda>x. x = a \<or> x = b) haystack"
  by (rule find_either_position)

text \<open>
  C25: The control scan returns a value exactly when the payload has the first control key within
  the scan limit, then a colon, white space, and a quoted value that is valid UTF-8, contains no
  backslash and ends before the value limit; and it returns that value.
\<close>

theorem extract_ll_control_exact:
  "extract_ll_control payload = Some v \<longleftrightarrow>
     (\<exists>pre mid ws rest. ll_control_shape payload pre mid ws v rest)"
  by (blast intro: extract_ll_control_shape elim: extract_ll_control_SomeE)

end
