(* ===== verification/Lox_Crypto.thy ===== *)
theory Lox_Crypto
  imports Lox_Uuid Lox_Scan
begin

text \<open>
  The third-party cryptography and encoding crates the client calls (\<^verbatim>\<open>aes\<close>, \<^verbatim>\<open>cbc\<close>, \<^verbatim>\<open>base64\<close>,
  \<^verbatim>\<open>hex\<close>, \<^verbatim>\<open>percent_encoding\<close>, \<^verbatim>\<open>sha1\<close>, \<^verbatim>\<open>sha2\<close>, \<^verbatim>\<open>hmac\<close>, \<^verbatim>\<open>rsa\<close>) as one parameter, a record of
  functions, with their documented behaviour as the predicate \<open>crypto_ok\<close>. An error of a
  crate is its display text. \<open>crypto_std\<close> is an instance with the standard encodings and a
  stand-in for the cipher, on which statements are evaluated.
\<close>

section \<open>Standard encodings\<close>

definition b64_alphabet :: string where
  "b64_alphabet = ''ABCDEFGHIJKLMNOPQRSTUVWXYZabcdefghijklmnopqrstuvwxyz0123456789+/''"

definition b64_char :: "nat \<Rightarrow> char" where
  "b64_char n = b64_alphabet ! n"

definition b64_val :: "char \<Rightarrow> nat option" where
  "b64_val c = position (\<lambda>x. x = c) b64_alphabet"

text \<open>Standard Base64 with padding (RFC 4648).\<close>

fun base64 :: "bytes \<Rightarrow> string" where
  "base64 (a # b # c # r) =
     b64_char (unat a div 4) # b64_char (unat a mod 4 * 16 + unat b div 16) #
     b64_char (unat b mod 16 * 4 + unat c div 64) # b64_char (unat c mod 64) # base64 r"
| "base64 [a, b] =
     [b64_char (unat a div 4), b64_char (unat a mod 4 * 16 + unat b div 16),
      b64_char (unat b mod 16 * 4), CHR ''='']"
| "base64 [a] = [b64_char (unat a div 4), b64_char (unat a mod 4 * 16), CHR ''='', CHR ''='']"
| "base64 [] = []"

fun base64_decode :: "string \<Rightarrow> bytes option" where
  "base64_decode [] = Some []"
| "base64_decode (p # q # r # s # t) =
     do {
       i \<leftarrow> b64_val p;
       j \<leftarrow> b64_val q;
       (if r = CHR ''='' \<and> s = CHR ''='' \<and> t = [] then Some [word_of_nat (i * 4 + j div 16)]
        else do {
          k \<leftarrow> b64_val r;
          (if s = CHR ''='' \<and> t = []
           then Some [word_of_nat (i * 4 + j div 16), word_of_nat (j mod 16 * 16 + k div 4)]
           else do {
             l \<leftarrow> b64_val s;
             u \<leftarrow> base64_decode t;
             Some (word_of_nat (i * 4 + j div 16) # word_of_nat (j mod 16 * 16 + k div 4) #
                   word_of_nat (k mod 4 * 64 + l) # u)
           })
        })
     }"
| "base64_decode _ = None"

text \<open>Percent decoding: \<^verbatim>\<open>%\<close> and two hexadecimal digits stand for a byte.\<close>

fun pct_decode :: "bytes \<Rightarrow> bytes" where
  "pct_decode (x # h # l # r) =
     (if x = 0x25 then
        case (hex_nibble h, hex_nibble l) of
          (Some a, Some b) \<Rightarrow> (push_bit 4 a OR b) # pct_decode r
        | _ \<Rightarrow> x # pct_decode (h # l # r)
      else x # pct_decode (h # l # r))"
| "pct_decode [x, y] = [x, y]"
| "pct_decode [x] = [x]"
| "pct_decode [] = []"

definition hex_lower :: "bytes \<Rightarrow> string" where
  "hex_lower bs = concat (map hex2 bs)"

section \<open>The interface\<close>

record crypto =
  aes256enc_new :: "bytes \<Rightarrow> bytes"
  encrypt_padded :: "bytes \<Rightarrow> bytes \<Rightarrow> bytes \<Rightarrow> nat \<Rightarrow> bytes option"
  decrypt_padded :: "bytes \<Rightarrow> bytes \<Rightarrow> bytes \<Rightarrow> bytes option"
  b64_encode :: "bytes \<Rightarrow> string"
  b64_encode_slice :: "bytes \<Rightarrow> bytes \<Rightarrow> (nat \<times> bytes) option"
  b64_decode :: "string \<Rightarrow> string + bytes"
  pct_decode_utf8 :: "string \<Rightarrow> string + string"
  hex_encode :: "bytes \<Rightarrow> string"
  hex_encode_upper :: "bytes \<Rightarrow> string"
  hex_decode :: "string \<Rightarrow> string + bytes"
  sha1_digest :: "bytes \<Rightarrow> bytes"
  sha256_digest :: "bytes \<Rightarrow> bytes"
  hmac_sha1 :: "bytes \<Rightarrow> bytes \<Rightarrow> string + bytes"
  hmac_sha256 :: "bytes \<Rightarrow> bytes \<Rightarrow> string + bytes"
  from_public_key_pem :: "string \<Rightarrow> string + bytes"
  from_pkcs1_pem :: "string \<Rightarrow> string + bytes"
  rsa_encrypt :: "bytes \<Rightarrow> bytes \<Rightarrow> bytes \<Rightarrow> string + bytes"

text \<open>
  What the session code relies on: encryption in whole blocks with a key and an
  initialisation vector of the right size succeeds, keeps the length and is undone by
  decryption with the same key; Base64, percent decoding and hexadecimal are the standard
  ones; and writing Base64 into a buffer succeeds when the buffer is long enough.
\<close>

definition crypto_ok :: "crypto \<Rightarrow> bool" where
  "crypto_ok c \<longleftrightarrow>
     (\<forall>k iv d. length k = 32 \<longrightarrow> length iv = 16 \<longrightarrow> 16 dvd length d \<longrightarrow>
        (\<exists>e. encrypt_padded c (aes256enc_new c k) iv d (length d) = Some e \<and> length e = length d \<and>
             decrypt_padded c k iv e = Some d)) \<and>
     (\<forall>bs. b64_encode c bs = base64 bs) \<and>
     (\<forall>bs. b64_decode c (base64 bs) = Inr bs) \<and>
     (\<forall>bs buf. length (base64 bs) \<le> length buf \<longrightarrow>
        b64_encode_slice c bs buf =
          Some (length (base64 bs), as_bytes (base64 bs) @ drop (length (base64 bs)) buf)) \<and>
     (\<forall>s. utf8_valid (pct_decode (as_bytes s)) \<longrightarrow>
        pct_decode_utf8 c s = Inr (str_of (pct_decode (as_bytes s)))) \<and>
     (\<forall>bs. hex_encode c bs = hex_lower bs)"

definition crypto_std :: crypto where
  "crypto_std =
     \<lparr>aes256enc_new = (\<lambda>k. k),
      encrypt_padded = (\<lambda>ks iv d n. Some (map2 (XOR) d (concat (replicate (length d) ks)))),
      decrypt_padded = (\<lambda>k iv d. Some (map2 (XOR) d (concat (replicate (length d) k)))),
      b64_encode = base64,
      b64_encode_slice =
        (\<lambda>bs buf. if length (base64 bs) \<le> length buf
                  then Some (length (base64 bs), as_bytes (base64 bs) @ drop (length (base64 bs)) buf)
                  else None),
      b64_decode =
        (\<lambda>s. case base64_decode s of Some bs \<Rightarrow> Inr bs | None \<Rightarrow> Inl ''Invalid input''),
      pct_decode_utf8 =
        (\<lambda>s. if utf8_valid (pct_decode (as_bytes s)) then Inr (str_of (pct_decode (as_bytes s)))
             else Inl (utf8_error_text (pct_decode (as_bytes s)))),
      hex_encode = hex_lower,
      hex_encode_upper = hex_lower,
      hex_decode =
        (\<lambda>s. if even (length s) \<and> list_all (\<lambda>b. hex_nibble b \<noteq> None) (as_bytes s)
             then Inr (pack (map (the \<circ> hex_nibble) (as_bytes s))) else Inl ''Odd number of digits''),
      sha1_digest = take 20, sha256_digest = take 32,
      hmac_sha1 = (\<lambda>k d. Inr (take 20 (k @ d))), hmac_sha256 = (\<lambda>k d. Inr (take 32 (k @ d))),
      from_public_key_pem = (\<lambda>s. Inr (as_bytes s)), from_pkcs1_pem = (\<lambda>s. Inr (as_bytes s)),
      rsa_encrypt = (\<lambda>k r d. Inr d)\<rparr>"

section \<open>Base64\<close>

lemma distinct_b64_alphabet: "distinct b64_alphabet" "length b64_alphabet = 64"
  by (simp_all add: b64_alphabet_def)

lemma b64_val_char [simp]: "n < 64 \<Longrightarrow> b64_val (b64_char n) = Some n"
  unfolding b64_val_def b64_char_def position_Some
  using distinct_b64_alphabet nth_eq_iff_index_eq [of b64_alphabet] by auto

lemma b64_val_pad: "b64_val (CHR ''='') = None"
  by (simp add: b64_val_def b64_alphabet_def)

lemma b64_char_not_pad: "n < 64 \<Longrightarrow> b64_char n \<noteq> CHR ''=''"
  using b64_val_char [of n] b64_val_pad by fastforce

lemma byte_parts:
  fixes a b c :: u8
  shows "unat a div 4 < 64" "unat a mod 4 * 16 + unat b div 16 < 64"
    "unat b mod 16 * 4 + unat c div 64 < 64" "unat c mod 64 < 64"
    "unat a mod 4 * 16 < 64" "unat b mod 16 * 4 < 64"
  using byte_less_256 [of a] byte_less_256 [of b] byte_less_256 [of c]
  by (auto simp: less_mult_imp_div_less)

lemma regroup:
  fixes x y z :: nat
  assumes "x < 256" "y < 256" "z < 256"
  shows "x div 4 * 4 + (x mod 4 * 16 + y div 16) div 16 = x"
    "(x mod 4 * 16 + y div 16) mod 16 * 16 + (y mod 16 * 4 + z div 64) div 4 = y"
    "(y mod 16 * 4 + z div 64) mod 4 * 64 + z mod 64 = z"
    "x div 4 * 4 + (x mod 4 * 16) div 16 = x"
    "(x mod 4 * 16 + y div 16) mod 16 * 16 + (y mod 16 * 4) div 4 = y"
proof -
  have "y div 16 < 16" "z div 64 < 4"
    using assms by simp_all
  then show "x div 4 * 4 + (x mod 4 * 16 + y div 16) div 16 = x"
    "(x mod 4 * 16 + y div 16) mod 16 * 16 + (y mod 16 * 4 + z div 64) div 4 = y"
    "(y mod 16 * 4 + z div 64) mod 4 * 64 + z mod 64 = z"
    "x div 4 * 4 + (x mod 4 * 16) div 16 = x"
    "(x mod 4 * 16 + y div 16) mod 16 * 16 + (y mod 16 * 4) div 4 = y"
    by (simp_all add: mod_div_mult_eq)
qed

lemma of_nat_unat_byte: "word_of_nat (unat (x :: u8)) = x"
  by simp

lemma base64_decode_base64: "base64_decode (base64 bs) = Some bs"
proof (induction bs rule: base64.induct)
  case (1 a b c r)
  define i j k l where "i = unat a div 4" "j = unat a mod 4 * 16 + unat b div 16"
    "k = unat b mod 16 * 4 + unat c div 64" "l = unat c mod 64"
  note d = this
  have lt: "i < 64" "j < 64" "k < 64" "l < 64"
    unfolding d by (rule byte_parts)+
  have w: "word_of_nat (i * 4 + j div 16) = a" "word_of_nat (j mod 16 * 16 + k div 4) = b"
    "word_of_nat (k mod 4 * 64 + l) = c"
    unfolding d by (simp_all only: regroup [OF byte_less_256 byte_less_256 byte_less_256] of_nat_unat_byte)
  have "base64 (a # b # c # r) = b64_char i # b64_char j # b64_char k # b64_char l # base64 r"
    by (simp add: d)
  with 1 lt show ?case
    by (simp add: b64_char_not_pad w del: of_nat_add of_nat_mult)
next
  case (2 a b)
  define i j k where "i = unat a div 4" "j = unat a mod 4 * 16 + unat b div 16" "k = unat b mod 16 * 4"
  note d = this
  have lt: "i < 64" "j < 64" "k < 64"
    unfolding d by (rule byte_parts)+
  have w: "word_of_nat (i * 4 + j div 16) = a" "word_of_nat (j mod 16 * 16 + k div 4) = b"
    unfolding d by (simp_all only: regroup [OF byte_less_256 byte_less_256 byte_less_256] of_nat_unat_byte)
  have "base64 [a, b] = [b64_char i, b64_char j, b64_char k, CHR ''='']"
    by (simp add: d)
  with lt show ?case
    by (simp add: b64_char_not_pad w del: of_nat_add of_nat_mult)
next
  case (3 a)
  define i j where "i = unat a div 4" "j = unat a mod 4 * 16"
  note d = this
  have lt: "i < 64" "j < 64"
    unfolding d by (rule byte_parts)+
  have w: "word_of_nat (i * 4 + j div 16) = a"
    unfolding d by (simp_all only: regroup [OF byte_less_256 byte_less_256 byte_less_256] of_nat_unat_byte)
  have "base64 [a] = [b64_char i, b64_char j, CHR ''='', CHR ''='']"
    by (simp add: d)
  with lt show ?case
    by (simp add: w del: of_nat_add of_nat_mult)
qed simp

lemma length_base64: "length (base64 bs) = (length bs + 2) div 3 * 4"
proof (induction bs rule: base64.induct)
  case (1 a b c r)
  have "(length (a # b # c # r) + 2) div 3 = Suc ((length r + 2) div 3)"
    by simp
  with 1 show ?case by simp
qed simp_all

lemma b64_alphabet_chars: "list_all (\<lambda>c. (of_char c :: nat) < 128 \<and> c \<noteq> CHR ''%'') b64_alphabet"
  by (simp add: b64_alphabet_def)

lemma b64_char_mem: "n < 64 \<Longrightarrow> b64_char n \<in> set b64_alphabet"
  by (simp add: b64_char_def distinct_b64_alphabet)

lemma base64_chars: "set (base64 bs) \<subseteq> insert (CHR ''='') (set b64_alphabet)"
proof (induction bs rule: base64.induct)
  case (1 a b c r)
  then show ?case
    by (simp add: b64_char_mem byte_parts)
qed (simp_all add: b64_char_mem byte_parts)

lemma base64_ascii: "list_all (\<lambda>c. (of_char c :: nat) < 128 \<and> c \<noteq> CHR ''%'') (base64 bs)"
  unfolding list_all_iff
proof
  fix c
  assume "c \<in> set (base64 bs)"
  then consider "c = CHR ''=''" | "c \<in> set b64_alphabet"
    using base64_chars by blast
  then show "(of_char c :: nat) < 128 \<and> c \<noteq> CHR ''%''"
  proof cases
    case 2
    with b64_alphabet_chars show ?thesis
      unfolding list_all_iff by blast
  qed simp
qed

section \<open>The laws\<close>

lemma crypto_okD:
  assumes "crypto_ok c"
  shows "length k = 32 \<Longrightarrow> length iv = 16 \<Longrightarrow> 16 dvd length d \<Longrightarrow>
      \<exists>e. encrypt_padded c (aes256enc_new c k) iv d (length d) = Some e \<and> length e = length d \<and>
          decrypt_padded c k iv e = Some d"
    and "b64_encode c bs = base64 bs"
    and "b64_decode c (base64 bs) = Inr bs"
    and "length (base64 bs) \<le> length buf \<Longrightarrow> b64_encode_slice c bs buf =
           Some (length (base64 bs), as_bytes (base64 bs) @ drop (length (base64 bs)) buf)"
    and "utf8_valid (pct_decode (as_bytes s)) \<Longrightarrow>
           pct_decode_utf8 c s = Inr (str_of (pct_decode (as_bytes s)))"
    and "hex_encode c bs = hex_lower bs"
  using assms unfolding crypto_ok_def by blast+

lemma crypto_ok_std [simp]: "crypto_ok crypto_std"
proof -
  have len: "length (concat (replicate n (k :: bytes))) = n * length k" for n k
    by (induction n) simp_all
  have "map2 (XOR) (map2 (XOR) d e) e = d" if "length e \<ge> length d" for d e :: bytes
    using that
  proof (induction d arbitrary: e)
    case (Cons x d)
    then show ?case by (cases e) (auto simp: xor.assoc)
  qed simp
  moreover have "length k = 32 \<Longrightarrow> length d \<le> length (concat (replicate (length d) k))" for k d :: bytes
    by (simp add: len)
  ultimately show ?thesis
    by (simp add: crypto_ok_def crypto_std_def base64_decode_base64 len)
qed

end
