(* ===== verification/Lox_Session.thy ===== *)
theory Lox_Session
  imports Lox_Crypto
begin

text \<open>
  Session encryption (\<^verbatim>\<open>src/src/crypto/session.rs\<close>): the session keys, the salt sequence of the
  sending side, the encryption of a command into its \<^verbatim>\<open>jdev/sys/enc/\<close> text, and the way back.
  The clock and the random generator are arguments: an operation that reads the clock takes
  the readings, one that draws random bytes takes the bytes. The crates behind it are the
  parameter of type \<^typ>\<open>crypto\<close>.
\<close>

section \<open>Session keys\<close>

definition IV_BYTES :: nat where "IV_BYTES = 16"
definition AES_KEY_SIZE :: nat where "AES_KEY_SIZE = 32"
definition AES_BLOCK_SIZE :: nat where "AES_BLOCK_SIZE = 16"
definition SALT_BYTES :: nat where "SALT_BYTES = 16"
definition SALT_MAX_AGE_SECONDS :: u64 where "SALT_MAX_AGE_SECONDS = 60 * 60"
definition SALT_MAX_USE_COUNT :: u32 where "SALT_MAX_USE_COUNT = 30"
definition CMD_ENCRYPT :: string where "CMD_ENCRYPT = ''jdev/sys/enc/''"

record SessionKeys =
  sk_key :: bytes
  sk_iv :: bytes
  sk_cipher :: bytes

definition from_key_iv :: "crypto \<Rightarrow> bytes \<Rightarrow> bytes \<Rightarrow> SessionKeys" where
  "from_key_iv c key iv = \<lparr>sk_key = key, sk_iv = iv, sk_cipher = aes256enc_new c key\<rparr>"

text \<open>The random generator fills the two arrays.\<close>

definition generate :: "crypto \<Rightarrow> bytes \<Rightarrow> bytes \<Rightarrow> SessionKeys" where
  "generate c rnd_key rnd_iv = from_key_iv c rnd_key rnd_iv"

definition session_payload :: "crypto \<Rightarrow> SessionKeys \<Rightarrow> string" where
  "session_payload c keys = hex_encode c (sk_key keys) @ '':'' @ hex_encode c (sk_iv keys)"

definition debug_session_keys :: "SessionKeys \<Rightarrow> string" where
  "debug_session_keys keys = ''SessionKeys { .. }''"

definition strip_trailing_zeros :: "bytes \<Rightarrow> bytes" where
  "strip_trailing_zeros buf = trim_end_matches 0 buf"

definition aes_encrypt_zerobyte :: "crypto \<Rightarrow> bytes \<Rightarrow> bytes \<Rightarrow> bytes \<Rightarrow> bytes result" where
  "aes_encrypt_zerobyte c key iv data =
     (let pad = (16 - length data mod 16) mod 16;
          buf = data @ replicate pad 0;
          len = length buf
      in case encrypt_padded c (aes256enc_new c key) iv buf len of
           None \<Rightarrow> Err (Crypto ''AES encrypt failed'')
         | Some e \<Rightarrow> Ok e)"

definition aes_decrypt_zerobyte :: "crypto \<Rightarrow> bytes \<Rightarrow> bytes \<Rightarrow> bytes \<Rightarrow> bytes result" where
  "aes_decrypt_zerobyte c key iv data =
     (if length data mod 16 \<noteq> 0 then Err (Crypto ''ciphertext length not multiple of 16'')
      else case decrypt_padded c key iv data of
        None \<Rightarrow> Err (Crypto ''AES decrypt failed'')
      | Some buf \<Rightarrow> Ok (strip_trailing_zeros buf))"

definition decrypt_control_response :: "crypto \<Rightarrow> SessionKeys \<Rightarrow> string \<Rightarrow> string result" where
  "decrypt_control_response c keys response =
     (let encoded = rsplit_first CMD_ENCRYPT response
      in try_then (map_err Crypto (pct_decode_utf8 c encoded)) (\<lambda>decoded_pct.
         try_then (map_err Crypto (b64_decode c decoded_pct)) (\<lambda>encrypted.
         try_then (aes_decrypt_zerobyte c (sk_key keys) (sk_iv keys) encrypted) (\<lambda>plain.
         case from_utf8 plain of
           Some s \<Rightarrow> Ok s
         | None \<Rightarrow> Err (Crypto (utf8_error_text plain))))))"

section \<open>The salt sequence\<close>

record SaltState =
  salt :: string
  salt_used_count :: u32
  salt_time_stamp :: u64
  scratch :: bytes
  encoded :: bytes

definition salt_new :: SaltState where
  "salt_new = \<lparr>salt = [], salt_used_count = 0, salt_time_stamp = 0, scratch = [], encoded = []\<rparr>"

definition salt_reset :: "SaltState \<Rightarrow> SaltState" where
  "salt_reset st =
     st\<lparr>salt := [], salt_used_count := 0, salt_time_stamp := 0, scratch := [], encoded := []\<rparr>"

definition generate_salt :: "crypto \<Rightarrow> bytes \<Rightarrow> u64 \<Rightarrow> SaltState \<Rightarrow> SaltState" where
  "generate_salt c raw now st =
     st\<lparr>salt := hex_encode c raw, salt_time_stamp := now, salt_used_count := 0\<rparr>"

definition saturating_sub :: "u64 \<Rightarrow> u64 \<Rightarrow> u64" where
  "saturating_sub a b = (if a < b then 0 else a - b)"

definition new_salt_needed :: "u64 \<Rightarrow> SaltState \<Rightarrow> bool \<times> SaltState" where
  "new_salt_needed now st =
     (let st = st\<lparr>salt_used_count := salt_used_count st + 1\<rparr>
      in (salt_used_count st > SALT_MAX_USE_COUNT \<or>
          saturating_sub now (salt_time_stamp st) > SALT_MAX_AGE_SECONDS, st))"

text \<open>
  \<open>now_check\<close> is the clock when the age of the salt is checked, \<open>now_stamp\<close> when a fresh salt
  is stamped, \<open>raw\<close> the random bytes of a fresh salt.
\<close>

definition fill_salted_plaintext ::
  "crypto \<Rightarrow> bytes \<Rightarrow> u64 \<Rightarrow> u64 \<Rightarrow> string \<Rightarrow> SaltState \<Rightarrow> SaltState" where
  "fill_salted_plaintext c raw now_check now_stamp command st =
     (let st = st\<lparr>scratch := []\<rparr>;
          (needed, st) = (if salt st \<noteq> [] then new_salt_needed now_check st else (False, st));
          st = (if needed then
                  let previous = salt st;
                      st = generate_salt c raw now_stamp (st\<lparr>salt := []\<rparr>)
                  in st\<lparr>scratch := scratch st @ as_bytes ''nextSalt/'' @ as_bytes previous @ as_bytes ''/''\<rparr>
                else
                  let st = (if salt st = [] then generate_salt c raw now_stamp st else st)
                  in st\<lparr>scratch := scratch st @ as_bytes ''salt/''\<rparr>)
      in st\<lparr>scratch := scratch st @ as_bytes (salt st) @ as_bytes ''/'' @ as_bytes command @ [0]\<rparr>)"

definition salted_plaintext ::
  "crypto \<Rightarrow> bytes \<Rightarrow> u64 \<Rightarrow> u64 \<Rightarrow> string \<Rightarrow> SaltState \<Rightarrow> string \<times> SaltState" where
  "salted_plaintext c raw now_check now_stamp command st =
     (let st = fill_salted_plaintext c raw now_check now_stamp command st
      in (from_utf8_lossy (scratch st), st))"

text \<open>\<^verbatim>\<open>usize::next_multiple_of\<close>, \<^verbatim>\<open>usize::div_ceil\<close> and \<^verbatim>\<open>Vec::resize\<close>.\<close>

definition next_multiple_of :: "nat \<Rightarrow> nat \<Rightarrow> nat" where
  "next_multiple_of n m = (if n mod m = 0 then n else n + (m - n mod m))"

definition div_ceil :: "nat \<Rightarrow> nat \<Rightarrow> nat" where
  "div_ceil n m = (if n mod m = 0 then n div m else n div m + 1)"

definition resize :: "nat \<Rightarrow> 'a \<Rightarrow> 'a list \<Rightarrow> 'a list" where
  "resize n v xs = take n xs @ replicate (n - length xs) v"

fun pct_escape :: "u8 \<Rightarrow> string option" where
  "pct_escape byte =
     (if byte = char_byte (CHR ''+'') then Some ''%2B''
      else if byte = char_byte (CHR ''/'') then Some ''%2F''
      else if byte = char_byte (CHR ''='') then Some ''%3D''
      else None)"

text \<open>The loop of \<^verbatim>\<open>percent_encode_base64\<close>: \<open>i\<close> counts the bytes seen.\<close>

fun pct_loop :: "string \<Rightarrow> bytes \<Rightarrow> nat \<Rightarrow> nat \<Rightarrow> string \<Rightarrow> string" where
  "pct_loop enc [] i run_start out = out @ drop run_start enc"
| "pct_loop enc (byte # bs) i run_start out =
     (case pct_escape byte of
        None \<Rightarrow> pct_loop enc bs (i + 1) run_start out
      | Some escape \<Rightarrow>
          pct_loop enc bs (i + 1) (i + 1) (out @ take (i - run_start) (drop run_start enc) @ escape))"

definition percent_encode_base64 :: "string \<Rightarrow> string \<Rightarrow> string" where
  "percent_encode_base64 enc out = pct_loop enc (as_bytes enc) 0 0 out"

definition encrypt ::
  "crypto \<Rightarrow> bytes \<Rightarrow> u64 \<Rightarrow> u64 \<Rightarrow> SessionKeys \<Rightarrow> string \<Rightarrow> SaltState \<Rightarrow> string result \<times> SaltState" where
  "encrypt c raw now_check now_stamp keys command st =
     (let st = fill_salted_plaintext c raw now_check now_stamp command st;
          padded = next_multiple_of (length (scratch st)) AES_BLOCK_SIZE;
          st = st\<lparr>scratch := resize padded 0 (scratch st)\<rparr>
      in case encrypt_padded c (sk_cipher keys) (sk_iv keys) (scratch st) padded of
           None \<Rightarrow> (Err (Crypto ''AES encrypt failed''), st)
         | Some buf \<Rightarrow>
             let st = st\<lparr>scratch := buf\<rparr>;
                 b64_len = div_ceil padded 3 * 4;
                 st = st\<lparr>encoded := resize b64_len 0 (encoded st)\<rparr>
             in case b64_encode_slice c (scratch st) (encoded st) of
                  None \<Rightarrow> (Err (Crypto ''base64 buffer too small''), st)
                | Some (written, buf) \<Rightarrow>
                    let st = st\<lparr>encoded := buf\<rparr>
                    in case from_utf8 (take written (encoded st)) of
                         None \<Rightarrow> (Err (Crypto ''base64 produced non-ASCII''), st)
                       | Some enc \<Rightarrow> (Ok (percent_encode_base64 enc CMD_ENCRYPT), st))"

definition strip_salt_prefix :: "string \<Rightarrow> string" where
  "strip_salt_prefix plaintext =
     (let trimmed = trim_end_matches (CHR 0x00) plaintext
      in case strip_prefix ''nextSalt/'' trimmed of
           Some rest \<Rightarrow>
             (case split_once (CHR ''/'') rest of
                None \<Rightarrow> trimmed
              | Some (s1, rest) \<Rightarrow>
                  (case split_once (CHR ''/'') rest of None \<Rightarrow> trimmed | Some (s2, cmd) \<Rightarrow> cmd))
         | None \<Rightarrow>
             (case strip_prefix ''salt/'' trimmed of
                Some rest \<Rightarrow>
                  (case split_once (CHR ''/'') rest of None \<Rightarrow> trimmed | Some (s1, cmd) \<Rightarrow> cmd)
              | None \<Rightarrow> trimmed))"

section \<open>One salted plaintext\<close>

text \<open>The three things \<open>fill_salted_plaintext\<close> can do: start, continue, or rotate the salt.\<close>

lemma fill_start:
  "salt st = [] \<Longrightarrow>
   fill_salted_plaintext c raw t1 t2 cmd st =
     st\<lparr>salt := hex_encode c raw, salt_used_count := 0, salt_time_stamp := t2,
        scratch := as_bytes (''salt/'' @ hex_encode c raw @ ''/'' @ cmd) @ [0]\<rparr>"
  by (simp add: fill_salted_plaintext_def generate_salt_def Let_def as_bytes_def)

lemma fill_continue:
  "salt st \<noteq> [] \<Longrightarrow> \<not> fst (new_salt_needed t1 st) \<Longrightarrow>
   fill_salted_plaintext c raw t1 t2 cmd st =
     st\<lparr>salt_used_count := salt_used_count st + 1,
        scratch := as_bytes (''salt/'' @ salt st @ ''/'' @ cmd) @ [0]\<rparr>"
  by (simp add: fill_salted_plaintext_def new_salt_needed_def Let_def as_bytes_def)

lemma fill_rotate:
  "salt st \<noteq> [] \<Longrightarrow> fst (new_salt_needed t1 st) \<Longrightarrow>
   fill_salted_plaintext c raw t1 t2 cmd st =
     st\<lparr>salt := hex_encode c raw, salt_used_count := 0, salt_time_stamp := t2,
        scratch := as_bytes (''nextSalt/'' @ salt st @ ''/'' @ hex_encode c raw @ ''/'' @ cmd) @ [0]\<rparr>"
  by (simp add: fill_salted_plaintext_def new_salt_needed_def generate_salt_def Let_def as_bytes_def)

text \<open>A salt is what hexadecimal encoding gives: it has no slash and is ASCII.\<close>

definition salt_chars :: "string \<Rightarrow> bool" where
  "salt_chars s \<longleftrightarrow> list_all (\<lambda>ch. ch \<noteq> CHR ''/'' \<and> (of_char ch :: nat) < 128) s"

definition wf_salt :: "SaltState \<Rightarrow> bool" where
  "wf_salt st \<longleftrightarrow> salt_chars (salt st) \<and> salt_used_count st \<le> SALT_MAX_USE_COUNT"

lemma wf_salt_new [simp]: "wf_salt salt_new"
  by (simp add: wf_salt_def salt_new_def salt_chars_def)

lemma hex_digit_chars: "n < 16 \<Longrightarrow> hex_digit n \<noteq> CHR ''/'' \<and> (of_char (hex_digit n) :: nat) < 128"
proof -
  have "list_all (\<lambda>ch. ch \<noteq> CHR ''/'' \<and> (of_char ch :: nat) < 128) ''0123456789abcdef''"
    by simp
  then show "n < 16 \<Longrightarrow> ?thesis"
    by (simp add: hex_digit_def list_all_length)
qed

lemma salt_chars_hex [simp]: "salt_chars (hex_lower bs)"
proof -
  have "salt_chars (hex2 b)" for b
    using byte_less_256 [of b] by (simp add: salt_chars_def hex2_def hex_digit_chars)
  then show ?thesis
    by (auto simp: hex_lower_def salt_chars_def list_all_iff)
qed

lemma wf_fill:
  assumes "crypto_ok c" and "wf_salt st"
  shows "wf_salt (fill_salted_plaintext c raw t1 t2 cmd st)"
proof (cases "salt st = []")
  case True
  with assms show ?thesis
    by (simp add: fill_start wf_salt_def crypto_okD)
next
  case False
  show ?thesis
  proof (cases "fst (new_salt_needed t1 st)")
    case True
    with False assms show ?thesis
      by (simp add: fill_rotate wf_salt_def crypto_okD)
  next
    case needed: False
    then have "salt_used_count st + 1 \<le> SALT_MAX_USE_COUNT"
      by (simp add: new_salt_needed_def Let_def not_less)
    with False needed assms show ?thesis
      by (simp add: fill_continue wf_salt_def)
  qed
qed

text \<open>The plaintext is the prefix, the command and one terminating zero byte.\<close>

inductive salted :: "string \<Rightarrow> string \<Rightarrow> string \<Rightarrow> string \<Rightarrow> bool" where
  salted_first: "salted prev s (''salt/'' @ s @ ''/'' @ cmd) cmd" if "prev = [] \<or> prev = s"
| salted_next: "salted prev s (''nextSalt/'' @ prev @ ''/'' @ s @ ''/'' @ cmd) cmd" if "prev \<noteq> []"

inductive_cases salted_elim: "salted prev s msg cmd"

lemma fill_salted:
  obtains msg where "salted (salt st) (salt (fill_salted_plaintext c raw t1 t2 cmd st)) msg cmd"
    and "scratch (fill_salted_plaintext c raw t1 t2 cmd st) = as_bytes msg @ [0]"
proof -
  consider "salt st = []" | "salt st \<noteq> []" "fst (new_salt_needed t1 st)"
    | "salt st \<noteq> []" "\<not> fst (new_salt_needed t1 st)"
    by blast
  then show ?thesis
  proof cases
    case 1
    with salted_first [of "[]" "hex_encode c raw" cmd] that show ?thesis
      by (simp add: fill_start)
  next
    case 2
    with salted_next [of "salt st" "hex_encode c raw" cmd] that show ?thesis
      by (simp add: fill_rotate)
  next
    case 3
    with salted_first [of "salt st" "salt st" cmd] that show ?thesis
      by (simp add: fill_continue)
  qed
qed

lemma salt_chars_no_slash: "salt_chars s \<Longrightarrow> CHR ''/'' \<notin> set s"
  by (auto simp: salt_chars_def list_all_iff)

lemma strip_salted:
  assumes "salted prev s msg cmd" and "salt_chars prev" "salt_chars s"
    and "cmd = [] \<or> last cmd \<noteq> CHR 0x00"
  shows "strip_salt_prefix msg = cmd" and "trim_end_matches (CHR 0x00) msg = msg"
proof -
  have "msg \<noteq> [] \<and> last msg \<noteq> CHR 0x00"
    using assms by (cases "cmd = []") (auto elim!: salted_elim)
  then show t: "trim_end_matches (CHR 0x00) msg = msg"
    by (simp add: trim_end_matches_id)
  from assms(1) show "strip_salt_prefix msg = cmd"
  proof cases
    case salted_first
    then have "split_once (CHR ''/'') (s @ CHR ''/'' # cmd) = Some (s, cmd)"
      using assms(3) by (simp add: split_once_append salt_chars_no_slash)
    with salted_first t show ?thesis
      by (simp add: strip_salt_prefix_def Let_def)
  next
    case salted_next
    then have "split_once (CHR ''/'') (s @ CHR ''/'' # cmd) = Some (s, cmd)"
      "split_once (CHR ''/'') (prev @ CHR ''/'' # s @ CHR ''/'' # cmd) = Some (prev, s @ CHR ''/'' # cmd)"
      using assms(2,3) by (simp_all add: split_once_append salt_chars_no_slash)
    with salted_next t show ?thesis
      by (simp add: strip_salt_prefix_def Let_def)
  qed
qed

section \<open>Percent encoding\<close>

text \<open>Character by character, as \<^verbatim>\<open>encodeURIComponent\<close> treats the Base64 alphabet.\<close>

definition pct_char :: "char \<Rightarrow> string" where
  "pct_char ch = (case pct_escape (char_byte ch) of None \<Rightarrow> [ch] | Some e \<Rightarrow> e)"

declare pct_escape.simps [simp del]

lemma pct_loop_eq:
  assumes "i \<le> length enc" "rs \<le> i"
    and "\<forall>ch \<in> set (take (i - rs) (drop rs enc)). pct_escape (char_byte ch) = None"
  shows "pct_loop enc (as_bytes (drop i enc)) i rs out =
     out @ take (i - rs) (drop rs enc) @ concat (map pct_char (drop i enc))"
  using assms
proof (induction "length enc - i" arbitrary: i rs out)
  case 0
  then show ?case
    by (simp add: as_bytes_def)
next
  case (Suc n)
  then have i: "i < length enc" by simp
  let ?ch = "enc ! i"
  have d: "drop i enc = ?ch # drop (Suc i) enc"
    using i by (simp add: Cons_nth_drop_Suc)
  have t: "take (Suc i - rs) (drop rs enc) = take (i - rs) (drop rs enc) @ [?ch]"
    using i Suc.prems(2) by (simp add: Suc_diff_le take_Suc_conv_app_nth)
  show ?case
  proof (cases "pct_escape (char_byte ?ch)")
    case None
    have "pct_loop enc (as_bytes (drop (Suc i) enc)) (Suc i) rs out =
        out @ take (Suc i - rs) (drop rs enc) @ concat (map pct_char (drop (Suc i) enc))"
      using Suc.prems Suc.hyps(2) None i by (intro Suc.hyps(1)) (auto simp: t)
    with None d t show ?thesis
      by (simp add: as_bytes_def pct_char_def)
  next
    case (Some e)
    have "pct_loop enc (as_bytes (drop (Suc i) enc)) (Suc i) (Suc i)
          (out @ take (i - rs) (drop rs enc) @ e) =
        (out @ take (i - rs) (drop rs enc) @ e) @ take (Suc i - Suc i) (drop (Suc i) enc) @
        concat (map pct_char (drop (Suc i) enc))"
      using Suc.hyps(2) i by (intro Suc.hyps(1)) auto
    with Some d show ?thesis
      by (simp add: as_bytes_def pct_char_def)
  qed
qed

lemma percent_encode_eq: "percent_encode_base64 enc out = out @ concat (map pct_char enc)"
  using pct_loop_eq [of 0 enc 0 out] by (simp add: percent_encode_base64_def)

lemma pct_decode_other: "x \<noteq> 0x25 \<Longrightarrow> pct_decode (x # r) = x # pct_decode r"
  by (cases "x # r" rule: pct_decode.cases) auto

lemma pct_decode_char:
  assumes "ch \<noteq> CHR ''%''"
  shows "pct_decode (as_bytes (pct_char ch) @ r) = char_byte ch # pct_decode r"
proof (cases "pct_escape (char_byte ch)")
  case None
  have "char_byte (CHR ''%'') = 0x25"
    by (simp add: char_byte_def)
  with assms have "char_byte ch \<noteq> 0x25"
    by (metis byte_char_char_byte)
  with None show ?thesis
    by (simp add: pct_char_def as_bytes_def pct_decode_other)
next
  case (Some e)
  then consider "ch = CHR ''+''" | "ch = CHR ''/''" | "ch = CHR ''=''"
    by (auto simp: pct_escape.simps char_byte_eq_iff split: if_splits)
  then show ?thesis
    by cases (simp_all add: pct_char_def pct_escape.simps as_bytes_def char_byte_def hex_nibble_def)
qed

lemma pct_decode_encode:
  "CHR ''%'' \<notin> set s \<Longrightarrow> pct_decode (as_bytes (concat (map pct_char s))) = as_bytes s"
proof (induction s)
  case Nil
  then show ?case by (simp add: as_bytes_def)
next
  case (Cons ch s)
  then have "pct_decode (as_bytes (pct_char ch) @ as_bytes (concat (map pct_char s))) =
      char_byte ch # as_bytes s"
    by (subst pct_decode_char) auto
  then show ?case
    by (simp add: as_bytes_def)
qed

text \<open>The encoding has no slash, so the command prefix occurs once.\<close>

lemma pct_char_no_slash: "CHR ''/'' \<notin> set (pct_char ch)"
  by (auto simp: pct_char_def pct_escape.simps char_byte_def split: if_splits)

lemma rsplit_cmd_encrypt:
  assumes "CHR ''/'' \<notin> set s"
  shows "rsplit_first CMD_ENCRYPT (CMD_ENCRYPT @ s) = s"
proof (rule rsplit_first_prefix)
  show "\<not> contains CMD_ENCRYPT (tl (CMD_ENCRYPT @ s))"
  proof
    assume "contains CMD_ENCRYPT (tl (CMD_ENCRYPT @ s))"
    then obtain a b where t: "''dev/sys/enc/'' @ s = a @ CMD_ENCRYPT @ b"
      by (auto simp: contains_iff CMD_ENCRYPT_def)
    have f: "filter (\<lambda>c. c = CHR ''/'') s = []"
      using assms by (auto simp: filter_empty_conv)
    have "length (filter (\<lambda>c. c = CHR ''/'') (''dev/sys/enc/'' @ s)) =
        length (filter (\<lambda>c. c = CHR ''/'') (a @ CMD_ENCRYPT @ b))"
      by (simp only: t)
    then have "filter (\<lambda>c. c = CHR ''/'') a = []"
      by (simp add: f CMD_ENCRYPT_def)
    then have a: "CHR ''/'' \<notin> set a"
      by (auto simp: filter_empty_conv)
    have "takeWhile (\<lambda>c. c \<noteq> CHR ''/'') (''dev/sys/enc/'' @ s) =
        takeWhile (\<lambda>c. c \<noteq> CHR ''/'') (a @ CMD_ENCRYPT @ b)"
      by (simp only: t)
    moreover have "takeWhile (\<lambda>c. c \<noteq> CHR ''/'') (a @ CMD_ENCRYPT @ b) = a @ ''jdev''"
      using a by (subst takeWhile_append2) (auto simp: CMD_ENCRYPT_def)
    ultimately have "''dev'' = a @ ''jdev''"
      by simp
    then have "length ''dev'' = length (a @ ''jdev'')"
      by (simp only:)
    then show False by simp
  qed
qed (simp add: CMD_ENCRYPT_def)

section \<open>Encryption and the way back\<close>

definition wf_keys :: "crypto \<Rightarrow> SessionKeys \<Rightarrow> bool" where
  "wf_keys c keys \<longleftrightarrow>
     length (sk_key keys) = AES_KEY_SIZE \<and> length (sk_iv keys) = IV_BYTES \<and>
     sk_cipher keys = aes256enc_new c (sk_key keys)"

lemma wf_from_key_iv [simp]:
  "wf_keys c (from_key_iv c k iv) \<longleftrightarrow> length k = AES_KEY_SIZE \<and> length iv = IV_BYTES"
  by (simp add: wf_keys_def from_key_iv_def)

lemma next_multiple_of_16: "16 dvd next_multiple_of n 16" "n \<le> next_multiple_of n 16"
proof -
  have "n = 16 * (n div 16) + n mod 16"
    by simp
  moreover have "n mod 16 < 16"
    by simp
  ultimately have "n + (16 - n mod 16) = 16 * (n div 16 + 1)"
    by arith
  then show "16 dvd next_multiple_of n 16"
    by (auto simp: next_multiple_of_def)
  show "n \<le> next_multiple_of n 16"
    using mod_less_divisor [of 16 n] unfolding next_multiple_of_def by (cases "n mod 16 = 0") arith+
qed

lemma div_ceil_3: "div_ceil n 3 = (n + 2) div 3"
proof -
  have "n = 3 * (n div 3) + n mod 3" "n mod 3 < 3"
    by simp_all
  then show ?thesis
    unfolding div_ceil_def by (cases "n mod 3 = 0") (simp; presburger)+
qed

lemma resize_grow: "length xs \<le> n \<Longrightarrow> resize n v xs = xs @ replicate (n - length xs) v"
  by (simp add: resize_def)

lemma length_resize [simp]: "length (resize n v xs) = n"
  by (auto simp: resize_def)

lemma encrypt_ok:
  assumes c: "crypto_ok c" and k: "wf_keys c keys"
  obtains e n st' where
    "encrypt c raw t1 t2 keys cmd st = (Ok (CMD_ENCRYPT @ concat (map pct_char (base64 e))), st')"
    "decrypt_padded c (sk_key keys) (sk_iv keys) e =
       Some (scratch (fill_salted_plaintext c raw t1 t2 cmd st) @ replicate n 0)"
    "length e mod 16 = 0"
    "salt st' = salt (fill_salted_plaintext c raw t1 t2 cmd st)"
    "salt_used_count st' = salt_used_count (fill_salted_plaintext c raw t1 t2 cmd st)"
    "salt_time_stamp st' = salt_time_stamp (fill_salted_plaintext c raw t1 t2 cmd st)"
proof -
  let ?f = "fill_salted_plaintext c raw t1 t2 cmd st"
  let ?p = "next_multiple_of (length (scratch ?f)) 16"
  define n where "n = ?p - length (scratch ?f)"
  define d where "d = scratch ?f @ replicate n 0"
  have d: "resize ?p 0 (scratch ?f) = d" "length d = ?p" "16 dvd length d"
    using next_multiple_of_16 [of "length (scratch ?f)"]
    by (simp_all add: d_def n_def resize_grow)
  obtain e where e: "encrypt_padded c (aes256enc_new c (sk_key keys)) (sk_iv keys) d (length d) = Some e"
      "length e = length d" "decrypt_padded c (sk_key keys) (sk_iv keys) e = Some d"
    using crypto_okD(1) [OF c, of "sk_key keys" "sk_iv keys" d] k d
    by (auto simp: wf_keys_def AES_KEY_SIZE_def IV_BYTES_def)
  have len: "length (base64 e) = div_ceil ?p 3 * 4"
    by (simp add: length_base64 div_ceil_3 e d)
  have slice: "b64_encode_slice c e (resize (div_ceil ?p 3 * 4) 0 (encoded ?f)) =
      Some (length (base64 e), as_bytes (base64 e))"
    using crypto_okD(4) [OF c, of e "resize (div_ceil ?p 3 * 4) 0 (encoded ?f)"] len by simp
  have "utf8_valid (as_bytes (base64 e))"
    using base64_ascii [of e] by (intro utf8_valid_ascii_str) (auto simp: list_all_iff)
  then have u: "from_utf8 (as_bytes (base64 e)) = Some (base64 e)"
    by (simp add: from_utf8_def)
  let ?st' = "?f\<lparr>scratch := e, encoded := as_bytes (base64 e)\<rparr>"
  have ciph: "encrypt_padded c (sk_cipher keys) (sk_iv keys) d ?p = Some e"
    using k e(1) d(2) by (simp add: wf_keys_def)
  have "encrypt c raw t1 t2 keys cmd st = (Ok (CMD_ENCRYPT @ concat (map pct_char (base64 e))), ?st')"
    unfolding encrypt_def Let_def AES_BLOCK_SIZE_def
    by (simp add: d(1) ciph slice u percent_encode_eq)
  then show ?thesis
    using e(2,3) d by (intro that [of e ?st' n]) (simp_all add: d_def dvd_eq_mod_eq_0)
qed

lemma decrypt_encrypted:
  assumes c: "crypto_ok c" and k: "wf_keys c keys"
    and d: "decrypt_padded c (sk_key keys) (sk_iv keys) e = Some (as_bytes msg @ replicate n 0)"
    and len: "length e mod 16 = 0" and msg: "msg = [] \<or> last msg \<noteq> CHR 0x00" "utf8_valid (as_bytes msg)"
  shows "decrypt_control_response c keys (CMD_ENCRYPT @ concat (map pct_char (base64 e))) = Ok msg"
proof -
  let ?s = "concat (map pct_char (base64 e))"
  have r: "rsplit_first CMD_ENCRYPT (CMD_ENCRYPT @ ?s) = ?s"
    using pct_char_no_slash by (intro rsplit_cmd_encrypt) auto
  have "CHR ''%'' \<notin> set (base64 e)"
    using base64_ascii [of e] by (auto simp: list_all_iff)
  then have p: "pct_decode (as_bytes ?s) = as_bytes (base64 e)"
    by (rule pct_decode_encode)
  have v: "utf8_valid (as_bytes (base64 e))"
    using base64_ascii [of e] by (intro utf8_valid_ascii_str) (auto simp: list_all_iff)
  have "trim_end_matches 0 (as_bytes msg) = as_bytes msg"
  proof (rule trim_end_matches_id)
    have "char_byte (CHR 0x00) = 0"
      by (simp add: char_byte_def)
    then have "char_byte ch = 0 \<longleftrightarrow> ch = CHR 0x00" for ch
      by (metis byte_char_char_byte)
    with msg(1) show "as_bytes msg = [] \<or> last (as_bytes msg) \<noteq> 0"
      by (cases msg rule: rev_cases) (simp_all add: as_bytes_def)
  qed
  then have "strip_trailing_zeros (as_bytes msg @ replicate n 0) = as_bytes msg"
    by (simp add: strip_trailing_zeros_def trim_end_matches_append_replicate)
  then have "aes_decrypt_zerobyte c (sk_key keys) (sk_iv keys) e = Ok (as_bytes msg)"
    using d len by (simp add: aes_decrypt_zerobyte_def)
  moreover have "pct_decode_utf8 c ?s = Inr (base64 e)"
    using crypto_okD(5) [OF c, of ?s] v unfolding p by simp
  moreover have "from_utf8 (as_bytes msg) = Some msg"
    using msg(2) by (simp add: from_utf8_def)
  ultimately show ?thesis
    by (simp add: decrypt_control_response_def r crypto_okD(3) [OF c] Let_def)
qed

section \<open>The receiving side\<close>

text \<open>
  A receiver that follows the salt sequence: it takes the first salt it is told, accepts
  \<^verbatim>\<open>salt/\<close> only with the salt it knows, and \<^verbatim>\<open>nextSalt/\<close> only with that salt as the previous one,
  after which it knows the next.
\<close>

definition salt_receive :: "string option \<Rightarrow> string \<Rightarrow> (string \<times> string option) option" where
  "salt_receive cur msg =
     (case strip_prefix ''nextSalt/'' msg of
        Some rest \<Rightarrow>
          do {
            (p, rest) \<leftarrow> split_once (CHR ''/'') rest;
            (n, cmd) \<leftarrow> split_once (CHR ''/'') rest;
            if cur = Some p then Some (cmd, Some n) else None
          }
      | None \<Rightarrow>
          do {
            rest \<leftarrow> strip_prefix ''salt/'' msg;
            (s, cmd) \<leftarrow> split_once (CHR ''/'') rest;
            if cur = None \<or> cur = Some s then Some (cmd, Some s) else None
          })"

definition receive :: "crypto \<Rightarrow> SessionKeys \<Rightarrow> string option \<Rightarrow> string \<Rightarrow> (string \<times> string option) option" where
  "receive c keys cur wire =
     (case decrypt_control_response c keys wire of Inl e \<Rightarrow> None | Inr plain \<Rightarrow> salt_receive cur plain)"

text \<open>Sending a list of commands one after the other, and receiving what was sent.\<close>

fun encrypt_all ::
  "crypto \<Rightarrow> SessionKeys \<Rightarrow> (bytes \<times> u64 \<times> u64 \<times> string) list \<Rightarrow> SaltState \<Rightarrow> string result list \<times> SaltState" where
  "encrypt_all c keys [] st = ([], st)"
| "encrypt_all c keys ((raw, t1, t2, cmd) # es) st =
     (let (r, st) = encrypt c raw t1 t2 keys cmd st;
          (rs, st) = encrypt_all c keys es st
      in (r # rs, st))"

fun receive_all ::
  "crypto \<Rightarrow> SessionKeys \<Rightarrow> string option \<Rightarrow> string result list \<Rightarrow> string list option" where
  "receive_all c keys cur [] = Some []"
| "receive_all c keys cur (Inl e # rs) = None"
| "receive_all c keys cur (Inr wire # rs) =
     do {
       (cmd, cur) \<leftarrow> receive c keys cur wire;
       cmds \<leftarrow> receive_all c keys cur rs;
       Some (cmd # cmds)
     }"

definition wf_command :: "string \<Rightarrow> bool" where
  "wf_command cmd \<longleftrightarrow> utf8_valid (as_bytes cmd) \<and> (cmd = [] \<or> last cmd \<noteq> CHR 0x00)"

definition known_salt :: "string \<Rightarrow> string option" where
  "known_salt s = (if s = [] then None else Some s)"

lemma salt_receive_salted:
  assumes "salted prev s msg cmd" "salt_chars prev" "salt_chars s"
  shows "salt_receive (known_salt prev) msg = Some (cmd, Some s)"
  using assms(1)
proof cases
  case salted_first
  then have "split_once (CHR ''/'') (s @ CHR ''/'' # cmd) = Some (s, cmd)"
    using assms(3) by (simp add: split_once_append salt_chars_no_slash)
  with salted_first show ?thesis
    by (auto simp: salt_receive_def known_salt_def)
next
  case salted_next
  then have "split_once (CHR ''/'') (s @ CHR ''/'' # cmd) = Some (s, cmd)"
    "split_once (CHR ''/'') (prev @ CHR ''/'' # s @ CHR ''/'' # cmd) = Some (prev, s @ CHR ''/'' # cmd)"
    using assms(2,3) by (simp_all add: split_once_append salt_chars_no_slash)
  with salted_next show ?thesis
    by (simp add: salt_receive_def known_salt_def)
qed

lemma salted_utf8:
  assumes "salted prev s msg cmd" "salt_chars prev" "salt_chars s" "utf8_valid (as_bytes cmd)"
  shows "utf8_valid (as_bytes msg)"
proof -
  have sl: "salt_chars x \<Longrightarrow> utf8_valid (as_bytes x)" for x
    by (rule utf8_valid_ascii_str) (auto simp: salt_chars_def list_all_iff)
  have lit: "utf8_valid (as_bytes ''salt/'')" "utf8_valid (as_bytes ''nextSalt/'')"
    "utf8_valid (as_bytes ''/'')"
    by (rule utf8_valid_ascii_str; simp)+
  from assms(1) show ?thesis
    by cases (simp_all only: as_bytes_append utf8_valid_append sl lit assms(2,3,4))
qed

text \<open>One command, end to end: what is sent is accepted, and is the command.\<close>

lemma receive_encrypt:
  assumes c: "crypto_ok c" and k: "wf_keys c keys" and st: "wf_salt st" and cmd: "wf_command cmd"
    and raw: "raw \<noteq> []"
  obtains wire st' where "encrypt c raw t1 t2 keys cmd st = (Ok wire, st')"
    "receive c keys (known_salt (salt st)) wire = Some (cmd, known_salt (salt st'))"
    "wf_salt st'" "\<exists>plain. decrypt_control_response c keys wire = Ok plain \<and> strip_salt_prefix plain = cmd"
proof -
  let ?f = "fill_salted_plaintext c raw t1 t2 cmd st"
  obtain e n st' where e: "encrypt c raw t1 t2 keys cmd st = (Ok (CMD_ENCRYPT @ concat (map pct_char (base64 e))), st')"
      "decrypt_padded c (sk_key keys) (sk_iv keys) e = Some (scratch ?f @ replicate n 0)" "length e mod 16 = 0"
      "salt st' = salt ?f" "salt_used_count st' = salt_used_count ?f"
    by (rule encrypt_ok [OF c k])
  obtain msg where m: "salted (salt st) (salt ?f) msg cmd" "scratch ?f = as_bytes msg @ [0]"
    by (rule fill_salted)
  have wf: "wf_salt ?f"
    by (rule wf_fill [OF c st])
  have ch: "salt_chars (salt st)" "salt_chars (salt ?f)"
    using st wf by (simp_all add: wf_salt_def)
  have last: "msg = [] \<or> last msg \<noteq> CHR 0x00"
    using m(1) cmd by (cases "cmd = []") (auto simp: wf_command_def elim!: salted_elim)
  have dp: "decrypt_padded c (sk_key keys) (sk_iv keys) e = Some (as_bytes msg @ replicate (Suc n) 0)"
    using e(2) m(2) by simp
  have "utf8_valid (as_bytes msg)"
    using salted_utf8 [OF m(1) ch] cmd by (simp add: wf_command_def)
  with dp have d: "decrypt_control_response c keys (CMD_ENCRYPT @ concat (map pct_char (base64 e))) = Ok msg"
    by (intro decrypt_encrypted [OF c k dp e(3) last])
  have "salt ?f \<noteq> []"
  proof -
    have "hex_lower raw \<noteq> []"
      using raw by (cases raw) (simp_all add: hex_lower_def hex2_def)
    then show ?thesis
      by (cases "salt st = []"; cases "fst (new_salt_needed t1 st)")
        (simp_all add: fill_start fill_rotate fill_continue crypto_okD(6) [OF c])
  qed
  then have "receive c keys (known_salt (salt st)) (CMD_ENCRYPT @ concat (map pct_char (base64 e))) =
      Some (cmd, known_salt (salt st'))"
    using salt_receive_salted [OF m(1) ch] e(4) by (simp add: receive_def d known_salt_def)
  moreover have "strip_salt_prefix msg = cmd"
    using strip_salted [OF m(1) ch] cmd by (simp add: wf_command_def)
  ultimately show ?thesis
    using that e(1,4,5) wf d by (auto simp: wf_salt_def)
qed

section \<open>Properties\<close>

text \<open>
  C9: Every command is sent and understood. From a fresh salt state, encrypting any list of
  commands succeeds for each, and a receiver with the same key that enforces the salt sequence
  accepts each of them and reads exactly the commands, however often the salt was rotated in
  between.
\<close>

theorem encrypt_all_received:
  assumes c: "crypto_ok c" and k: "wf_keys c keys"
    and es: "list_all (\<lambda>(raw, t1, t2, cmd). length raw = SALT_BYTES \<and> wf_command cmd) es"
  shows "receive_all c keys None (fst (encrypt_all c keys es salt_new)) =
           Some (map (\<lambda>(raw, t1, t2, cmd). cmd) es)"
proof -
  have "receive_all c keys (known_salt (salt st)) (fst (encrypt_all c keys es st)) =
      Some (map (\<lambda>(raw, t1, t2, cmd). cmd) es)" if "wf_salt st" for st
    using es that
  proof (induction es arbitrary: st)
    case (Cons x es)
    obtain raw t1 t2 cmd where x: "x = (raw, t1, t2, cmd)"
      by (cases x)
    have "raw \<noteq> []" "wf_command cmd"
      using Cons.prems by (auto simp: x SALT_BYTES_def)
    then obtain wire st' where w: "encrypt c raw t1 t2 keys cmd st = (Ok wire, st')"
        "receive c keys (known_salt (salt st)) wire = Some (cmd, known_salt (salt st'))" "wf_salt st'"
      using receive_encrypt [OF c k] Cons.prems(2) by metis
    have "receive_all c keys (known_salt (salt st')) (fst (encrypt_all c keys es st')) =
        Some (map (\<lambda>(raw, t1, t2, cmd). cmd) es)"
      using Cons.prems w(3) by (intro Cons.IH) simp_all
    then show ?case
      by (simp add: x w case_prod_unfold Let_def)
  qed simp
  from this [of salt_new] show ?thesis
    by (simp add: salt_new_def known_salt_def wf_salt_new [unfolded salt_new_def])
qed

theorem encrypt_all_received_witness:
  "receive_all crypto_std (from_key_iv crypto_std (replicate 32 7) (replicate 16 9)) None
     (fst (encrypt_all crypto_std (from_key_iv crypto_std (replicate 32 7) (replicate 16 9))
        [(replicate 16 1, 100, 100, ''jdev/sys/getkey''), (replicate 16 2, 9000, 9000, ''jdev/sps/io'')]
        salt_new)) =
   Some [''jdev/sys/getkey'', ''jdev/sps/io'']"
proof -
  have "wf_command ''jdev/sys/getkey''" "wf_command ''jdev/sps/io''"
    unfolding wf_command_def by (rule conjI, rule utf8_valid_ascii_str, simp, simp)+
  then show ?thesis
    using encrypt_all_received [of crypto_std "from_key_iv crypto_std (replicate 32 7) (replicate 16 9)"
        "[(replicate 16 1, 100, 100, ''jdev/sys/getkey''), (replicate 16 2, 9000, 9000, ''jdev/sps/io'')]"]
    by (simp add: AES_KEY_SIZE_def IV_BYTES_def SALT_BYTES_def)
qed

text \<open>
  The salt state keeps its invariant under encryption: the salt is plain ASCII without a
  slash, and no salt is used more than \<open>SALT_MAX_USE_COUNT\<close> times after the command that
  announced it, so the counter never comes near wrapping. A rotation happens exactly when the
  count is used up or the salt is older than an hour.
\<close>

theorem salt_state_invariant:
  assumes "crypto_ok c" and "wf_salt st"
  shows "wf_salt (fill_salted_plaintext c raw t1 t2 cmd st) \<and>
         (salt st \<noteq> [] \<longrightarrow>
            (salt_used_count st = SALT_MAX_USE_COUNT \<or>
             saturating_sub t1 (salt_time_stamp st) > SALT_MAX_AGE_SECONDS \<longleftrightarrow>
             fill_salted_plaintext c raw t1 t2 cmd st =
               st\<lparr>salt := hex_encode c raw, salt_used_count := 0, salt_time_stamp := t2,
                  scratch := as_bytes (''nextSalt/'' @ salt st @ ''/'' @ hex_encode c raw @ ''/'' @ cmd) @ [0]\<rparr>))"
proof -
  have "salt_used_count st + 1 > SALT_MAX_USE_COUNT \<longleftrightarrow> salt_used_count st = SALT_MAX_USE_COUNT"
    using assms(2) unfolding wf_salt_def SALT_MAX_USE_COUNT_def by (simp add: unat_arith_simps) arith
  then have n: "fst (new_salt_needed t1 st) \<longleftrightarrow> salt_used_count st = SALT_MAX_USE_COUNT \<or>
      saturating_sub t1 (salt_time_stamp st) > SALT_MAX_AGE_SECONDS"
    by (simp add: new_salt_needed_def Let_def)
  have "fill_salted_plaintext c raw t1 t2 cmd st \<noteq>
      st\<lparr>salt := hex_encode c raw, salt_used_count := 0, salt_time_stamp := t2,
         scratch := as_bytes (''nextSalt/'' @ salt st @ ''/'' @ hex_encode c raw @ ''/'' @ cmd) @ [0]\<rparr>"
    if "salt st \<noteq> []" "\<not> fst (new_salt_needed t1 st)"
  proof -
    have "hd (scratch (fill_salted_plaintext c raw t1 t2 cmd st)) = char_byte (CHR ''s'')"
      using that by (simp add: fill_continue as_bytes_def)
    moreover have "char_byte (CHR ''s'') \<noteq> char_byte (CHR ''n'')"
      by (simp add: char_byte_def)
    ultimately show ?thesis
      by (auto simp: as_bytes_def)
  qed
  then show ?thesis
    using wf_fill [OF assms] fill_rotate [of st t1 c raw t2 cmd] n by blast
qed

theorem salt_state_invariant_witness:
  "wf_salt (fill_salted_plaintext crypto_std [1] 5 5 ''cmd'' salt_new)"
  using salt_state_invariant [of crypto_std salt_new "[1]" 5 5 "''cmd''"] by simp

text \<open>
  The run-copying percent encoder writes what a character-by-character encoder writes, after
  what the output already holds.
\<close>

theorem percent_encode_charwise:
  "percent_encode_base64 enc out = out @ concat (map pct_char enc)"
  by (rule percent_encode_eq)

text \<open>
  Decrypting what was encrypted with the same key gives the data without its trailing zero
  bytes, and data that is not whole blocks is refused.
\<close>

theorem aes_zerobyte_roundtrip:
  assumes "crypto_ok c" and "length key = AES_KEY_SIZE" and "length iv = IV_BYTES"
  shows "try_then (aes_encrypt_zerobyte c key iv data) (aes_decrypt_zerobyte c key iv) =
           Ok (strip_trailing_zeros data) \<and>
         (length ct mod 16 \<noteq> 0 \<longrightarrow>
            aes_decrypt_zerobyte c key iv ct = Err (Crypto ''ciphertext length not multiple of 16''))"
proof -
  let ?n = "(16 - length data mod 16) mod 16"
  let ?d = "data @ replicate ?n 0"
  have "length data mod 16 < 16"
    by simp
  then have dvd: "16 dvd length ?d"
    by (cases "length data mod 16 = 0") (auto simp: mod_eq_0_iff_dvd [symmetric] mod_add_eq, presburger)
  obtain e where e: "encrypt_padded c (aes256enc_new c key) iv ?d (length ?d) = Some e"
      "length e = length ?d" "decrypt_padded c key iv e = Some ?d"
    using crypto_okD(1) [OF assms(1) _ _ dvd] assms(2,3)
    unfolding AES_KEY_SIZE_def IV_BYTES_def by blast
  have "length e mod 16 = 0"
    using dvd unfolding e(2) dvd_eq_mod_eq_0 .
  then have "aes_decrypt_zerobyte c key iv e = Ok (strip_trailing_zeros data)"
    by (simp add: aes_decrypt_zerobyte_def e(3) strip_trailing_zeros_def trim_end_matches_append_replicate)
  moreover have "aes_encrypt_zerobyte c key iv data = Ok e"
    unfolding aes_encrypt_zerobyte_def Let_def e(1) by simp
  ultimately show ?thesis
    by (simp add: aes_decrypt_zerobyte_def)
qed

theorem aes_zerobyte_roundtrip_witness:
  "try_then (aes_encrypt_zerobyte crypto_std (replicate 32 5) (replicate 16 6) [1, 2, 0])
     (aes_decrypt_zerobyte crypto_std (replicate 32 5) (replicate 16 6)) = Ok [1, 2]"
  using aes_zerobyte_roundtrip [of crypto_std "replicate 32 5" "replicate 16 6" "[1, 2, 0]" "[]"]
  by (simp add: AES_KEY_SIZE_def IV_BYTES_def strip_trailing_zeros_def trim_end_matches_def)

end
