(* ===== verification/Lox_Pending.thy ===== *)
theory Lox_Pending
  imports Lox_Session
begin

text \<open>
  Request/response correlation (\<^verbatim>\<open>src/src/client/pending.rs\<close>): the queue of outstanding commands,
  how an answer is matched with the command at its head, deadlines, and the labels that may be
  logged. The sender half of a oneshot channel is the number of its waiter, and an operation
  that sends on it returns what it delivers; an \<^verbatim>\<open>Instant\<close> is a natural number.
\<close>

section \<open>Comparing commands\<close>

definition canonical :: "string \<Rightarrow> string" where
  "canonical cmd =
     (let s = trim_end_matches (CHR 0x00) (trim cmd);
          s = (case strip_prefix ''/'' s of Some r \<Rightarrow> r | None \<Rightarrow> s)
      in case strip_prefix ''j'' s of
           Some rest \<Rightarrow> if starts_with rest ''dev/'' then rest else s
         | None \<Rightarrow> s)"

text \<open>The loop of \<^verbatim>\<open>take_segments\<close>: \<open>i\<close> is the index of the segment.\<close>

fun segments_end :: "string list \<Rightarrow> nat \<Rightarrow> nat \<Rightarrow> nat" where
  "segments_end [] i stop = stop"
| "segments_end (seg # segs) i stop =
     segments_end segs (i + 1) ((if i > 0 then stop + 1 else stop) + length seg)"

definition take_segments :: "string \<Rightarrow> nat \<Rightarrow> string" where
  "take_segments s n =
     take (min (segments_end (take n (split_on (CHR ''/'') s)) 0 0) (length s)) s"

definition verb :: "string \<Rightarrow> string" where
  "verb cmd =
     (let s = canonical cmd;
          segments = (if starts_with s ''dev/'' then 3 else 1)
      in take_segments s segments)"

definition control_matches :: "string \<Rightarrow> string \<Rightarrow> bool" where
  "control_matches control plaintext_cmd \<longleftrightarrow> verb control = verb plaintext_cmd"

definition cmd_label :: "string \<Rightarrow> string" where
  "cmd_label cmd =
     (let segments = (if starts_with cmd ''jdev/'' \<or> starts_with cmd ''dev/'' then 3 else 1)
      in take_segments cmd segments)"

definition decode_control :: "crypto \<Rightarrow> string \<Rightarrow> SessionKeys \<Rightarrow> string option" where
  "decode_control c control keys =
     (if contains CMD_ENCRYPT control then
        case decrypt_control_response c keys control of
          Inl e \<Rightarrow> None
        | Inr plain \<Rightarrow> Some (strip_salt_prefix plain)
      else Some control)"

section \<open>The queue\<close>

type_synonym waiter = nat
type_synonym delivery = "waiter \<times> bytes result"

record PendingEntry =
  plaintext_cmd :: string
  wire_cmd :: string
  resp :: "waiter option"
  deadline :: nat

record Resolved =
  res_plaintext_cmd :: string
  res_resp :: "waiter option"
  matched :: bool
  actual :: "string option"

record PendingQueue =
  entries :: "PendingEntry list"
  mismatches :: u64
  unsolicited :: u64
  timeouts :: u64

definition queue_new :: PendingQueue where
  "queue_new = \<lparr>entries = [], mismatches = 0, unsolicited = 0, timeouts = 0\<rparr>"

definition queue_len :: "PendingQueue \<Rightarrow> nat" where
  "queue_len q = length (entries q)"

definition next_deadline :: "PendingQueue \<Rightarrow> nat option" where
  "next_deadline q = (case entries q of [] \<Rightarrow> None | e # es \<Rightarrow> Some (deadline e))"

definition push :: "string \<Rightarrow> string \<Rightarrow> waiter option \<Rightarrow> nat \<Rightarrow> PendingQueue \<Rightarrow> PendingQueue" where
  "push cmd wire r dl q =
     q\<lparr>entries := entries q @ [\<lparr>plaintext_cmd = cmd, wire_cmd = wire, resp = r, deadline = dl\<rparr>]\<rparr>"

definition resolve ::
  "crypto \<Rightarrow> string option \<Rightarrow> SessionKeys \<Rightarrow> PendingQueue \<Rightarrow> Resolved option \<times> PendingQueue" where
  "resolve c control keys q =
     (case entries q of
        [] \<Rightarrow> (None, q)
      | entry # es \<Rightarrow>
          let q = q\<lparr>entries := es\<rparr>;
              (ok, act, q) =
                (case control of
                   None \<Rightarrow> (True, None, q)
                 | Some ctrl \<Rightarrow>
                     if canonical ctrl = canonical (wire_cmd entry) then (True, None, q)
                     else let decoded = decode_control c ctrl keys;
                              ok = (case decoded of
                                      Some plain \<Rightarrow> control_matches plain (plaintext_cmd entry)
                                    | None \<Rightarrow> False);
                              q = (if ok then q else q\<lparr>mismatches := mismatches q + 1\<rparr>)
                          in (ok, decoded, q))
          in (Some \<lparr>res_plaintext_cmd = plaintext_cmd entry, res_resp = resp entry, matched = ok,
                    actual = act\<rparr>, q))"

definition note_unsolicited :: "PendingQueue \<Rightarrow> PendingQueue" where
  "note_unsolicited q = q\<lparr>unsolicited := unsolicited q + 1\<rparr>"

definition timeout_error :: "PendingEntry \<Rightarrow> error" where
  "timeout_error e = Timeout (''no response to '' @ cmd_label (plaintext_cmd e))"

fun expire_loop :: "nat \<Rightarrow> PendingEntry list \<Rightarrow> nat \<Rightarrow> delivery list \<Rightarrow> nat \<times> delivery list \<times> PendingEntry list" where
  "expire_loop now [] expired out = (expired, out, [])"
| "expire_loop now (front # es) expired out =
     (if deadline front > now then (expired, out, front # es)
      else expire_loop now es (expired + 1)
             (case resp front of Some w \<Rightarrow> out @ [(w, Err (timeout_error front))] | None \<Rightarrow> out))"

definition expire :: "nat \<Rightarrow> PendingQueue \<Rightarrow> nat \<times> delivery list \<times> PendingQueue" where
  "expire now q =
     (let (expired, out, es) = expire_loop now (entries q) 0 []
      in (expired, out, q\<lparr>entries := es, timeouts := timeouts q + word_of_nat expired\<rparr>))"

fun drain_loop :: "string \<Rightarrow> PendingEntry list \<Rightarrow> delivery list \<Rightarrow> delivery list" where
  "drain_loop reason [] out = out"
| "drain_loop reason (entry # es) out =
     drain_loop reason es
       (case resp entry of Some w \<Rightarrow> out @ [(w, Err (Closed reason))] | None \<Rightarrow> out)"

definition fail_all :: "string \<Rightarrow> PendingQueue \<Rightarrow> nat \<times> delivery list \<times> PendingQueue" where
  "fail_all reason q =
     (let drained = length (entries q)
      in (drained, drain_loop reason (entries q) [], q\<lparr>entries := []\<rparr>))"

section \<open>Segments\<close>

lemma segments_end_eq:
  "segments_end segs i stop = stop + sum_list (map length segs) + (if i > 0 then length segs else length segs - 1)"
  by (induction segs i stop rule: segments_end.induct) (auto split: if_splits)

text \<open>The string is its segments with slashes between them.\<close>

fun join :: "string list \<Rightarrow> string" where
  "join [] = []"
| "join [seg] = seg"
| "join (seg # segs) = seg @ CHR ''/'' # join segs"

lemma join_Cons: "segs \<noteq> [] \<Longrightarrow> join (seg # segs) = seg @ CHR ''/'' # join segs"
  by (cases segs) auto

lemma join_split: "join (split_on (CHR ''/'') s) = s"
proof (induction s)
  case (Cons x s)
  then show ?case
    using split_on_nonempty [of "CHR ''/''" s]
    by (cases "split_on (CHR ''/'') s") (auto simp: join_Cons, metis join.simps(2,3) list.exhaust append_Cons)
qed simp

lemma length_join: "length (join segs) = sum_list (map length segs) + (length segs - 1)"
  by (induction segs rule: join.induct) auto

lemma join_prefix: "prefix (join (take n segs)) (join segs)"
proof (induction segs arbitrary: n)
  case (Cons seg segs)
  show ?case
  proof (cases n)
    case (Suc m)
    show ?thesis
    proof (cases "segs = []")
      case False
      show ?thesis
      proof (cases "m = 0")
        case True
        then show ?thesis using Suc False by (simp add: join_Cons)
      next
        case m: False
        then have "take m segs \<noteq> []"
          using False by simp
        then show ?thesis
          using Suc False Cons.IH [of m] by (simp add: join_Cons)
      qed
    qed (simp add: Suc)
  qed simp
qed simp

lemma take_segments_join: "take_segments s n = join (take n (split_on (CHR ''/'') s))"
proof -
  let ?segs = "split_on (CHR ''/'') s"
  have "segments_end (take n ?segs) 0 0 = length (join (take n ?segs))"
    by (simp add: segments_end_eq length_join)
  moreover have p: "prefix (join (take n ?segs)) s"
    using join_prefix [of n ?segs] by (simp add: join_split)
  moreover have "take (length (join (take n ?segs))) s = join (take n ?segs)"
    using p by (metis append_eq_conv_conj prefix_def)
  ultimately show ?thesis
    using prefix_length_le [OF p] by (simp add: take_segments_def min_def)
qed

lemma split_on_slash_append:
  "split_on c (p @ c # s) = split_on c p @ split_on c s"
proof (induction p)
  case (Cons x p)
  then show ?case
    by (cases "split_on c p") auto
qed simp

text \<open>What follows enough segments does not matter.\<close>

lemma take_segments_cut:
  "n \<le> length (split_on (CHR ''/'') p) \<Longrightarrow> take_segments (p @ CHR ''/'' # s) n = take_segments p n"
  by (simp add: take_segments_join split_on_slash_append)

lemma starts_with_sep: "c \<notin> set w \<Longrightarrow> starts_with s (w @ [c]) \<longleftrightarrow> (\<exists>t. split_once c s = Some (w, t))"
  by (auto simp: starts_with_iff split_once_append dest: split_once_Some)

lemma starts_with_segment:
  assumes "c \<notin> set w"
  shows "starts_with (p @ c # r) (w @ [c]) \<longleftrightarrow> starts_with p (w @ [c]) \<or> p = w"
proof (cases "c \<in> set p")
  case True
  then obtain a b where p: "p = a @ c # b" "c \<notin> set a"
    by (meson split_list_first)
  then have "split_once c (p @ c # r) = Some (a, b @ c # r)" "split_once c p = Some (a, b)"
    by (simp_all add: split_once_append)
  moreover have "p \<noteq> w"
    using True assms by auto
  ultimately show ?thesis
    using assms by (simp add: starts_with_sep)
next
  case False
  then have "split_once c (p @ c # r) = Some (p, r)" "split_once c p = None"
    by (simp_all add: split_once_append split_once_None)
  with assms show ?thesis
    by (simp add: starts_with_sep)
qed

section \<open>Canonical commands\<close>

lemma canonical_graphic:
  assumes "s \<noteq> []" "ascii_graphic (hd s)" "ascii_graphic (last s)" "hd s \<noteq> CHR ''/''"
    and "\<not> starts_with s ''jdev/''"
  shows "canonical s = s" "canonical (CHR ''/'' # s) = s"
    and "starts_with s ''dev/'' \<Longrightarrow> canonical (CHR ''j'' # s) = s"
    and "starts_with s ''dev/'' \<Longrightarrow> canonical (''/j'' @ s) = s"
proof -
  have l: "last s \<noteq> CHR 0x00"
    using assms(3) by (auto simp: ascii_graphic_def)
  have t: "trim_end_matches (CHR 0x00) (trim x) = x"
    if "x = s \<or> x = CHR ''/'' # s \<or> x = CHR ''j'' # s \<or> x = ''/j'' @ s" for x
  proof -
    have "x \<noteq> []" "ascii_graphic (hd x)" "last x = last s"
      using that assms(1,2) by (auto simp: ascii_graphic_def)
    with assms(3) l show ?thesis
      by (simp add: trim_id trim_end_matches_id)
  qed
  have j: "(case strip_prefix ''j'' s of Some rest \<Rightarrow> if starts_with rest ''dev/'' then rest else s
            | None \<Rightarrow> s) = s"
    using assms(1,5) by (cases s) (auto split: if_splits)
  have sl: "(case strip_prefix ''/'' s of Some r \<Rightarrow> r | None \<Rightarrow> s) = s"
    using assms(1,4) by (cases s) auto
  have "trim_end_matches (CHR 0x00) (trim s) = s"
    by (rule t) simp
  then show "canonical s = s"
    unfolding canonical_def Let_def by (simp only: sl j)
  have "trim_end_matches (CHR 0x00) (trim (CHR ''/'' # s)) = CHR ''/'' # s"
    by (rule t) simp
  moreover have "(case strip_prefix ''/'' (CHR ''/'' # s) of Some r \<Rightarrow> r | None \<Rightarrow> CHR ''/'' # s) = s"
    by simp
  ultimately show "canonical (CHR ''/'' # s) = s"
    unfolding canonical_def Let_def by (simp only: j)
  show "starts_with s ''dev/'' \<Longrightarrow> canonical (CHR ''j'' # s) = s"
    by (simp add: canonical_def t Let_def)
  show "starts_with s ''dev/'' \<Longrightarrow> canonical (''/j'' @ s) = s"
    using t [of "''/j'' @ s"] by (simp add: canonical_def Let_def)
qed

section \<open>Queue operations as list operations\<close>

definition expired_entries :: "nat \<Rightarrow> PendingEntry list \<Rightarrow> PendingEntry list" where
  "expired_entries now es = takeWhile (\<lambda>e. deadline e \<le> now) es"

definition deliveries :: "(PendingEntry \<Rightarrow> error) \<Rightarrow> PendingEntry list \<Rightarrow> delivery list" where
  "deliveries err es = concat (map (\<lambda>e. case resp e of Some w \<Rightarrow> [(w, Err (err e))] | None \<Rightarrow> []) es)"

lemma expire_loop_eq:
  "expire_loop now es n out =
     (n + length (expired_entries now es), out @ deliveries timeout_error (expired_entries now es),
      dropWhile (\<lambda>e. deadline e \<le> now) es)"
  by (induction now es n out rule: expire_loop.induct)
    (auto simp: expired_entries_def deliveries_def not_less split: option.splits)

lemma drain_loop_eq: "drain_loop reason es out = out @ deliveries (\<lambda>e. Closed reason) es"
  by (induction reason es out rule: drain_loop.induct) (auto simp: deliveries_def split: option.splits)

lemma entries_resolve: "entries (snd (resolve c ctrl keys q)) = tl (entries q)"
  by (cases "entries q") (auto simp: resolve_def Let_def split: option.splits)

lemma resolve_Some:
  "entries q = e # es \<Longrightarrow> \<exists>ok act. fst (resolve c ctrl keys q) =
     Some \<lparr>res_plaintext_cmd = plaintext_cmd e, res_resp = resp e, matched = ok, actual = act\<rparr>"
  by (auto simp: resolve_def Let_def split: option.splits)

lemma resolve_None: "entries q = [] \<Longrightarrow> resolve c ctrl keys q = (None, q)"
  by (simp add: resolve_def)

text \<open>
  Deadlines are pushed in order, so the queue is sorted by deadline and expiring removes
  exactly the entries whose deadline has passed.
\<close>

definition deadlines_sorted :: "PendingQueue \<Rightarrow> bool" where
  "deadlines_sorted q \<longleftrightarrow> sorted (map deadline (entries q))"

lemma sorted_split_filter:
  assumes "sorted (map deadline es)"
  shows "takeWhile (\<lambda>e. deadline e \<le> now) es = filter (\<lambda>e. deadline e \<le> now) es"
    and "dropWhile (\<lambda>e. deadline e \<le> now) es = filter (\<lambda>e. deadline e > now) es"
proof -
  have "takeWhile (\<lambda>e. deadline e \<le> now) es = filter (\<lambda>e. deadline e \<le> now) es \<and>
      dropWhile (\<lambda>e. deadline e \<le> now) es = filter (\<lambda>e. deadline e > now) es"
    using assms
  proof (induction es)
    case (Cons e es)
    show ?case
    proof (cases "deadline e \<le> now")
      case True
      with Cons show ?thesis by simp
    next
      case False
      with Cons.prems have "\<forall>x\<in>set es. now < deadline x"
        by auto
      then have "filter (\<lambda>e. deadline e \<le> now) es = []" "filter (\<lambda>e. deadline e > now) es = es"
        by (auto simp: filter_empty_conv filter_id_conv)
      with False show ?thesis by simp
    qed
  qed simp
  then show "takeWhile (\<lambda>e. deadline e \<le> now) es = filter (\<lambda>e. deadline e \<le> now) es"
    "dropWhile (\<lambda>e. deadline e \<le> now) es = filter (\<lambda>e. deadline e > now) es"
    by simp_all
qed

section \<open>First in, first out\<close>

text \<open>
  The contract of a queue that is fed at one end and answered at the other, and what every
  client of it can rely on: over any interleaving the answers go to the entries in the order
  they were put in.
\<close>

datatype ('e, 'a) queue_op = Put 'e | Get 'a

fun run_ops ::
  "('e \<Rightarrow> 'q \<Rightarrow> 'q) \<Rightarrow> ('a \<Rightarrow> 'q \<Rightarrow> 'r option \<times> 'q) \<Rightarrow> ('e, 'a) queue_op list \<Rightarrow> 'q \<Rightarrow> 'r list \<times> 'q" where
  "run_ops put get [] q = ([], q)"
| "run_ops put get (Put e # ops) q = run_ops put get ops (put e q)"
| "run_ops put get (Get a # ops) q =
     (let (r, q) = get a q;
          (rs, q) = run_ops put get ops q
      in ((case r of Some x \<Rightarrow> x # rs | None \<Rightarrow> rs), q))"

fun puts :: "('e, 'a) queue_op list \<Rightarrow> 'e list" where
  "puts [] = []"
| "puts (Put e # ops) = e # puts ops"
| "puts (Get a # ops) = puts ops"

locale fifo_queue =
  fixes items :: "'q \<Rightarrow> 'e list"
    and put :: "'e \<Rightarrow> 'q \<Rightarrow> 'q"
    and get :: "'a \<Rightarrow> 'q \<Rightarrow> 'r option \<times> 'q"
    and view :: "'r \<Rightarrow> 'k"
    and key :: "'e \<Rightarrow> 'k"
  assumes items_put: "items (put e q) = items q @ [e]"
    and get_empty: "items q = [] \<Longrightarrow> get a q = (None, q)"
    and get_head: "items q = e # es \<Longrightarrow>
           \<exists>r q'. get a q = (Some r, q') \<and> view r = key e \<and> items q' = es"
begin

lemma run_fifo:
  "map view (fst (run_ops put get ops q)) @ map key (items (snd (run_ops put get ops q))) =
     map key (items q @ puts ops)"
proof (induction ops arbitrary: q)
  case (Cons x ops)
  show ?case
  proof (cases x)
    case (Put e)
    with Cons.IH [of "put e q"] show ?thesis
      by (simp add: items_put)
  next
    case (Get a)
    show ?thesis
    proof (cases "items q")
      case Nil
      with Get Cons.IH [of q] show ?thesis
        by (simp add: get_empty case_prod_unfold Let_def)
    next
      case q: (Cons e es)
      then obtain r q' where "get a q = (Some r, q')" "view r = key e" "items q' = es"
        using get_head by blast
      with Get q Cons.IH [of q'] show ?thesis
        by (simp add: case_prod_unfold Let_def)
    qed
  qed
qed simp

end

definition push_entry :: "PendingEntry \<Rightarrow> PendingQueue \<Rightarrow> PendingQueue" where
  "push_entry e = push (plaintext_cmd e) (wire_cmd e) (resp e) (deadline e)"

lemma entries_push_entry: "entries (push_entry e q) = entries q @ [e]"
  by (simp add: push_entry_def push_def)

interpretation pending: fifo_queue entries push_entry "\<lambda>ctrl. resolve c ctrl keys"
    "\<lambda>r. (res_plaintext_cmd r, res_resp r)" "\<lambda>e. (plaintext_cmd e, resp e)"
  for c keys
proof
  show "entries q = e # es \<Longrightarrow>
      \<exists>r q'. resolve c a keys q = (Some r, q') \<and>
        (res_plaintext_cmd r, res_resp r) = (plaintext_cmd e, resp e) \<and> entries q' = es" for q e es a
    using resolve_Some [of q e es c a keys] entries_resolve [of c a keys q]
    by (cases "resolve c a keys q") auto
qed (simp_all add: entries_push_entry resolve_None)

section \<open>Every waiter is answered once\<close>

text \<open>
  The queue together with everything it has delivered and every waiter it was given. An answer
  goes to the waiter of the entry it resolves.
\<close>

record pending_sys =
  ps_queue :: PendingQueue
  ps_log :: "delivery list"
  ps_issued :: "waiter list"

definition ps_init :: pending_sys where
  "ps_init = \<lparr>ps_queue = queue_new, ps_log = [], ps_issued = []\<rparr>"

inductive ps_step :: "crypto \<Rightarrow> SessionKeys \<Rightarrow> pending_sys \<Rightarrow> pending_sys \<Rightarrow> bool" for c keys where
  ps_push: "ps_step c keys s
      (s\<lparr>ps_queue := push cmd wire r dl (ps_queue s), ps_issued := ps_issued s @ (case r of Some w \<Rightarrow> [w] | None \<Rightarrow> [])\<rparr>)"
    if "\<And>w. r = Some w \<Longrightarrow> w \<notin> set (ps_issued s)"
| ps_answer: "ps_step c keys s
      (s\<lparr>ps_queue := q, ps_log := ps_log s @ (case res_resp r of Some w \<Rightarrow> [(w, Ok payload)] | None \<Rightarrow> [])\<rparr>)"
    if "resolve c ctrl keys (ps_queue s) = (Some r, q)"
| ps_unsolicited: "ps_step c keys s (s\<lparr>ps_queue := note_unsolicited q\<rparr>)"
    if "resolve c ctrl keys (ps_queue s) = (None, q)"
| ps_expire: "ps_step c keys s (s\<lparr>ps_queue := q, ps_log := ps_log s @ out\<rparr>)"
    if "expire now (ps_queue s) = (n, out, q)"
| ps_fail: "ps_step c keys s (s\<lparr>ps_queue := q, ps_log := ps_log s @ out\<rparr>)"
    if "fail_all reason (ps_queue s) = (n, out, q)"

inductive ps_reach :: "crypto \<Rightarrow> SessionKeys \<Rightarrow> pending_sys \<Rightarrow> bool" for c keys where
  ps_reach_init: "ps_reach c keys ps_init"
| ps_reach_step: "ps_reach c keys s \<Longrightarrow> ps_step c keys s t \<Longrightarrow> ps_reach c keys t"

definition waiters :: "PendingEntry list \<Rightarrow> waiter list" where
  "waiters es = concat (map (\<lambda>e. case resp e of Some w \<Rightarrow> [w] | None \<Rightarrow> []) es)"

lemma waiters_simps [simp]:
  "waiters [] = []" "waiters (e # es) = (case resp e of Some w \<Rightarrow> [w] | None \<Rightarrow> []) @ waiters es"
  "waiters (es @ fs) = waiters es @ waiters fs"
  by (simp_all add: waiters_def)

lemma fst_deliveries: "map fst (deliveries err es) = waiters es"
  by (induction es) (auto simp: deliveries_def waiters_def split: option.splits)

text \<open>The invariant: delivered and queued waiters together are the issued ones, in order.\<close>

definition ps_inv :: "pending_sys \<Rightarrow> bool" where
  "ps_inv s \<longleftrightarrow> map fst (ps_log s) @ waiters (entries (ps_queue s)) = ps_issued s \<and> distinct (ps_issued s)"

lemma ps_inv_step:
  assumes "ps_step c keys s t" and "ps_inv s"
  shows "ps_inv t"
  using assms
proof (induction rule: ps_step.induct)
  case (ps_push r s cmd wire dl)
  then show ?case
    by (auto simp: ps_inv_def push_def split: option.splits)
next
  case (ps_answer ctrl s r q payload)
  then obtain e es where e: "entries (ps_queue s) = e # es"
    using resolve_None [of "ps_queue s" c ctrl keys] by (cases "entries (ps_queue s)") auto
  then have "res_resp r = resp e" "entries q = es"
    using ps_answer.hyps resolve_Some [OF e, of c ctrl keys] entries_resolve [of c ctrl keys "ps_queue s"]
    by auto
  with ps_answer.prems e show ?case
    by (auto simp: ps_inv_def split: option.splits)
next
  case (ps_unsolicited ctrl s q)
  then have "q = ps_queue s"
    using resolve_Some [of "ps_queue s" _ _ c ctrl keys] resolve_None [of "ps_queue s" c ctrl keys]
    by (cases "entries (ps_queue s)") fastforce+
  with ps_unsolicited.prems show ?case
    by (simp add: ps_inv_def note_unsolicited_def)
next
  case (ps_expire now s n out q)
  let ?es = "entries (ps_queue s)"
  have "out = deliveries timeout_error (expired_entries now ?es)"
    "entries q = dropWhile (\<lambda>e. deadline e \<le> now) ?es"
    using ps_expire.hyps by (auto simp: expire_def expire_loop_eq)
  moreover have "waiters (expired_entries now ?es) @ waiters (dropWhile (\<lambda>e. deadline e \<le> now) ?es) = waiters ?es"
    unfolding expired_entries_def waiters_simps(3) [symmetric] by simp
  ultimately show ?case
    using ps_expire.prems by (simp add: ps_inv_def fst_deliveries)
next
  case (ps_fail reason s n out q)
  then show ?case
    by (auto simp: ps_inv_def fail_all_def drain_loop_eq fst_deliveries Let_def)
qed

lemma ps_inv_reach: "ps_reach c keys s \<Longrightarrow> ps_inv s"
proof (induction rule: ps_reach.induct)
  case ps_reach_init
  then show ?case by (simp add: ps_inv_def ps_init_def queue_new_def)
next
  case (ps_reach_step s t)
  then show ?case by (blast intro: ps_inv_step)
qed

section \<open>Properties\<close>

text \<open>
  C12: Answers are correlated first in, first out: over any interleaving of pushed commands and
  incoming answers, the resolved entries followed by those still queued are exactly the queue
  at the start followed by the pushed commands, each with its own waiter.
\<close>

theorem pending_fifo:
  "map (\<lambda>r. (res_plaintext_cmd r, res_resp r)) (fst (run_ops push_entry (\<lambda>ctrl. resolve c ctrl keys) ops q)) @
   map (\<lambda>e. (plaintext_cmd e, resp e)) (entries (snd (run_ops push_entry (\<lambda>ctrl. resolve c ctrl keys) ops q))) =
     map (\<lambda>e. (plaintext_cmd e, resp e)) (entries q @ puts ops)"
  by (rule pending.run_fifo)

text \<open>
  In every reachable state of the queue no waiter has been answered twice, and every waiter
  that was handed in either still waits or has been answered; once the session has failed
  every entry, none still waits.
\<close>

theorem waiters_answered_once:
  assumes "ps_reach c keys s"
  shows "distinct (map fst (ps_log s)) \<and>
         set (ps_issued s) = fst ` set (ps_log s) \<union> set (waiters (entries (ps_queue s))) \<and>
         fst ` set (ps_log s) \<inter> set (waiters (entries (ps_queue s))) = {} \<and>
         (let (n, out, q) = fail_all reason (ps_queue s)
          in entries q = [] \<and> n = queue_len (ps_queue s) \<and>
             set (ps_issued s) = fst ` set (ps_log s @ out))"
proof -
  have i: "map fst (ps_log s) @ waiters (entries (ps_queue s)) = ps_issued s" "distinct (ps_issued s)"
    using ps_inv_reach [OF assms] by (simp_all add: ps_inv_def)
  then have "distinct (map fst (ps_log s) @ waiters (entries (ps_queue s)))"
    by simp
  moreover have "fst ` set (deliveries (\<lambda>e. Closed reason) (entries (ps_queue s))) =
      set (waiters (entries (ps_queue s)))"
    by (metis fst_deliveries set_map)
  ultimately show ?thesis
    using i(1) [symmetric]
    by (simp add: fail_all_def drain_loop_eq queue_len_def image_Un)
qed

theorem waiters_answered_once_witness:
  "\<exists>s. ps_reach crypto_std (from_key_iv crypto_std [] []) s \<and> waiters (entries (ps_queue s)) = [7] \<and> distinct (map fst (ps_log s))"
proof -
  let ?k = "from_key_iv crypto_std [] []"
  let ?s = "ps_init\<lparr>ps_queue := push ''jdev/x'' ''w'' (Some 7) 5 queue_new, ps_issued := [7]\<rparr>"
  have "ps_step crypto_std ?k ps_init ?s"
    using ps_push [of "Some 7" ps_init crypto_std ?k "''jdev/x''" "''w''" 5] by (simp add: ps_init_def)
  then have "ps_reach crypto_std ?k ?s"
    by (rule ps_reach_step [OF ps_reach_init])
  then show ?thesis
    using waiters_answered_once [of crypto_std ?k ?s] by (intro exI [of _ ?s]) (simp add: push_def queue_new_def)
qed

text \<open>
  C26: Expiring the queue removes exactly the entries whose deadline has passed and keeps the
  others in order, tells each waiter of a removed entry which command timed out, and counts
  the removed entries; deadlines stay sorted.
\<close>

theorem expire_exact:
  assumes "deadlines_sorted q"
  shows "expire now q =
     (let gone = filter (\<lambda>e. deadline e \<le> now) (entries q)
      in (length gone, deliveries timeout_error gone,
          q\<lparr>entries := filter (\<lambda>e. deadline e > now) (entries q),
             timeouts := timeouts q + word_of_nat (length gone)\<rparr>)) \<and>
     deadlines_sorted (snd (snd (expire now q)))"
proof -
  have "sorted (map deadline (entries q))"
    using assms by (simp add: deadlines_sorted_def)
  note f = sorted_split_filter [OF this, of now]
  have "sorted (map deadline (filter (\<lambda>e. deadline e > now) (entries q)))"
    using assms unfolding deadlines_sorted_def by (rule sorted_filter)
  then show ?thesis
    by (simp add: expire_def expire_loop_eq expired_entries_def f deadlines_sorted_def Let_def)
qed

theorem expire_exact_witness:
  "fst (expire 6 (push ''b'' ''w2'' (Some 2) 9 (push ''jdev/a'' ''w1'' (Some 1) 5 queue_new))) = 1"
  using expire_exact [of "push ''b'' ''w2'' (Some 2) 9 (push ''jdev/a'' ''w1'' (Some 1) 5 queue_new)" 6]
  by (simp add: push_def queue_new_def deadlines_sorted_def)



text \<open>
  A label never shows what follows the verb: two commands that agree up to a slash after the
  verb have the same label, whatever secrets follow it.
\<close>

theorem cmd_label_hides_arguments:
  assumes "length (split_on (CHR ''/'') p) \<ge> (if starts_with p ''jdev/'' \<or> starts_with p ''dev/'' then 3 else 1)"
    and "\<not> starts_with p ''jdev/'' \<longrightarrow> \<not> starts_with p ''dev/'' \<longrightarrow> p \<noteq> ''jdev'' \<and> p \<noteq> ''dev''"
  shows "cmd_label (p @ CHR ''/'' # secret) = cmd_label p"
proof -
  have "starts_with (p @ CHR ''/'' # secret) (w @ ''/'') \<longleftrightarrow> starts_with p (w @ ''/'') \<or> p = w"
    if "CHR ''/'' \<notin> set w" for w
    using that starts_with_segment [of "CHR ''/''" w p secret] by simp
  from this [of "''jdev''"] this [of "''dev''"] show ?thesis
    using assms unfolding cmd_label_def Let_def by (auto simp: take_segments_cut)
qed

theorem cmd_label_hides_arguments_witness:
  "cmd_label (''authwithtoken'' @ CHR ''/'' # ''0123abcd/user'') = ''authwithtoken''"
proof -
  have "cmd_label ''authwithtoken'' = ''authwithtoken''"
    by (simp add: cmd_label_def take_segments_join)
  then show ?thesis
    using cmd_label_hides_arguments [of "''authwithtoken''" "''0123abcd/user''"] by simp
qed

end
