(* ===== verification/Lox_Handler.thy ===== *)
theory Lox_Handler
  imports Lox_Header Lox_Value Lox_Text Lox_Daytimer Lox_Weather
begin

text \<open>
  The consumer's handler (\<^verbatim>\<open>src/src/client/handler.rs\<close>): the callbacks, the adapter that sends
  owned events into a channel, and the guard that absorbs a panic of consumer code; with the
  fan-out of an event table into callbacks (\<^verbatim>\<open>dispatch_event\<close> of \<^verbatim>\<open>src/src/client/reader.rs\<close>).
  A callback is a state transformer that also says whether it returned or panicked.
\<close>

section \<open>Events and callbacks\<close>

datatype ClientEvent = EvConnected | EvReconnected | EvConnectionClosed "u16 option" | EvClosed

type_synonym 'h callback = "'h \<Rightarrow> bool \<times> 'h"

record 'h LoxHandler =
  on_value :: "LoxoneUuid \<Rightarrow> f64 \<Rightarrow> 'h callback"
  on_text :: "LoxoneUuid \<Rightarrow> LoxoneUuid \<Rightarrow> bytes \<Rightarrow> 'h callback"
  on_daytimer :: "DaytimerEvent \<Rightarrow> 'h callback"
  on_weather :: "WeatherEvent \<Rightarrow> 'h callback"
  on_json :: "bytes \<Rightarrow> 'h callback"
  on_binary :: "bytes \<Rightarrow> 'h callback"
  on_keepalive :: "'h callback"
  on_event :: "ClientEvent \<Rightarrow> 'h callback"
  on_raw_payload :: "u8 \<Rightarrow> bytes \<Rightarrow> 'h callback"

definition quiet :: "'h callback" where
  "quiet h = (True, h)"

text \<open>The callbacks of the trait that an implementation does not override.\<close>

definition default_handler :: "'h LoxHandler" where
  "default_handler =
     \<lparr>on_value = (\<lambda>u v. quiet), on_text = (\<lambda>u i t. quiet), on_daytimer = (\<lambda>e. quiet),
      on_weather = (\<lambda>e. quiet), on_json = (\<lambda>p. quiet), on_binary = (\<lambda>p. quiet),
      on_keepalive = quiet, on_event = (\<lambda>e. quiet), on_raw_payload = (\<lambda>t p. quiet)\<rparr>"

text \<open>A call after a panic does not happen: the unwinding has left the enclosing code.\<close>

fun chain :: "'h callback \<Rightarrow> bool \<times> 'h \<Rightarrow> bool \<times> 'h" where
  "chain f (True, h) = f h"
| "chain f (False, h) = (False, h)"

section \<open>The channel adapter\<close>

datatype OwnedEvent =
    OwnedValue LoxoneUuid f64
  | OwnedText LoxoneUuid LoxoneUuid bytes
  | OwnedJson bytes
  | OwnedBinary bytes
  | OwnedKeepalive
  | OwnedLifecycle ClientEvent

record ChannelHandler =
  ch_queue :: "OwnedEvent list"
  ch_capacity :: nat
  ch_open :: bool
  ch_dropped :: u64

definition channel_new :: "nat \<Rightarrow> ChannelHandler" where
  "channel_new buffer = \<lparr>ch_queue = [], ch_capacity = buffer, ch_open = True, ch_dropped = 0\<rparr>"

text \<open>\<^verbatim>\<open>mpsc::Sender::try_send\<close> fails when the queue is full or the receiver is gone.\<close>

definition ch_send :: "OwnedEvent \<Rightarrow> ChannelHandler \<Rightarrow> ChannelHandler" where
  "ch_send event ch =
     (if ch_open ch \<and> length (ch_queue ch) < ch_capacity ch
      then ch\<lparr>ch_queue := ch_queue ch @ [event]\<rparr>
      else ch\<lparr>ch_dropped := ch_dropped ch + 1\<rparr>)"

definition channel_handler :: "ChannelHandler LoxHandler" where
  "channel_handler =
     default_handler
       \<lparr>on_value := (\<lambda>uuid v ch. (True, ch_send (OwnedValue uuid v) ch)),
        on_text := (\<lambda>uuid icon t ch. (True, ch_send (OwnedText uuid icon t) ch)),
        on_json := (\<lambda>payload ch. (True, ch_send (OwnedJson payload) ch)),
        on_binary := (\<lambda>payload ch. (True, ch_send (OwnedBinary payload) ch)),
        on_keepalive := (\<lambda>ch. (True, ch_send OwnedKeepalive ch)),
        on_event := (\<lambda>event ch. (True, ch_send (OwnedLifecycle event) ch))\<rparr>"

section \<open>The guard\<close>

record 'h HandlerGuard =
  guarded :: 'h
  panicked :: bool

definition guard_new :: "'h \<Rightarrow> 'h HandlerGuard" where
  "guard_new h = \<lparr>guarded = h, panicked = False\<rparr>"

text \<open>The guarded code answers its result, or \<^const>\<open>None\<close> when it panicked.\<close>

definition guard :: "('h \<Rightarrow> 'r option \<times> 'h) \<Rightarrow> 'h HandlerGuard \<Rightarrow> 'r option \<times> 'h HandlerGuard" where
  "guard f g =
     (if panicked g then (None, g)
      else case f (guarded g) of
        (Some r, h) \<Rightarrow> (Some r, g\<lparr>guarded := h\<rparr>)
      | (None, h) \<Rightarrow> (None, g\<lparr>guarded := h, panicked := True\<rparr>))"

definition guard_or_fail :: "('h \<Rightarrow> 'r option \<times> 'h) \<Rightarrow> 'h HandlerGuard \<Rightarrow> 'r result \<times> 'h HandlerGuard" where
  "guard_or_fail f g = (let (r, g) = guard f g in (ok_or HandlerPanic r, g))"

definition lifecycle :: "'h LoxHandler \<Rightarrow> ClientEvent \<Rightarrow> 'h HandlerGuard \<Rightarrow> 'h HandlerGuard" where
  "lifecycle hnd event g =
     (case on_event hnd event (guarded g) of
        (True, h) \<Rightarrow> g\<lparr>guarded := h\<rparr>
      | (False, h) \<Rightarrow> g\<lparr>guarded := h, panicked := True\<rparr>)"

text \<open>A single callback as guarded code.\<close>

definition call :: "'h callback \<Rightarrow> 'h \<Rightarrow> unit option \<times> 'h" where
  "call f h = (case f h of (True, h) \<Rightarrow> (Some (), h) | (False, h) \<Rightarrow> (None, h))"

section \<open>Event tables\<close>

text \<open>
  Whether the message was an event, and the state of the calls after it; \<^const>\<open>None\<close> would be
  a walk that does not end.
\<close>

definition dispatch_event ::
  "zerocopy \<Rightarrow> 'h LoxHandler \<Rightarrow> u8 \<Rightarrow> bytes \<Rightarrow> bool \<times> 'h \<Rightarrow> (bool \<times> (bool \<times> 'h)) option" where
  "dispatch_event zc hnd msg_type payload st =
     (case from_u8 msg_type of
        Some BinaryFile \<Rightarrow> Some (True, chain (on_binary hnd payload) st)
      | Some ValueStates \<Rightarrow> Some (True, walk_values zc payload (\<lambda>uuid v. chain (on_value hnd uuid v)) st)
      | Some TextStates \<Rightarrow> Some (True, walk_texts zc payload (\<lambda>uuid icon t. chain (on_text hnd uuid icon t)) st)
      | Some DaytimerStates \<Rightarrow>
          map_option (Pair True) (walk_daytimers zc payload (\<lambda>ev. chain (on_daytimer hnd ev)) st)
      | Some WeatherStates \<Rightarrow>
          map_option (Pair True) (walk_weather zc payload (\<lambda>ev. chain (on_weather hnd ev)) st)
      | _ \<Rightarrow> Some (False, st))"

section \<open>Lemmas\<close>

text \<open>The callbacks a message stands for, in order.\<close>

definition event_calls :: "'h LoxHandler \<Rightarrow> u8 \<Rightarrow> bytes \<Rightarrow> 'h callback list" where
  "event_calls hnd msg_type payload =
     (case from_u8 msg_type of
        Some BinaryFile \<Rightarrow> [on_binary hnd payload]
      | Some ValueStates \<Rightarrow> map (\<lambda>(u, v). on_value hnd u v) (value_events payload)
      | Some TextStates \<Rightarrow> map (\<lambda>(u, i, t). on_text hnd u i t) (text_events payload)
      | Some DaytimerStates \<Rightarrow> map (on_daytimer hnd) (daytimer_events payload)
      | Some WeatherStates \<Rightarrow> map (on_weather hnd) (weather_events payload)
      | _ \<Rightarrow> [])"

definition is_event_type :: "u8 \<Rightarrow> bool" where
  "is_event_type t \<longleftrightarrow> t \<in> {1, 2, 3, 4, 7}"

lemma is_event_type_from_u8:
  "is_event_type t \<longleftrightarrow>
     from_u8 t \<in> Some ` {BinaryFile, ValueStates, TextStates, DaytimerStates, WeatherStates}"
  by (auto simp: is_event_type_def image_iff from_u8_iff dest: sym)

lemma dispatch_event_calls:
  assumes "zerocopy_ok zc"
  shows "dispatch_event zc hnd t p st = Some (is_event_type t, fold chain (event_calls hnd t p) st)"
  by (auto simp: dispatch_event_def event_calls_def is_event_type_from_u8 assms walk_values_events
      walk_texts_events walk_daytimers_events walk_weather_events fold_map comp_def case_prod_unfold
      split: option.split MessageType.split)

lemma fold_chain_False: "fold chain fs (False, h) = (False, h)"
  by (induction fs) auto

lemma guard_panicked:
  "panicked g \<Longrightarrow> guard f g = (None, g)" "panicked g \<Longrightarrow> guard_or_fail f g = (Err HandlerPanic, g)"
  by (simp_all add: guard_def guard_or_fail_def)

lemma fold_chain_first_panic:
  assumes "fold chain fs (True, h) = (False, h')"
  obtains pre f post k where "fs = pre @ f # post" "fold chain pre (True, h) = (True, k)" "f k = (False, h')"
proof -
  have "\<exists>pre f post k. fs = pre @ f # post \<and> fold chain pre (True, h) = (True, k) \<and> f k = (False, h')"
    using assms
  proof (induction fs arbitrary: h)
    case (Cons f fs)
    show ?case
    proof (cases "f h")
      case (Pair b k)
      show ?thesis
      proof (cases b)
        case True
        with Cons.prems Pair have "fold chain fs (True, k) = (False, h')"
          by simp
        with Cons.IH obtain pre f' post k' where "fs = pre @ f' # post"
          "fold chain pre (True, k) = (True, k')" "f' k' = (False, h')"
          by blast
        then show ?thesis
          using Pair True by (intro exI [of _ "f # pre"] exI [of _ f'] exI [of _ post] exI [of _ k']) simp
      next
        case False
        with Cons.prems Pair show ?thesis
          by (intro exI [of _ "[]"] exI [of _ f] exI [of _ fs] exI [of _ h]) (simp add: fold_chain_False)
      qed
    qed
  qed simp
  then show ?thesis
    using that by blast
qed

section \<open>The channel over time\<close>

datatype chan_op = Offer OwnedEvent | Receive | Hangup

record chan_sys =
  cs_handler :: ChannelHandler
  cs_received :: "OwnedEvent list"
  cs_offered :: "OwnedEvent list"

fun chan_step :: "chan_op \<Rightarrow> chan_sys \<Rightarrow> chan_sys" where
  "chan_step (Offer e) s = s\<lparr>cs_handler := ch_send e (cs_handler s), cs_offered := cs_offered s @ [e]\<rparr>"
| "chan_step Receive s =
     (case ch_queue (cs_handler s) of
        [] \<Rightarrow> s
      | e # q \<Rightarrow> s\<lparr>cs_handler := (cs_handler s)\<lparr>ch_queue := q\<rparr>, cs_received := cs_received s @ [e]\<rparr>)"
| "chan_step Hangup s = s\<lparr>cs_handler := (cs_handler s)\<lparr>ch_open := False\<rparr>\<rparr>"

definition chan_inv :: "nat \<Rightarrow> chan_sys \<Rightarrow> bool" where
  "chan_inv n s \<longleftrightarrow>
     (let kept = cs_received s @ ch_queue (cs_handler s)
      in subseq kept (cs_offered s) \<and> ch_capacity (cs_handler s) = n \<and>
         length (ch_queue (cs_handler s)) \<le> n \<and>
         ch_dropped (cs_handler s) = word_of_nat (length (cs_offered s) - length kept))"

lemma chan_inv_step:
  assumes "chan_inv n s"
  shows "chan_inv n (chan_step op s)"
proof (cases op)
  case (Offer e)
  let ?kept = "cs_received s @ ch_queue (cs_handler s)"
  have k: "subseq ?kept (cs_offered s)" "length ?kept \<le> length (cs_offered s)"
    using assms by (auto simp: chan_inv_def Let_def dest: list_emb_length)
  have "subseq (?kept @ [e]) (cs_offered s @ [e])"
    using k(1) by (rule list_emb_append_mono) simp
  moreover have "subseq ?kept (cs_offered s @ [e])"
    using k(1) by (rule list_emb_prefix)
  ultimately show ?thesis
    using assms k Offer
    by (auto simp: chan_inv_def Let_def ch_send_def Suc_diff_le)
next
  case Receive
  then show ?thesis
    using assms by (auto simp: chan_inv_def Let_def split: list.split)
next
  case Hangup
  then show ?thesis
    using assms by (simp add: chan_inv_def Let_def)
qed

section \<open>Properties\<close>

text \<open>
  C32: Handing a message to the handler always returns, says whether the message was an event,
  and makes exactly the calls of the message in the order of its records; after a callback
  panics none of the later ones is made.
\<close>

theorem dispatch_event_exact:
  assumes "zerocopy_ok zc"
  shows "\<exists>ok h'. dispatch_event zc hnd t p (True, h) = Some (is_event_type t, ok, h') \<and>
    (ok, h') = fold chain (event_calls hnd t p) (True, h) \<and>
    (ok \<or> (\<exists>pre f post k. event_calls hnd t p = pre @ f # post \<and>
       fold chain pre (True, h) = (True, k) \<and> f k = (False, h')))"
proof -
  obtain ok h' where r: "fold chain (event_calls hnd t p) (True, h) = (ok, h')"
    by fastforce
  then have "ok \<or> (\<exists>pre f post k. event_calls hnd t p = pre @ f # post \<and>
       fold chain pre (True, h) = (True, k) \<and> f k = (False, h'))"
    by (cases ok) (simp, metis fold_chain_first_panic)
  then show ?thesis
    using r by (auto simp: dispatch_event_calls [OF assms])
qed

theorem dispatch_event_exact_witness:
  "dispatch_event zc_layout (default_handler\<lparr>on_binary := (\<lambda>p h. (False, p @ h))\<rparr>) 1 [1, 2] (True, [9]) =
     Some (True, False, [1, 2, 9])"
  using dispatch_event_exact [of zc_layout "default_handler\<lparr>on_binary := (\<lambda>p h. (False, p @ h))\<rparr>" 1 "[1, 2]" "[9]"]
  by (auto simp: is_event_type_def event_calls_def from_u8_def)

text \<open>
  The channel adapter never loses an event silently: over any interleaving of events,
  receptions and the end of the receiver, what was received or is still queued is the
  sequence of offered events with some left out, the queue keeps to its depth, and the drop
  counter is the number left out.
\<close>

theorem channel_counts_losses:
  "let s = fold chan_step ops \<lparr>cs_handler = channel_new n, cs_received = [], cs_offered = []\<rparr>;
       kept = cs_received s @ ch_queue (cs_handler s)
   in subseq kept (cs_offered s) \<and> length (ch_queue (cs_handler s)) \<le> n \<and>
      ch_dropped (cs_handler s) = word_of_nat (length (cs_offered s) - length kept)"
proof -
  have "chan_inv n (fold chan_step ops \<lparr>cs_handler = channel_new n, cs_received = [], cs_offered = []\<rparr>)"
    by (rule fold_invariant [where Q = "\<lambda>_. True"])
       (auto simp: chan_inv_step, simp add: chan_inv_def channel_new_def)
  then show ?thesis
    by (simp add: chan_inv_def Let_def)
qed

text \<open>
  Once consumer code has panicked it is never entered again except for lifecycle events:
  any sequence of guarded calls leaves the handler as it is and reports the panic.
\<close>

theorem guard_after_panic:
  assumes "guard_or_fail f g = (Err e, g')"
  shows "e = HandlerPanic \<and> panicked g' \<and> guard_or_fail f' g' = (Err HandlerPanic, g') \<and>
    is_terminal e \<and> panicked (lifecycle hnd ev g')"
proof -
  have "panicked g'" "e = HandlerPanic"
    using assms by (auto simp: guard_or_fail_def guard_def split: if_splits option.splits prod.splits)
  then show ?thesis
    by (auto simp: guard_panicked is_terminal_iff lifecycle_def split: prod.split bool.split)
qed

theorem guard_after_panic_witness:
  "panicked (snd (guard_or_fail (\<lambda>h. (None :: unit option, h + 1)) (guard_new (0 :: nat)))) \<and>
   is_terminal HandlerPanic"
  using guard_after_panic [of "\<lambda>h. (None :: unit option, h + 1)" "guard_new (0 :: nat)" HandlerPanic
      "\<lparr>guarded = 1, panicked = True\<rparr>" "\<lambda>h. (Some (), h)" default_handler EvClosed]
  by (simp add: guard_or_fail_def guard_def guard_new_def)

end
