(* ===== verification/Lox_Hash.thy ===== *)
theory Lox_Hash
  imports Lox_Session
begin

text \<open>
  Credential, token and visualisation hashes (\<^verbatim>\<open>src/src/crypto/hash.rs\<close>) and the RSA wrap of
  the session key (\<^verbatim>\<open>src/src/crypto/rsa_key.rs\<close>). The JSON reader \<^verbatim>\<open>sonic_rs\<close> is a parameter,
  a record of the functions the client calls; the hash and RSA crates are the parameter of
  type \<^typ>\<open>crypto\<close>. A panic of \<open>normalize_public_key_pem\<close> is the value \<^const>\<open>None\<close>.
\<close>

section \<open>The JSON reader\<close>

record 'v json =
  json_from_slice :: "bytes \<Rightarrow> string + 'v"
  json_from_str :: "string \<Rightarrow> string + 'v"
  json_get :: "'v \<Rightarrow> string \<Rightarrow> 'v option"
  json_as_str :: "'v \<Rightarrow> string option"
  json_as_i64 :: "'v \<Rightarrow> i64 option"
  json_as_u64 :: "'v \<Rightarrow> u64 option"
  json_as_bool :: "'v \<Rightarrow> bool option"
  json_is_object :: "'v \<Rightarrow> bool"

text \<open>
  An instance on JSON values: the documents it reads are those of a table, the accessors are
  the documented ones (a member of an object, the payload of a string, number or Boolean).
\<close>

datatype jvalue = JNull | JBool bool | JNum int | JStr string | JObj "(string \<times> jvalue) list"

definition json_table :: "(string \<times> jvalue) list \<Rightarrow> jvalue json" where
  "json_table t =
     \<lparr>json_from_slice =
        (\<lambda>p. case map_of t (str_of p) of Some v \<Rightarrow> Inr v | None \<Rightarrow> Inl ''invalid JSON''),
      json_from_str = (\<lambda>s. case map_of t s of Some v \<Rightarrow> Inr v | None \<Rightarrow> Inl ''invalid JSON''),
      json_get = (\<lambda>v k. case v of JObj kvs \<Rightarrow> map_of kvs k | _ \<Rightarrow> None),
      json_as_str = (\<lambda>v. case v of JStr s \<Rightarrow> Some s | _ \<Rightarrow> None),
      json_as_i64 =
        (\<lambda>v. case v of JNum i \<Rightarrow> if - (2 ^ 63) \<le> i \<and> i < 2 ^ 63 then Some (word_of_int i) else None | _ \<Rightarrow> None),
      json_as_u64 =
        (\<lambda>v. case v of JNum i \<Rightarrow> if 0 \<le> i \<and> i < 2 ^ 64 then Some (word_of_int i) else None | _ \<Rightarrow> None),
      json_as_bool = (\<lambda>v. case v of JBool b \<Rightarrow> Some b | _ \<Rightarrow> None),
      json_is_object = (\<lambda>v. case v of JObj _ \<Rightarrow> True | _ \<Rightarrow> False)\<rparr>"

definition str_member :: "'v json \<Rightarrow> 'v \<Rightarrow> string \<Rightarrow> string option" where
  "str_member js v k = Option.bind (json_get js v k) (json_as_str js)"

section \<open>Hash algorithms\<close>

datatype HashAlg = Sha1 | Sha256

definition hash_alg_parse :: "string \<Rightarrow> HashAlg result" where
  "hash_alg_parse s =
     (if s = ''SHA1'' then Ok Sha1
      else if s = ''SHA256'' then Ok Sha256
      else Err (Crypto (''unrecognised hash algorithm: '' @ s)))"

fun hash_alg_as_str :: "HashAlg \<Rightarrow> string" where
  "hash_alg_as_str Sha1 = ''SHA1''"
| "hash_alg_as_str Sha256 = ''SHA256''"

record KeySalt =
  key_hex :: string
  ks_salt :: string
  ks_hash_alg :: HashAlg

definition from_ll_value :: "'v json \<Rightarrow> 'v \<Rightarrow> KeySalt result" where
  "from_ll_value js value =
     try_then (ok_or (Protocol ''missing key in key/salt response'') (str_member js value ''key'')) (\<lambda>key.
     try_then (ok_or (Protocol ''missing salt in key/salt response'') (str_member js value ''salt'')) (\<lambda>salt.
     let alg = (case str_member js value ''hashAlg'' of Some a \<Rightarrow> a | None \<Rightarrow> ''SHA1'')
     in try_then (hash_alg_parse alg) (\<lambda>a.
        Ok \<lparr>key_hex = key, ks_salt = salt, ks_hash_alg = a\<rparr>)))"

definition password_hash :: "crypto \<Rightarrow> HashAlg \<Rightarrow> string \<Rightarrow> string \<Rightarrow> string" where
  "password_hash c alg password user_salt =
     (let data = as_bytes (password @ '':'' @ user_salt)
      in case alg of
           Sha1 \<Rightarrow> hex_encode_upper c (sha1_digest c data)
         | Sha256 \<Rightarrow> hex_encode_upper c (sha256_digest c data))"

definition hmac_hex :: "crypto \<Rightarrow> HashAlg \<Rightarrow> bytes \<Rightarrow> bytes \<Rightarrow> string result" where
  "hmac_hex c alg key data =
     (case alg of
        Sha1 \<Rightarrow> try_then (map_err Crypto (hmac_sha1 c key data)) (\<lambda>m. Ok (hex_encode c m))
      | Sha256 \<Rightarrow> try_then (map_err Crypto (hmac_sha256 c key data)) (\<lambda>m. Ok (hex_encode c m)))"

definition hash_credentials :: "crypto \<Rightarrow> KeySalt \<Rightarrow> string \<Rightarrow> string \<Rightarrow> string result" where
  "hash_credentials c key_salt password username =
     (let pw_hash = password_hash c (ks_hash_alg key_salt) password (ks_salt key_salt);
          user_pw = username @ '':'' @ pw_hash
      in try_then (map_err Crypto (hex_decode c (key_hex key_salt))) (\<lambda>key.
           hmac_hex c (ks_hash_alg key_salt) key (as_bytes user_pw)))"

definition hash_visu_password :: "crypto \<Rightarrow> KeySalt \<Rightarrow> string \<Rightarrow> string result" where
  "hash_visu_password c key_salt visu_pw =
     (let pw_hash = password_hash c (ks_hash_alg key_salt) visu_pw (ks_salt key_salt)
      in try_then (map_err Crypto (hex_decode c (key_hex key_salt))) (\<lambda>key.
           hmac_hex c (ks_hash_alg key_salt) key (as_bytes pw_hash)))"

definition hash_token :: "crypto \<Rightarrow> HashAlg \<Rightarrow> string \<Rightarrow> string \<Rightarrow> string result" where
  "hash_token c alg key_str token =
     try_then (map_err Crypto (hex_decode c key_str)) (\<lambda>key. hmac_hex c alg key (as_bytes token))"

section \<open>RSA public keys\<close>

definition BEGIN_CERT :: string where "BEGIN_CERT = ''-----BEGIN CERTIFICATE-----''"
definition END_CERT :: string where "END_CERT = ''-----END CERTIFICATE-----''"
definition PEM_BEGIN :: string where "PEM_BEGIN = ''-----BEGIN PUBLIC KEY-----''"
definition PEM_END :: string where "PEM_END = ''-----END PUBLIC KEY-----''"

function chunks_of :: "nat \<Rightarrow> 'a list \<Rightarrow> 'a list list" where
  "chunks_of n xs = (if n = 0 \<or> xs = [] then [] else take n xs # chunks_of n (drop n xs))"
  by pat_completeness auto
termination
  by (relation "measure (\<lambda>(n, xs). length xs)") auto

declare chunks_of.simps [simp del]

text \<open>The body between the markers; slicing with the end marker before the start panics.\<close>

definition pem_body :: "string \<Rightarrow> string option" where
  "pem_body s =
     (case (find_str PEM_BEGIN s, find_str PEM_END s) of
        (Some a, Some b) \<Rightarrow>
          let start = a + length PEM_BEGIN
          in map_option drop_white (get_range start b s)
      | _ \<Rightarrow> Some (filter (\<lambda>ch. ch \<noteq> CHR ''-'') (drop_white s)))"

definition pem_line :: "bytes \<Rightarrow> string" where
  "pem_line chunk = (case from_utf8 chunk of Some l \<Rightarrow> l | None \<Rightarrow> []) @ [CHR 0x0A]"

definition normalize_public_key_pem :: "string \<Rightarrow> string option" where
  "normalize_public_key_pem pem =
     (let s = replace_str [CHR 0x0D] [] (trim pem);
          s = replace_str END_CERT PEM_END (replace_str BEGIN_CERT PEM_BEGIN s)
      in map_option
           (\<lambda>body. PEM_BEGIN @ [CHR 0x0A] @ concat (map pem_line (chunks_of 64 (as_bytes body))) @
                   PEM_END @ [CHR 0x0A])
           (pem_body s))"

definition import_public_key :: "crypto \<Rightarrow> string \<Rightarrow> bytes result option" where
  "import_public_key c pem =
     map_option
       (\<lambda>normalized.
          case from_public_key_pem c normalized of
            Inr key \<Rightarrow> Ok key
          | Inl spki_err \<Rightarrow>
              map_err (\<lambda>pkcs1_err. Crypto (''SPKI: '' @ spki_err @ ''; PKCS1: '' @ pkcs1_err))
                (from_pkcs1_pem c normalized))
       (normalize_public_key_pem pem)"

definition wrap_session_key :: "crypto \<Rightarrow> bytes \<Rightarrow> string \<Rightarrow> string \<Rightarrow> string result option" where
  "wrap_session_key c rng public_key_pem payload =
     map_option
       (\<lambda>r. try_then r (\<lambda>key.
          try_then (map_err (\<lambda>e. Crypto (''RSA encrypt failed: '' @ e))
                     (rsa_encrypt c key rng (as_bytes payload))) (\<lambda>encrypted.
          Ok (b64_encode c encrypted))))
       (import_public_key c public_key_pem)"

section \<open>Normalising a key\<close>

text \<open>
  A body as the Miniserver sends it: Base64 characters, wrapped by line feeds and carriage
  returns at any place. \<open>pem_of\<close> is the strict form, lines of 64 characters between the markers.
\<close>

definition body_char :: "char \<Rightarrow> bool" where
  "body_char ch \<longleftrightarrow> ascii_graphic ch \<and> ch \<noteq> CHR ''-''"

definition line_break :: "char \<Rightarrow> bool" where
  "line_break ch \<longleftrightarrow> ch = CHR 0x0A \<or> ch = CHR 0x0D"

definition wrapped_body :: "string \<Rightarrow> bool" where
  "wrapped_body w \<longleftrightarrow> list_all (\<lambda>ch. body_char ch \<or> line_break ch) w"

definition pem_of :: "string \<Rightarrow> string" where
  "pem_of body =
     PEM_BEGIN @ [CHR 0x0A] @ concat (map (\<lambda>l. l @ [CHR 0x0A]) (chunks_of 64 body)) @ PEM_END @ [CHR 0x0A]"

lemma starts_with_simps:
  "starts_with s []" "\<not> starts_with [] (y # ys)"
  "starts_with (x # xs) (y # ys) \<longleftrightarrow> x = y \<and> starts_with xs ys"
  by (auto simp: starts_with_iff)

lemma replace_str_Cons:
  "\<not> starts_with (ch # s) p \<Longrightarrow> replace_str p r (ch # s) = ch # replace_str p r s"
  by (simp add: replace_str_def)

lemma replace_loop_fuel:
  "p \<noteq> [] \<Longrightarrow> length s \<le> n \<Longrightarrow> length s \<le> m \<Longrightarrow> replace_loop n p r s = replace_loop m p r s"
proof (induction n arbitrary: m s)
  case 0
  then show ?case by (cases m) auto
next
  case (Suc n)
  show ?case
  proof (cases s)
    case Nil
    then show ?thesis by (cases m) auto
  next
    case (Cons ch s')
    then obtain m' where m: "m = Suc m'"
      using Suc.prems by (cases m) auto
    have "length (drop (length p) s) \<le> n" "length (drop (length p) s) \<le> m'"
      using Suc.prems m length_greater_0_conv [of p] by (simp_all, linarith+)
    then have "replace_loop n p r (drop (length p) s) = replace_loop m' p r (drop (length p) s)"
      by (intro Suc.IH Suc.prems(1))
    moreover have "replace_loop n p r s' = replace_loop m' p r s'"
      by (intro Suc.IH) (use Suc.prems m Cons in auto)
    ultimately show ?thesis
      unfolding Cons m by simp
  qed
qed

lemma replace_str_prefix:
  assumes "p \<noteq> []"
  shows "replace_str p r (p @ s) = r @ replace_str p r s"
proof -
  obtain ch p' where p: "p = ch # p'"
    using assms by (cases p) auto
  have "replace_loop (length (p @ s)) p r (p @ s) = r @ replace_loop (length p' + length s) p r s"
    unfolding p by (simp add: starts_with_append [of "ch # p'" s, simplified])
  also have "replace_loop (length p' + length s) p r s = replace_loop (length s) p r s"
    by (rule replace_loop_fuel) (use assms in auto)
  finally show ?thesis
    by (simp add: replace_str_def)
qed

lemma replace_str_char: "replace_str [ch] [] s = filter (\<lambda>x. x \<noteq> ch) s"
proof (induction s)
  case Nil
  then show ?case by (simp add: replace_str_def)
next
  case (Cons x s)
  show ?case
  proof (cases "x = ch")
    case True
    then show ?thesis
      using replace_str_prefix [of "[ch]" "[]" s] Cons by simp
  next
    case False
    then show ?thesis
      using Cons by (simp add: replace_str_Cons starts_with_simps)
  qed
qed

lemma contains_skip:
  assumes "p = ch # p'" and "ch \<notin> set w"
  shows "contains p (w @ t) \<longleftrightarrow> contains p t"
  using assms(2) by (induction w) (auto simp: assms(1) starts_with_simps)

lemma find_str_skip:
  assumes "p = ch # p'" and "ch \<notin> set w"
  shows "find_str p (w @ t) = map_option (\<lambda>n. n + length w) (find_str p t)"
  using assms(2)
  by (induction w) (auto simp: assms(1) starts_with_simps option.map_comp comp_def option.map_ident)

lemmas pem_markers = BEGIN_CERT_def END_CERT_def PEM_BEGIN_def PEM_END_def

lemma not_body_char: "\<not> body_char (CHR ''-'')" "\<not> body_char (CHR '' '')"
  by (simp_all add: body_char_def ascii_graphic_def)

lemma body_no_dash: "wrapped_body w \<Longrightarrow> CHR ''-'' \<notin> set w \<and> CHR '' '' \<notin> set w"
  using not_body_char unfolding wrapped_body_def list_all_iff line_break_def by fastforce

lemma contains_find_str: "contains p s \<longleftrightarrow> find_str p s \<noteq> None"
  by (induction s) (auto simp: starts_with_simps split: if_splits)

lemma replace_str_at:
  assumes "find_str p (u @ p @ t) = Some (length u)" and "p \<noteq> []"
  shows "replace_str p r (u @ p @ t) = u @ r @ replace_str p r t"
  using assms
proof (induction u)
  case Nil
  then show ?case by (simp add: replace_str_prefix)
next
  case (Cons x u)
  then have "\<not> starts_with (x # u @ p @ t) p" "find_str p (u @ p @ t) = Some (length u)"
    by (auto split: if_splits)
  with Cons show ?case
    by (simp add: replace_str_Cons)
qed

lemma blank_first:
  assumes "CHR '' '' \<notin> set w" and "CHR ''-'' \<notin> set u"
  shows "\<not> starts_with (w @ CHR ''-'' # t) (u @ CHR '' '' # v)"
proof
  assume "starts_with (w @ CHR ''-'' # t) (u @ CHR '' '' # v)"
  then obtain x where "w @ CHR ''-'' # t = u @ CHR '' '' # v @ x"
    by (auto simp: starts_with_iff)
  then show False
    using assms by (auto simp: append_eq_append_conv2 append_eq_Cons_conv Cons_eq_append_conv)
qed

lemma find_end_marker:
  assumes "wrapped_body w" and "p = ''-----END '' @ v" and "t = ''-----E'' @ t'"
  shows "find_str p (PEM_BEGIN @ w @ t) = map_option (\<lambda>n. n + length w + length PEM_BEGIN) (find_str p t)"
proof -
  have w: "CHR ''-'' \<notin> set w" "CHR '' '' \<notin> set w"
    using body_no_dash [OF assms(1)] by auto
  then have b: "\<not> starts_with (w @ t) (''END '' @ v)"
    using blank_first [of w "''END''" "''----E'' @ t'" v] assms(3) by simp
  have d: "\<not> starts_with (w @ t) (CHR ''-'' # d @ ''END '' @ v)" if "d \<in> {[], ''-'', ''--'', ''---''}" for d
    using w that assms(3) by (cases w) (auto simp: starts_with_simps)
  have "find_str p (PEM_BEGIN @ w @ t) = map_option (\<lambda>n. n + length PEM_BEGIN) (find_str p (w @ t))"
    using b d [of "[]"] d [of "''-''"] d [of "''--''"] d [of "''---''"]
    by (simp add: PEM_BEGIN_def assms(2) starts_with_simps option.map_comp comp_def)
  also have "find_str p (w @ t) = map_option (\<lambda>n. n + length w) (find_str p t)"
    using w(1) assms(2) by (intro find_str_skip) auto
  finally show ?thesis
    by (simp add: option.map_comp comp_def)
qed

lemma find_begin_cert:
  assumes "wrapped_body w" and "e = END_CERT \<or> e = PEM_END"
  shows "find_str BEGIN_CERT (PEM_BEGIN @ w @ e) = None" "find_str BEGIN_CERT (w @ e) = None"
proof -
  have w: "CHR ''-'' \<notin> set w" "CHR '' '' \<notin> set w"
    using body_no_dash [OF assms(1)] by auto
  obtain t where t: "e = ''-----E'' @ t"
    using assms(2) by (auto simp: pem_markers)
  have b: "\<not> starts_with (w @ e) ''BEGIN CERTIFICATE-----''"
    using blank_first [of w "''BEGIN''" "''----E'' @ t" "''CERTIFICATE-----''"] w t by simp
  have d: "\<not> starts_with (w @ e) (CHR ''-'' # d @ ''BEGIN CERTIFICATE-----'')"
    if "d \<in> {[], ''-'', ''--'', ''---''}" for d
    using w that t by (cases w) (auto simp: starts_with_simps)
  show we: "find_str BEGIN_CERT (w @ e) = None"
    using find_str_skip [of BEGIN_CERT "CHR ''-''" _ w e] w(1) assms(2)
    by (auto simp: pem_markers starts_with_simps)
  show "find_str BEGIN_CERT (PEM_BEGIN @ w @ e) = None"
    using b d [of "[]"] d [of "''-''"] d [of "''--''"] d [of "''---''"] we
    by (simp add: PEM_BEGIN_def BEGIN_CERT_def starts_with_simps)
qed

lemma ws_line_break:
  assumes "line_break ch"
  shows "ws_last (ch # r) = 1" "ws_head (ch # r) = 1"
proof -
  have "ws_last (CHR 0x0A # r) = 1" "ws_last (CHR 0x0D # r) = 1"
    "ws_head (CHR 0x0A # r) = 1" "ws_head (CHR 0x0D # r) = 1"
    unfolding ws_last_def ws_head_def white_space_def
    by (simp_all only: find.simps rev.simps append.simps starts_with_simps char.inject
        simp_thms if_True if_False option.case list.size One_nat_def add_0 HOL.True_implies_equals)
  then show "ws_last (ch # r) = 1" "ws_head (ch # r) = 1"
    using assms unfolding line_break_def by blast+
qed

lemma trim_line_breaks:
  assumes "list_all line_break brks" and "s \<noteq> []" "ascii_graphic (hd s)" "ascii_graphic (last s)"
  shows "trim (s @ brks) = s"
proof -
  have rev: "trim_rev (b @ r) = trim_rev r" if "list_all line_break b" for b r
    using that
  proof (induction b)
    case (Cons ch b)
    then show ?case
      by (subst trim_rev.simps) (simp add: ws_line_break)
  qed simp
  obtain ch s' where s: "s = ch # s'"
    using assms(2) by (cases s) auto
  then have "trim_start (s @ brks) = s @ brks" "trim_start s = s"
    using assms(3) by (simp_all add: trim_start.simps ws_head_graphic)
  then have "trim (s @ brks) = trim s"
    using rev [of "rev brks" "rev s"] assms(1) by (simp add: trim_def)
  then show ?thesis
    using assms(2-4) by (simp add: trim_id)
qed

lemma drop_white_body: "wrapped_body w \<Longrightarrow> drop_white w = filter body_char w"
proof -
  have "wrapped_body w \<Longrightarrow> drop_white_loop (length w) w = filter body_char w"
  proof (induction w)
    case (Cons ch w)
    then consider "body_char ch" | "line_break ch" "\<not> body_char ch"
      by (auto simp: wrapped_body_def)
    then show ?case
    proof cases
      case 1
      then show ?thesis
        using Cons by (simp add: wrapped_body_def body_char_def ws_head_graphic)
    next
      case 2
      then show ?thesis
        using Cons by (simp add: wrapped_body_def ws_line_break)
    qed
  qed simp
  then show "wrapped_body w \<Longrightarrow> drop_white w = filter body_char w"
    by (simp add: drop_white_def)
qed

lemma chunks_of_map: "chunks_of n (map f xs) = map (map f) (chunks_of n xs)"
proof (induction n xs rule: chunks_of.induct)
  case (1 n xs)
  then show ?case
    by (subst (1 2) chunks_of.simps) (simp add: take_map drop_map)
qed

lemma set_chunks_of: "l \<in> set (chunks_of n xs) \<Longrightarrow> set l \<subseteq> set xs \<and> length l \<le> n \<and> l \<noteq> []"
proof (induction n xs rule: chunks_of.induct)
  case (1 n xs)
  from "1.prems" show ?case
    by (subst (asm) chunks_of.simps)
       (use "1.IH" in \<open>auto split: if_splits dest: in_set_takeD in_set_dropD\<close>)
qed

lemma concat_chunks_of: "n > 0 \<Longrightarrow> concat (chunks_of n xs) = xs"
proof (induction n xs rule: chunks_of.induct)
  case (1 n xs)
  then show ?case
    by (subst chunks_of.simps) simp
qed

lemma pem_lines:
  assumes "list_all ascii_graphic body"
  shows "map pem_line (chunks_of 64 (as_bytes body)) = map (\<lambda>l. l @ [CHR 0x0A]) (chunks_of 64 body)"
proof -
  have "pem_line (as_bytes l) = l @ [CHR 0x0A]" if "l \<in> set (chunks_of 64 body)" for l
  proof -
    have "set l \<subseteq> set body"
      using set_chunks_of [OF that] by simp
    then have "utf8_valid (as_bytes l)"
      using assms by (intro utf8_valid_ascii_str) (fastforce simp: list_all_iff ascii_graphic_def)
    then show ?thesis
      by (simp add: pem_line_def from_utf8_def)
  qed
  then show ?thesis
    unfolding as_bytes_def chunks_of_map list.map_comp comp_def by simp
qed

lemma wrapped_filter: "wrapped_body w \<Longrightarrow> wrapped_body (filter P w)"
  by (auto simp: wrapped_body_def list_all_iff)

lemma filter_cr:
  "filter body_char (filter (\<lambda>x. x \<noteq> CHR 0x0D) w) = filter body_char w"
  by (auto simp: body_char_def ascii_graphic_def intro!: filter_cong)

lemma markers_nonempty: "BEGIN_CERT \<noteq> []" "END_CERT \<noteq> []"
  by (simp_all add: pem_markers)

lemma replace_markers:
  assumes "wrapped_body w" and "(b, e) \<in> {(BEGIN_CERT, END_CERT), (PEM_BEGIN, PEM_END)}"
  shows "replace_str END_CERT PEM_END (replace_str BEGIN_CERT PEM_BEGIN (b @ w @ e)) = PEM_BEGIN @ w @ PEM_END"
proof -
  have "replace_str BEGIN_CERT PEM_BEGIN (b @ w @ e) = PEM_BEGIN @ w @ e"
    using assms(2) find_begin_cert [OF assms(1), of e]
    by (auto simp: replace_str_prefix replace_str_id contains_find_str markers_nonempty)
  moreover have "find_str END_CERT (PEM_BEGIN @ w @ e) =
      map_option (\<lambda>n. n + length w + length PEM_BEGIN) (find_str END_CERT e)"
    using assms(2) find_end_marker [OF assms(1), of END_CERT "''CERTIFICATE-----''" END_CERT "''ND CERTIFICATE-----''"]
      find_end_marker [OF assms(1), of END_CERT "''CERTIFICATE-----''" PEM_END "''ND PUBLIC KEY-----''"]
    by (auto simp: END_CERT_def PEM_END_def)
  moreover have "find_str END_CERT PEM_END = None" "find_str END_CERT END_CERT = Some 0"
    by (simp_all add: pem_markers starts_with_simps)
  ultimately show ?thesis
    using assms(2) replace_str_at [of END_CERT "PEM_BEGIN @ w" "[]" PEM_END]
    by (auto simp: replace_str_id contains_find_str markers_nonempty)
qed

lemma pem_body_markers:
  assumes "wrapped_body w"
  shows "pem_body (PEM_BEGIN @ w @ PEM_END) = Some (filter body_char w)"
proof -
  have "find_str PEM_END (PEM_BEGIN @ w @ PEM_END) = Some (length w + length PEM_BEGIN)"
    by (subst find_end_marker [OF assms]) (simp_all add: PEM_END_def starts_with_simps)
  then show ?thesis
    by (simp add: pem_body_def find_str_prefix get_range_def drop_white_body [OF assms])
qed

lemma normalize_markers:
  assumes "wrapped_body w" and "list_all line_break brks"
    and "(b, e) \<in> {(BEGIN_CERT, END_CERT), (PEM_BEGIN, PEM_END)}"
  shows "normalize_public_key_pem (b @ w @ e @ brks) = Some (pem_of (filter body_char w))"
proof -
  let ?cr = "filter (\<lambda>x. x \<noteq> CHR 0x0D)"
  have be: "b \<noteq> []" "ascii_graphic (hd b)" "e \<noteq> []" "ascii_graphic (last e)" "?cr b = b" "?cr e = e"
    using assms(3) by (auto simp: pem_markers ascii_graphic_def)
  have "trim (b @ w @ e @ brks) = b @ w @ e"
    using trim_line_breaks [OF assms(2), of "b @ w @ e"] be by simp
  then have "replace_str [CHR 0x0D] [] (trim (b @ w @ e @ brks)) = b @ ?cr w @ e"
    by (simp add: replace_str_char be)
  moreover have "list_all ascii_graphic (filter body_char w)"
    by (auto simp: list_all_iff body_char_def)
  ultimately show ?thesis
    using wrapped_filter [OF assms(1), of "\<lambda>x. x \<noteq> CHR 0x0D"] replace_markers [OF _ assms(3)]
    by (simp add: normalize_public_key_pem_def pem_body_markers filter_cr pem_of_def pem_lines del: filter_filter)
qed

lemma body_wrapped_lines:
  assumes "list_all body_char body"
  defines "w \<equiv> CHR 0x0A # concat (map (\<lambda>l. l @ [CHR 0x0A]) (chunks_of 64 body))"
  shows "wrapped_body w \<and> filter body_char w = body"
proof -
  have nl: "\<not> body_char (CHR 0x0A)"
    by (simp add: body_char_def ascii_graphic_def)
  have b: "list_all body_char l" if "l \<in> set (chunks_of 64 body)" for l
    using set_chunks_of [OF that] assms(1) by (auto simp: list_all_iff)
  have "filter body_char (concat (map (\<lambda>l. l @ [CHR 0x0A]) ls)) = concat ls"
    if "\<forall>l\<in>set ls. list_all body_char l" for ls
    using that nl by (induction ls) (simp_all add: list_all_iff)
  from this [of "chunks_of 64 body"] show ?thesis
    using b nl by (auto simp: w_def concat_chunks_of wrapped_body_def line_break_def list_all_iff)
qed

section \<open>Properties\<close>

text \<open>
  C28: A public key in either of the two spellings of its markers, with its Base64 body wrapped at
  any places by line feeds or carriage returns and followed by any line breaks, is normalised
  without a panic to the one strict form: the same body in lines of at most 64 characters
  between the public-key markers. Normalising the result again changes nothing.
\<close>

theorem normalize_pem_canonical:
  assumes "wrapped_body w" and "list_all line_break brks"
    and "(b, e) \<in> {(BEGIN_CERT, END_CERT), (PEM_BEGIN, PEM_END)}"
  shows "normalize_public_key_pem (b @ w @ e @ brks) = Some (pem_of (filter body_char w)) \<and>
    normalize_public_key_pem (pem_of (filter body_char w)) = Some (pem_of (filter body_char w)) \<and>
    concat (chunks_of 64 (filter body_char w)) = filter body_char w \<and>
    list_all (\<lambda>l. length l \<le> 64) (chunks_of 64 (filter body_char w))"
proof -
  let ?body = "filter body_char w"
  let ?w = "CHR 0x0A # concat (map (\<lambda>l. l @ [CHR 0x0A]) (chunks_of 64 ?body))"
  have w: "wrapped_body ?w" "filter body_char ?w = ?body"
    using body_wrapped_lines [of ?body] by (auto simp: list_all_iff)
  have "pem_of ?body = PEM_BEGIN @ ?w @ PEM_END @ [CHR 0x0A]"
    by (simp add: pem_of_def)
  then have "normalize_public_key_pem (pem_of ?body) = Some (pem_of ?body)"
    using normalize_markers [OF w(1), of "[CHR 0x0A]" PEM_BEGIN PEM_END] w(2)
    by (simp add: line_break_def)
  then show ?thesis
    using normalize_markers [OF assms] by (auto simp: concat_chunks_of list_all_iff dest!: set_chunks_of)
qed

theorem normalize_pem_canonical_witness:
  "normalize_public_key_pem ''-----BEGIN CERTIFICATE-----MIGf+/==-----END CERTIFICATE-----'' =
     Some (pem_of ''MIGf+/=='')"
proof -
  have "wrapped_body ''MIGf+/==''" "filter body_char ''MIGf+/=='' = ''MIGf+/==''"
    by (simp_all add: wrapped_body_def body_char_def ascii_graphic_def)
  then show ?thesis
    using normalize_pem_canonical [of "''MIGf+/==''" "[]" BEGIN_CERT END_CERT]
    by (simp add: BEGIN_CERT_def END_CERT_def)
qed

text \<open>
  The slice between the markers assumes that they stand in order. A key whose markers share
  their dashes, or whose end marker comes first, makes the normalisation panic, and with it
  every import and every wrap of a session key under that key.
\<close>

theorem normalize_pem_panics:
  "normalize_public_key_pem ''-----BEGIN PUBLIC KEY-----END PUBLIC KEY-----'' = None \<and>
   normalize_public_key_pem ''-----END CERTIFICATE----------BEGIN CERTIFICATE-----'' = None \<and>
   wrap_session_key c rng ''-----BEGIN PUBLIC KEY-----END PUBLIC KEY-----'' payload = None"
proof -
  have t: "trim s = s" if "s = ''-'' @ t @ ''-''" for s t
    using that by (intro trim_id) (simp add: ascii_graphic_def)
  have "normalize_public_key_pem ''-----BEGIN PUBLIC KEY-----END PUBLIC KEY-----'' = None"
    by (subst normalize_public_key_pem_def)
       (simp add: t [of _ "''----BEGIN PUBLIC KEY-----END PUBLIC KEY----''"] replace_str_def starts_with_simps
         pem_markers pem_body_def get_range_def)
  moreover have "normalize_public_key_pem ''-----END CERTIFICATE----------BEGIN CERTIFICATE-----'' = None"
    by (subst normalize_public_key_pem_def)
       (simp add: t [of _ "''----END CERTIFICATE----------BEGIN CERTIFICATE----''"] replace_str_def starts_with_simps
         pem_markers pem_body_def get_range_def)
  ultimately show ?thesis
    by (simp add: wrap_session_key_def import_public_key_def)
qed

end
