(* ===== verification/Lox_Auth.thy ===== *)
theory Lox_Auth
  imports Lox_Hash Lox_Pending
begin

text \<open>
  The token and the authentication commands (\<^verbatim>\<open>src/src/auth/token.rs\<close>,
  \<^verbatim>\<open>src/src/auth/flow.rs\<close>): the status policy of an \<^verbatim>\<open>LL\<close> envelope, the command builders and
  the readers of the answers. An \<^verbatim>\<open>i64\<close> is a 64-bit word; its arithmetic wraps, as in the
  release build. The clock reading is an argument, \<^const>\<open>None\<close> when the clock stands before 1970.
\<close>

section \<open>Tokens\<close>

definition LOXONE_EPOCH :: i64 where "LOXONE_EPOCH = 1230768000"

record LxToken =
  token :: string
  valid_until :: i64
  hash_alg :: HashAlg

definition debug_redacted :: "nat \<Rightarrow> string" where
  "debug_redacted n =
     (if n = 0 then ''<empty>'' else ''<redacted, '' @ nat_str n @ '' bytes>'')"

fun debug_hash_alg :: "HashAlg \<Rightarrow> string" where
  "debug_hash_alg Sha1 = ''Sha1''"
| "debug_hash_alg Sha256 = ''Sha256''"

definition debug_token :: "LxToken \<Rightarrow> string" where
  "debug_token t =
     ''LxToken { token: '' @ debug_redacted (length (token t)) @
     '', valid_until: '' @ int_str (sint (valid_until t)) @
     '', hash_alg: '' @ debug_hash_alg (hash_alg t) @ '' }''"

definition token_new :: "string \<Rightarrow> i64 \<Rightarrow> HashAlg \<Rightarrow> LxToken" where
  "token_new tok vu alg = \<lparr>token = tok, valid_until = vu, hash_alg = alg\<rparr>"

definition token_default :: LxToken where
  "token_default = \<lparr>token = [], valid_until = 0, hash_alg = Sha1\<rparr>"

definition token_is_empty :: "LxToken \<Rightarrow> bool" where
  "token_is_empty t \<longleftrightarrow> token t = []"

definition seconds_to_expire :: "u64 option \<Rightarrow> LxToken \<Rightarrow> i64" where
  "seconds_to_expire since_epoch t =
     (let expiry = LOXONE_EPOCH + valid_until t;
          now = (case since_epoch of Some d \<Rightarrow> d | None \<Rightarrow> 0)
      in expiry - now)"

definition token_clear :: "LxToken \<Rightarrow> LxToken" where
  "token_clear t = t\<lparr>token := [], valid_until := 0\<rparr>"

section \<open>Commands\<close>

definition DEFAULT_CLIENT_UUID :: string where
  "DEFAULT_CLIENT_UUID = ''edfc5f9a-df3f-4cad-9dddcdc42c732be2''"
definition DEFAULT_CLIENT_INFO :: string where "DEFAULT_CLIENT_INFO = ''loxinflux''"

definition CMD_GET_KEY_AND_SALT :: string where "CMD_GET_KEY_AND_SALT = ''jdev/sys/getkey2/''"
definition CMD_REQUEST_TOKEN_JWT :: string where "CMD_REQUEST_TOKEN_JWT = ''jdev/sys/getjwt/''"
definition CMD_GET_KEY :: string where "CMD_GET_KEY = ''jdev/sys/getkey''"
definition CMD_AUTH_WITH_TOKEN :: string where "CMD_AUTH_WITH_TOKEN = ''authwithtoken/''"
definition CMD_REFRESH_TOKEN_JWT :: string where "CMD_REFRESH_TOKEN_JWT = ''jdev/sys/refreshjwt/''"
definition CMD_CHECK_TOKEN :: string where "CMD_CHECK_TOKEN = ''jdev/sys/checktoken/''"
definition CMD_KILL_TOKEN :: string where "CMD_KILL_TOKEN = ''jdev/sys/killtoken/''"
definition CMD_GET_VISUAL_PASSWD :: string where "CMD_GET_VISUAL_PASSWD = ''jdev/sys/getvisusalt/''"
definition CMD_KEY_EXCHANGE :: string where "CMD_KEY_EXCHANGE = ''jdev/sys/keyexchange/''"
definition CMD_ENABLE_UPDATES :: string where "CMD_ENABLE_UPDATES = ''jdev/sps/enablebinstatusupdate''"

lemmas cmd_names =
  CMD_GET_KEY_AND_SALT_def CMD_REQUEST_TOKEN_JWT_def CMD_GET_KEY_def CMD_AUTH_WITH_TOKEN_def
  CMD_REFRESH_TOKEN_JWT_def CMD_CHECK_TOKEN_def CMD_KILL_TOKEN_def CMD_GET_VISUAL_PASSWD_def
  CMD_KEY_EXCHANGE_def CMD_ENABLE_UPDATES_def

datatype TokenPermission = Web | App

fun permission_id :: "TokenPermission \<Rightarrow> u32" where
  "permission_id Web = 2"
| "permission_id App = 4"

definition display_permission :: "TokenPermission \<Rightarrow> string" where
  "display_permission p = nat_str (unat (permission_id p))"

definition cmd_getkey2 :: "string \<Rightarrow> string" where
  "cmd_getkey2 username = CMD_GET_KEY_AND_SALT @ username"

definition cmd_request_token :: "string \<Rightarrow> string \<Rightarrow> TokenPermission \<Rightarrow> string \<Rightarrow> string \<Rightarrow> string" where
  "cmd_request_token cred_hash username permission client_uuid client_info =
     CMD_REQUEST_TOKEN_JWT @ cred_hash @ ''/'' @ username @ ''/'' @
     nat_str (unat (permission_id permission)) @ ''/'' @ client_uuid @ ''/'' @ client_info"

definition cmd_auth_with_token :: "string \<Rightarrow> string \<Rightarrow> string" where
  "cmd_auth_with_token token_hash username = CMD_AUTH_WITH_TOKEN @ token_hash @ ''/'' @ username"

definition cmd_refresh_token :: "string \<Rightarrow> string \<Rightarrow> string" where
  "cmd_refresh_token token_hash username = CMD_REFRESH_TOKEN_JWT @ token_hash @ ''/'' @ username"

definition cmd_check_token :: "string \<Rightarrow> string \<Rightarrow> string" where
  "cmd_check_token token_hash username = CMD_CHECK_TOKEN @ token_hash @ ''/'' @ username"

definition cmd_kill_token :: "string \<Rightarrow> string \<Rightarrow> string" where
  "cmd_kill_token token_hash username = CMD_KILL_TOKEN @ token_hash @ ''/'' @ username"

definition cmd_get_visu_salt :: "string \<Rightarrow> string" where
  "cmd_get_visu_salt username = CMD_GET_VISUAL_PASSWD @ username"

section \<open>Status codes\<close>

definition ll_status_code :: "'v json \<Rightarrow> 'v \<Rightarrow> string option" where
  "ll_status_code js ll =
     (case str_member js ll ''Code'' of Some s \<Rightarrow> Some s | None \<Rightarrow> str_member js ll ''code'')"

definition parse_json :: "'v json \<Rightarrow> bytes \<Rightarrow> 'v result" where
  "parse_json js payload = map_err Json (json_from_slice js payload)"

text \<open>The dash in the first hint is U+2014, three bytes in UTF-8.\<close>

definition ll_status_hint :: "string \<Rightarrow> string" where
  "ll_status_hint code =
     (if code = ''400'' then
        '' (bad request '' @ [CHR 0xE2, CHR 0x80, CHR 0x94] @ '' command must be encrypted)''
      else if code = ''401'' then '' (credentials or token rejected, or the request failed to decrypt)''
      else if code = ''403'' then '' (the requesting user lacks the rights for this request)''
      else if code = ''404'' then '' (unrecognized command)''
      else if code = ''420'' then '' (authentication timed out)''
      else if code = ''423'' then '' (the requesting user is disabled)''
      else if code = ''500'' then '' (Miniserver internal error)''
      else if code = ''503'' then '' (Miniserver is restarting and not ready for requests)''
      else if code = ''901'' then '' (maximum number of concurrent connections reached)''
      else [])"

definition ll_status_invalidates_token :: "string \<Rightarrow> bool" where
  "ll_status_invalidates_token code \<longleftrightarrow>
     \<not> (code = ''200'' \<or> code = ''423'' \<or> code = ''500'' \<or> code = ''503'' \<or> code = ''901'')"

definition ll_status_error :: "string \<Rightarrow> error" where
  "ll_status_error code =
     (if code = ''423'' then UserDisabled
      else if code = ''901'' then TooManyConnections
      else Auth (''LL status '' @ code @ ll_status_hint code))"

definition require_ll_ok :: "'v json \<Rightarrow> 'v \<Rightarrow> 'v result" where
  "require_ll_ok js root =
     try_then (ok_or (Protocol ''missing LL in response'') (json_get js root ''LL'')) (\<lambda>ll.
     let code = (case ll_status_code js ll of Some c \<Rightarrow> c | None \<Rightarrow> [])
     in if code \<noteq> ''200'' then Err (ll_status_error code) else Ok ll)"

definition payload_ll_status :: "'v json \<Rightarrow> bytes \<Rightarrow> string option" where
  "payload_ll_status js payload =
     (case parse_json js payload of
        Inl _ \<Rightarrow> None
      | Inr root \<Rightarrow> (case json_get js root ''LL'' of None \<Rightarrow> None | Some ll \<Rightarrow> ll_status_code js ll))"

section \<open>Answers\<close>

definition I64_MIN :: int where "I64_MIN = - (2 ^ 63)"
definition I64_MAX :: int where "I64_MAX = 2 ^ 63 - 1"

definition read_valid_until :: "'v json \<Rightarrow> 'v \<Rightarrow> i64 result" where
  "read_valid_until js value =
     ok_or (Auth ''missing validUntil'')
       (Option.bind (json_get js value ''validUntil'') (\<lambda>v.
          case json_as_i64 js v of
            Some i \<Rightarrow> Some i
          | None \<Rightarrow>
              (case json_as_u64 js v of
                 Some u \<Rightarrow> Some u
               | None \<Rightarrow>
                   Option.bind (json_as_str js v) (\<lambda>s.
                     map_option word_of_int (parse_signed I64_MIN I64_MAX s)))))"

definition parse_key_salt :: "'v json \<Rightarrow> bytes \<Rightarrow> KeySalt result" where
  "parse_key_salt js payload =
     try_then (parse_json js payload) (\<lambda>root.
     try_then (require_ll_ok js root) (\<lambda>ll.
     try_then (ok_or (Protocol ''missing LL.value'') (json_get js ll ''value'')) (\<lambda>value.
     from_ll_value js value)))"

definition parse_token_response :: "'v json \<Rightarrow> bytes \<Rightarrow> HashAlg \<Rightarrow> LxToken result" where
  "parse_token_response js payload alg =
     try_then (parse_json js payload) (\<lambda>root.
     try_then (require_ll_ok js root) (\<lambda>ll.
     try_then (ok_or (Protocol ''missing LL.value in token response'') (json_get js ll ''value'')) (\<lambda>value.
     try_then (read_valid_until js value) (\<lambda>vu.
     let tok = (case str_member js value ''token'' of Some s \<Rightarrow> s | None \<Rightarrow> [])
     in Ok (token_new tok vu alg)))))"

text \<open>The token is updated in place: the second component is its state after the call.\<close>

definition apply_valid_until :: "'v json \<Rightarrow> LxToken \<Rightarrow> bytes \<Rightarrow> unit result \<times> LxToken" where
  "apply_valid_until js tok payload =
     (case try_then (parse_json js payload) (\<lambda>root.
           try_then (require_ll_ok js root) (\<lambda>ll.
           try_then (ok_or (Protocol ''missing LL.value'') (json_get js ll ''value'')) (\<lambda>value.
           try_then (read_valid_until js value) (\<lambda>vu. Ok (value, vu))))) of
        Inl e \<Rightarrow> (Err e, tok)
      | Inr (value, vu) \<Rightarrow>
          let tok = tok\<lparr>valid_until := vu\<rparr>
          in (Ok (), case str_member js value ''token'' of
                       Some new_tok \<Rightarrow> if new_tok \<noteq> [] then tok\<lparr>token := new_tok\<rparr> else tok
                     | None \<Rightarrow> tok))"

definition parse_getkey_value :: "'v json \<Rightarrow> bytes \<Rightarrow> string result" where
  "parse_getkey_value js payload =
     try_then (parse_json js payload) (\<lambda>root.
     try_then (require_ll_ok js root) (\<lambda>ll.
     ok_or (Protocol ''missing getkey value'') (str_member js ll ''value'')))"

definition build_acquire_token_cmd ::
  "crypto \<Rightarrow> 'v json \<Rightarrow> bytes \<Rightarrow> string \<Rightarrow> string \<Rightarrow> TokenPermission \<Rightarrow> string \<Rightarrow> string \<Rightarrow>
     (string \<times> HashAlg) result" where
  "build_acquire_token_cmd c js getkey2_payload username password permission client_uuid client_info =
     try_then (parse_key_salt js getkey2_payload) (\<lambda>ks.
     try_then (hash_credentials c ks password username) (\<lambda>cred.
     Ok (cmd_request_token cred username permission client_uuid client_info, ks_hash_alg ks)))"

definition build_token_hash :: "crypto \<Rightarrow> 'v json \<Rightarrow> bytes \<Rightarrow> LxToken \<Rightarrow> string result" where
  "build_token_hash c js getkey_payload tok =
     try_then (parse_getkey_value js getkey_payload) (\<lambda>key.
     hash_token c (hash_alg tok) key (token tok))"

section \<open>Lemmas\<close>

lemma ll_status_class [simp]:
  "is_terminal (ll_status_error code) \<longleftrightarrow> code = ''423''"
  "needs_long_backoff (ll_status_error code) \<longleftrightarrow> code = ''901''"
  by (auto simp: ll_status_error_def is_terminal_iff needs_long_backoff_iff)

lemma require_ll_ok_Err:
  assumes "require_ll_ok js root = Err e"
  shows "e \<noteq> Protocol ''missing LL.value in token response''"
proof (cases "json_get js root ''LL''")
  case None
  with assms have "e = Protocol ''missing LL in response''"
    by (simp add: require_ll_ok_def)
  then show ?thesis by simp
next
  case (Some ll)
  with assms obtain code where "e = ll_status_error code"
    by (auto simp: require_ll_ok_def Let_def split: if_splits)
  then show ?thesis
    by (simp add: ll_status_error_def)
qed

lemma label_jdev_sys:
  assumes "CHR ''/'' \<notin> set v"
  shows "cmd_label (''jdev/sys/'' @ v @ CHR ''/'' # s) = ''jdev/sys/'' @ v"
proof -
  have "split_on (CHR ''/'') (''jdev/sys/'' @ v @ CHR ''/'' # s) = [''jdev'', ''sys'', v] @ split_on (CHR ''/'') s"
    using assms by (simp add: split_on_slash_append split_on_no_sep)
  then show ?thesis
    by (simp add: cmd_label_def take_segments_join)
qed

lemma label_authwithtoken: "cmd_label (''authwithtoken/'' @ s) = ''authwithtoken''"
proof -
  have "split_on (CHR ''/'') (''authwithtoken'' @ CHR ''/'' # s) = [''authwithtoken''] @ split_on (CHR ''/'') s"
    by (simp only: split_on_slash_append) simp
  then show ?thesis
    by (simp add: cmd_label_def take_segments_join)
qed

section \<open>Properties\<close>

text \<open>
  The policy for a refused request: from the status code alone the error is terminal exactly
  for 423, earns the long backoff exactly for 901, and is otherwise an authentication failure
  that shows the code and the step. A code that makes the token unusable is never one of the
  two, so a token is not thrown away over a full Miniserver or a disabled user.
\<close>

theorem ll_status_policy:
  assumes "parse_json js payload = Ok root" and "payload_ll_status js payload = Some code"
    and "require_ll_ok js root = Err e"
  shows "code \<noteq> ''200'' \<and>
    (is_terminal (in_step e step) \<longleftrightarrow> code = ''423'') \<and>
    (needs_long_backoff (in_step e step) \<longleftrightarrow> code = ''901'') \<and>
    (ll_status_invalidates_token code \<longrightarrow> \<not> is_terminal e \<and> \<not> needs_long_backoff e) \<and>
    (code \<noteq> ''423'' \<and> code \<noteq> ''901'' \<longrightarrow>
       (\<exists>hint. error_display (in_step e step) =
          ''authentication failed: '' @ step @ '': authentication failed: LL status '' @ code @ hint))"
proof -
  obtain ll where ll: "json_get js root ''LL'' = Some ll" "ll_status_code js ll = Some code"
    using assms(1,2) by (auto simp: payload_ll_status_def split: option.splits)
  then have e: "e = ll_status_error code" "code \<noteq> ''200''"
    using assms(3) by (auto simp: require_ll_ok_def split: if_splits)
  moreover have "\<exists>hint. error_display (in_step e step) =
      ''authentication failed: '' @ step @ '': authentication failed: LL status '' @ code @ hint"
    if "code \<noteq> ''423''" "code \<noteq> ''901''"
    using that e(1) by (simp add: error_display_in_step ll_status_error_def)
  ultimately show ?thesis
    by (simp add: ll_status_invalidates_token_def)
qed

theorem ll_status_policy_witness:
  "let js = json_table [(''{}'', JObj [(''LL'', JObj [(''code'', JStr ''901'')])])]
   in needs_long_backoff TooManyConnections \<and> \<not> ll_status_invalidates_token ''901'' \<and>
      require_ll_ok js (JObj [(''LL'', JObj [(''code'', JStr ''901'')])]) = Err TooManyConnections"
proof -
  let ?v = "JObj [(''LL'', JObj [(''code'', JStr ''901'')])]"
  let ?js = "json_table [(''{}'', ?v)]"
  have "parse_json ?js (as_bytes ''{}'') = Ok ?v" "payload_ll_status ?js (as_bytes ''{}'') = Some ''901''"
    "require_ll_ok ?js ?v = Err TooManyConnections"
    by (simp_all add: parse_json_def payload_ll_status_def json_table_def ll_status_code_def
        str_member_def require_ll_ok_def ll_status_error_def)
  then show ?thesis
    using ll_status_policy [of ?js "as_bytes ''{}''" ?v "''901''" TooManyConnections "[]"]
    by (simp add: Let_def is_terminal_iff needs_long_backoff_iff ll_status_invalidates_token_def)
qed

text \<open>
  Applying an answer to the token held and reading the answer into a new token agree: on
  success the held token becomes the one read, except that an empty token text keeps the old
  text; on failure the token held is unchanged and the errors are the same up to one text.
\<close>

theorem apply_valid_until_agrees:
  "apply_valid_until js tok payload =
     (case parse_token_response js payload (hash_alg tok) of
        Inr new \<Rightarrow> (Ok (), if token_is_empty new then tok\<lparr>valid_until := valid_until new\<rparr> else new)
      | Inl e \<Rightarrow>
          (Err (if e = Protocol ''missing LL.value in token response''
                then Protocol ''missing LL.value'' else e), tok))"
proof (cases "parse_json js payload")
  case (Inl e)
  then have "e \<noteq> Protocol m" for m
    by (auto simp: parse_json_def map_err_Inl_iff)
  with Inl show ?thesis
    by (simp add: apply_valid_until_def parse_token_response_def)
next
  case (Inr root)
  note root = this
  show ?thesis
  proof (cases "require_ll_ok js root")
    case (Inl e)
    with root require_ll_ok_Err [OF Inl] show ?thesis
      by (simp add: apply_valid_until_def parse_token_response_def)
  next
    case (Inr ll)
    note ll = this
    show ?thesis
    proof (cases "json_get js ll ''value''")
      case None
      with root ll show ?thesis
        by (simp add: apply_valid_until_def parse_token_response_def)
    next
      case (Some v)
      have "e \<noteq> Protocol m" if "read_valid_until js v = Inl e" for e m
        using that by (auto simp: read_valid_until_def ok_or_def split: option.splits)
      with root ll Some show ?thesis
        by (cases "read_valid_until js v")
           (simp_all add: apply_valid_until_def parse_token_response_def token_new_def token_is_empty_def
             Let_def split: option.split)
    qed
  qed
qed



text \<open>
  What is logged of an authentication command never depends on the hashes, the user or the
  client it carries: the label of each command is its fixed verb.
\<close>

theorem auth_labels_hide_secrets:
  "cmd_label (cmd_request_token cred user perm client info) = ''jdev/sys/getjwt'' \<and>
   cmd_label (cmd_auth_with_token hash user) = ''authwithtoken'' \<and>
   cmd_label (cmd_refresh_token hash user) = ''jdev/sys/refreshjwt'' \<and>
   cmd_label (cmd_check_token hash user) = ''jdev/sys/checktoken'' \<and>
   cmd_label (cmd_kill_token hash user) = ''jdev/sys/killtoken'' \<and>
   cmd_label (cmd_getkey2 user) = ''jdev/sys/getkey2'' \<and>
   cmd_label (cmd_get_visu_salt user) = ''jdev/sys/getvisusalt'' \<and>
   cmd_label (CMD_KEY_EXCHANGE @ wrapped) = ''jdev/sys/keyexchange''"
proof -
  note l = label_jdev_sys [of "''getjwt''"] label_jdev_sys [of "''refreshjwt''"] label_jdev_sys [of "''checktoken''"]
    label_jdev_sys [of "''killtoken''"] label_jdev_sys [of "''getkey2''"] label_jdev_sys [of "''getvisusalt''"]
    label_jdev_sys [of "''keyexchange''"] label_authwithtoken
  show ?thesis
    unfolding cmd_request_token_def cmd_auth_with_token_def cmd_refresh_token_def
      cmd_check_token_def cmd_kill_token_def cmd_getkey2_def cmd_get_visu_salt_def cmd_names
    by (intro conjI) (use l in simp_all)
qed

end
