(* ===== verification/Lox_Store.thy ===== *)
theory Lox_Store
  imports Lox_Auth
begin

text \<open>
  The token store (\<^verbatim>\<open>src/src/auth/store.rs\<close>): the key that ties a token to an identity, the file
  format, and the file-backed store on an explicit file system. A path is its directory
  components and its file name. Every call of the operating system may fail; the outcomes
  are an argument, so that a failure, or a crash, at any point of a save is a value of it.
\<close>

section \<open>Bindings\<close>

fun binding_input :: "string list \<Rightarrow> bytes" where
  "binding_input [] = []"
| "binding_input (part # parts) =
     to_le_bytes 8 (word_of_nat (length part) :: u64) @ as_bytes part @ binding_input parts"

definition token_binding :: "crypto \<Rightarrow> string \<Rightarrow> string \<Rightarrow> string \<Rightarrow> string" where
  "token_binding c loxone_url username client_uuid =
     hex_encode c (sha256_digest c (binding_input [loxone_url, username, client_uuid]))"

section \<open>Files\<close>

definition STORE_MAGIC :: string where "STORE_MAGIC = ''loxwebsocket-token 1''"

type_synonym path = "string list \<times> string"

text \<open>\<^verbatim>\<open>Path::with_extension\<close>: the last dot starts the extension, unless the name begins with it.\<close>

definition file_stem :: "string \<Rightarrow> string" where
  "file_stem name =
     (case split_once (CHR ''.'') (rev name) of
        None \<Rightarrow> name
      | Some (_, before) \<Rightarrow> if before = [] then name else rev before)"

definition with_extension :: "path \<Rightarrow> string \<Rightarrow> path" where
  "with_extension p ext = (fst p, file_stem (snd p) @ ''.'' @ ext)"

record fsfile =
  contents :: bytes
  file_mode :: u32

type_synonym fs = "path \<rightharpoonup> fsfile"

text \<open>
  The outcome of each call: an error, or success. \<open>written\<close> is how much a failing write leaves
  in the file, \<open>umask\<close> the bits the process masks from the mode of new files.
\<close>

record os =
  read_err :: "io_error option"
  mkdir_err :: "io_error option"
  unlink_err :: "io_error option"
  create_err :: "io_error option"
  write_err :: "io_error option"
  written :: nat
  sync_err :: "io_error option"
  rename_err :: "io_error option"
  umask :: u32

definition os_fine :: "os \<Rightarrow> bool" where
  "os_fine os \<longleftrightarrow>
     read_err os = None \<and> mkdir_err os = None \<and> unlink_err os = None \<and> create_err os = None \<and>
     write_err os = None \<and> sync_err os = None \<and> rename_err os = None"

definition read_to_string :: "os \<Rightarrow> fs \<Rightarrow> path \<Rightarrow> io_error + string" where
  "read_to_string os fs p =
     (case read_err os of
        Some e \<Rightarrow> Inl e
      | None \<Rightarrow>
          (case fs p of
             None \<Rightarrow> Inl (IoError NotFound ''No such file or directory (os error 2)'')
           | Some f \<Rightarrow>
               (case from_utf8 (contents f) of
                  None \<Rightarrow> Inl (IoError InvalidData ''stream did not contain valid UTF-8'')
                | Some s \<Rightarrow> Inr s)))"

definition remove_file :: "os \<Rightarrow> fs \<Rightarrow> path \<Rightarrow> (io_error + unit) \<times> fs" where
  "remove_file os fs p =
     (case unlink_err os of
        Some e \<Rightarrow> (Inl e, fs)
      | None \<Rightarrow>
          if fs p = None then (Inl (IoError NotFound ''No such file or directory (os error 2)''), fs)
          else (Inr (), fs(p := None)))"

definition create_private_file :: "os \<Rightarrow> fs \<Rightarrow> path \<Rightarrow> (io_error + unit) \<times> fs" where
  "create_private_file os fs p =
     (case create_err os of
        Some e \<Rightarrow> (Inl e, fs)
      | None \<Rightarrow>
          (Inr (), fs(p \<mapsto> (case fs p of
              Some f \<Rightarrow> f\<lparr>contents := []\<rparr>
            | None \<Rightarrow> \<lparr>contents = [], file_mode = 0x180 AND NOT (umask os)\<rparr>))))"

definition create_private_dir :: "os \<Rightarrow> string list \<Rightarrow> io_error + unit" where
  "create_private_dir os dir = (case mkdir_err os of Some e \<Rightarrow> Inl e | None \<Rightarrow> Inr ())"

definition write_all :: "os \<Rightarrow> fs \<Rightarrow> path \<Rightarrow> bytes \<Rightarrow> (io_error + unit) \<times> fs" where
  "write_all os fs p bs =
     (case fs p of
        None \<Rightarrow> (Inl (IoError NotFound []), fs)
      | Some f \<Rightarrow>
          (case write_err os of
             Some e \<Rightarrow> (Inl e, fs(p \<mapsto> f\<lparr>contents := contents f @ take (written os) bs\<rparr>))
           | None \<Rightarrow> (Inr (), fs(p \<mapsto> f\<lparr>contents := contents f @ bs\<rparr>))))"

definition rename :: "os \<Rightarrow> fs \<Rightarrow> path \<Rightarrow> path \<Rightarrow> (io_error + unit) \<times> fs" where
  "rename os fs from to =
     (case rename_err os of
        Some e \<Rightarrow> (Inl e, fs)
      | None \<Rightarrow> (Inr (), if from = to then fs else fs(to := fs from, from := None)))"

definition warn_if_widely_readable :: "fs \<Rightarrow> path \<Rightarrow> u32 option" where
  "warn_if_widely_readable fs p =
     (case fs p of
        None \<Rightarrow> None
      | Some f \<Rightarrow>
          let mode = file_mode f AND 0x1FF
          in if mode AND 0x3F \<noteq> 0 then Some mode else None)"

section \<open>The file format\<close>

type_synonym fields = "string option \<times> string option \<times> i64 option \<times> HashAlg option"

definition read_field :: "string \<Rightarrow> string \<Rightarrow> fields \<Rightarrow> fields" where
  "read_field key val = (\<lambda>(b, t, v, h).
     if key = ''binding'' \<and> b = None then (Some val, t, v, h)
     else if key = ''token'' \<and> t = None then (b, Some val, v, h)
     else if key = ''valid_until'' \<and> v = None then
       (b, t, map_option word_of_int (parse_signed I64_MIN I64_MAX val), h)
     else if key = ''hash_alg'' \<and> h = None then
       (b, t, v, case hash_alg_parse val of Inr a \<Rightarrow> Some a | Inl _ \<Rightarrow> None)
     else (b, t, v, h))"

fun read_fields :: "string list \<Rightarrow> fields \<Rightarrow> fields" where
  "read_fields [] st = st"
| "read_fields (line # ls) st =
     (case split_once (CHR ''='') line of
        None \<Rightarrow> read_fields ls st
      | Some (key, val) \<Rightarrow> read_fields ls (read_field key val st))"

definition read_record :: "os \<Rightarrow> fs \<Rightarrow> path \<Rightarrow> (string \<times> LxToken) option" where
  "read_record os fs p =
     (case read_to_string os fs p of
        Inl _ \<Rightarrow> None
      | Inr raw \<Rightarrow>
          (case lines raw of
             [] \<Rightarrow> None
           | l # ls \<Rightarrow>
               if l \<noteq> STORE_MAGIC then None
               else
                 (case read_fields ls (None, None, None, None) of
                    (Some b, Some t, Some v, Some h) \<Rightarrow>
                      if t \<noteq> [] then Some (b, token_new t v h) else None
                  | _ \<Rightarrow> None)))"

definition record_text :: "string \<Rightarrow> LxToken \<Rightarrow> string" where
  "record_text binding tok =
     STORE_MAGIC @ [CHR 0x0A] @ ''binding='' @ binding @ [CHR 0x0A] @
     ''hash_alg='' @ hash_alg_as_str (hash_alg tok) @ [CHR 0x0A] @
     ''valid_until='' @ int_str (sint (valid_until tok)) @ [CHR 0x0A] @
     ''token='' @ token tok @ [CHR 0x0A]"

definition write_record :: "os \<Rightarrow> fs \<Rightarrow> path \<Rightarrow> string \<Rightarrow> LxToken \<Rightarrow> (io_error + unit) \<times> fs" where
  "write_record os fs p binding tok =
     (if CHR 0x0A \<in> set (token tok) \<or> CHR 0x0D \<in> set (token tok) then
        (Inl (IoError InvalidData ''the token contains a line break''), fs)
      else
        case (if fst p = [] then Inr () else create_private_dir os (fst p)) of
          Inl e \<Rightarrow> (Inl e, fs)
        | Inr _ \<Rightarrow>
            let tmp = with_extension p ''tmp'';
                fs = snd (remove_file os fs tmp)
            in case create_private_file os fs tmp of
                 (Inl e, fs) \<Rightarrow> (Inl e, fs)
               | (Inr _, fs) \<Rightarrow>
                   (case write_all os fs tmp (as_bytes (record_text binding tok)) of
                      (Inl e, fs) \<Rightarrow> (Inl e, fs)
                    | (Inr _, fs) \<Rightarrow>
                        (case sync_err os of
                           Some e \<Rightarrow> (Inl e, fs)
                         | None \<Rightarrow> rename os fs tmp p)))"

section \<open>The store\<close>

definition store_load :: "os \<Rightarrow> path \<Rightarrow> fs \<Rightarrow> string \<Rightarrow> LxToken option" where
  "store_load os p fs binding =
     (case read_record os fs p of
        None \<Rightarrow> None
      | Some (saved_binding, tok) \<Rightarrow> if saved_binding \<noteq> binding then None else Some tok)"

definition store_clear :: "os \<Rightarrow> path \<Rightarrow> fs \<Rightarrow> string \<Rightarrow> fs" where
  "store_clear os p fs binding = snd (remove_file os fs p)"

definition store_save :: "os \<Rightarrow> path \<Rightarrow> fs \<Rightarrow> string \<Rightarrow> LxToken \<Rightarrow> fs" where
  "store_save os p fs binding tok =
     (if token_is_empty tok then store_clear os p fs binding
      else snd (write_record os fs p binding tok))"

section \<open>The file format\<close>

definition no_break :: "string \<Rightarrow> bool" where
  "no_break s \<longleftrightarrow> CHR 0x0A \<notin> set s \<and> CHR 0x0D \<notin> set s"

text \<open>What can be stored: text without line breaks (every Rust string is valid UTF-8).\<close>

definition storable :: "LxToken \<Rightarrow> bool" where
  "storable t \<longleftrightarrow> token t \<noteq> [] \<and> no_break (token t) \<and> utf8_valid (as_bytes (token t))"

definition wf_binding :: "string \<Rightarrow> bool" where
  "wf_binding b \<longleftrightarrow> no_break b \<and> utf8_valid (as_bytes b)"

lemma no_break_simps [simp]:
  "no_break []" "no_break (x # s) \<longleftrightarrow> x \<noteq> CHR 0x0A \<and> x \<noteq> CHR 0x0D \<and> no_break s"
  "no_break (s @ t) \<longleftrightarrow> no_break s \<and> no_break t"
  by (auto simp: no_break_def)

lemma no_break_nat_str [simp]: "no_break (nat_str n)"
proof -
  have "CHR 0x0A \<notin> set (nat_str n)" "CHR 0x0D \<notin> set (nat_str n)"
    using nat_str_chars [of "CHR 0x0A" n] nat_str_chars [of "CHR 0x0D" n] by auto
  then show ?thesis
    by (simp add: no_break_def)
qed

lemma no_break_int_str [simp]: "no_break (int_str i)"
  by (simp add: int_str_def)

lemma no_break_alg [simp]: "no_break (hash_alg_as_str a)"
  by (cases a) simp_all

lemma lines_no_break: "no_break l \<Longrightarrow> lines (l @ CHR 0x0A # s) = l # lines s"
  unfolding no_break_def by (intro lines_Cons) (auto dest: last_in_set)

lemma lines_record:
  assumes "no_break b" and "no_break (token t)"
  shows "lines (record_text b t) =
    [STORE_MAGIC, ''binding='' @ b, ''hash_alg='' @ hash_alg_as_str (hash_alg t),
     ''valid_until='' @ int_str (sint (valid_until t)), ''token='' @ token t]"
proof -
  have r: "record_text b t =
    STORE_MAGIC @ CHR 0x0A # (''binding='' @ b) @ CHR 0x0A # (''hash_alg='' @ hash_alg_as_str (hash_alg t)) @
    CHR 0x0A # (''valid_until='' @ int_str (sint (valid_until t))) @ CHR 0x0A # (''token='' @ token t) @ [CHR 0x0A]"
    by (simp add: record_text_def)
  have n: "no_break STORE_MAGIC" "no_break (''binding='' @ b)" "no_break (''hash_alg='' @ hash_alg_as_str (hash_alg t))"
    "no_break (''valid_until='' @ int_str (sint (valid_until t)))" "no_break (''token='' @ token t)"
    using assms by (simp_all add: STORE_MAGIC_def)
  show ?thesis
    unfolding r lines_no_break [OF n(1)] lines_no_break [OF n(2)] lines_no_break [OF n(3)]
      lines_no_break [OF n(4)] lines_no_break [OF n(5)] by simp
qed

lemma hash_alg_parse_str [simp]: "hash_alg_parse (hash_alg_as_str a) = Ok a"
  by (cases a) (simp_all add: hash_alg_parse_def)

lemma parse_i64 [simp]: "parse_signed I64_MIN I64_MAX (int_str (sint (w :: i64))) = Some (sint w)"
  using sint_greater_eq [of w] sint_less [of w]
  by (intro parse_signed_int_str) (simp_all add: I64_MIN_def I64_MAX_def)

lemma split_field:
  "split_once (CHR ''='') (''binding='' @ v) = Some (''binding'', v)"
  "split_once (CHR ''='') (''hash_alg='' @ v) = Some (''hash_alg'', v)"
  "split_once (CHR ''='') (''valid_until='' @ v) = Some (''valid_until'', v)"
  "split_once (CHR ''='') (''token='' @ v) = Some (''token'', v)"
  using split_once_append [of "CHR ''=''" "''binding''" v] split_once_append [of "CHR ''=''" "''hash_alg''" v]
    split_once_append [of "CHR ''=''" "''valid_until''" v] split_once_append [of "CHR ''=''" "''token''" v]
  by simp_all

lemma read_fields_record:
  "read_fields
     [''binding='' @ b, ''hash_alg='' @ hash_alg_as_str (hash_alg t),
      ''valid_until='' @ int_str (sint (valid_until t)), ''token='' @ token t] (None, None, None, None) =
   (Some b, Some (token t), Some (valid_until t), Some (hash_alg t))"
  by (simp only: read_fields.simps split_field option.case prod.case) (simp add: read_field_def)

lemma record_utf8:
  assumes "wf_binding b" and "storable t"
  shows "utf8_valid (as_bytes (record_text b t))"
proof -
  have a: "utf8_valid (as_bytes s)" if "list_all (\<lambda>c. (of_char c :: nat) < 128) s" for s
    using that by (rule utf8_valid_ascii_str)
  have n: "list_all (\<lambda>c. (of_char c :: nat) < 128) (nat_str n)" for n
    unfolding list_all_iff using nat_str_chars by fastforce
  have "list_all (\<lambda>c. (of_char c :: nat) < 128) (int_str i)" for i
    using n by (simp add: int_str_def)
  moreover have "list_all (\<lambda>c. (of_char c :: nat) < 128) (hash_alg_as_str h)" for h
    by (cases h) simp_all
  ultimately show ?thesis
    using assms unfolding record_text_def as_bytes_append
    by (intro utf8_valid_append) (simp_all add: a wf_binding_def storable_def STORE_MAGIC_def)
qed

lemma read_record_text:
  assumes "fs p = Some f" and "contents f = as_bytes (record_text b t)" and "read_err os = None"
    and "wf_binding b" "storable t"
  shows "read_record os fs p = Some (b, t)"
proof -
  have "read_to_string os fs p = Inr (record_text b t)"
    using assms record_utf8 by (simp add: read_to_string_def from_utf8_def)
  moreover have "no_break b" "no_break (token t)" "token t \<noteq> []"
    using assms by (auto simp: wf_binding_def storable_def)
  ultimately show ?thesis
    by (simp only: read_record_def sum.case lines_record list.case read_fields_record option.case prod.case)
       (simp add: token_new_def)
qed

section \<open>Saving\<close>

definition tmp_path :: "path \<Rightarrow> path" where
  "tmp_path p = with_extension p ''tmp''"

lemma private_mode: "(0x180 AND NOT m) AND 0x3F = (0 :: u32)"
proof -
  have "(0x180 AND NOT m) AND 0x3F = (0x180 AND 0x3F) AND NOT (m :: u32)"
    by (simp add: ac_simps)
  then show ?thesis by simp
qed

lemma write_record_effect:
  assumes "tmp_path p \<noteq> p" and "write_record os fs p b t = (r, fs')"
  shows "(\<forall>q. q \<noteq> p \<longrightarrow> q \<noteq> tmp_path p \<longrightarrow> fs' q = fs q) \<and>
    (case r of
       Inl _ \<Rightarrow> fs' p = fs p
     | Inr _ \<Rightarrow> no_break (token t) \<and>
         (\<exists>f. fs' p = Some f \<and> contents f = as_bytes (record_text b t) \<and>
              (unlink_err os = None \<longrightarrow> file_mode f AND 0x3F = 0)) \<and> fs' (tmp_path p) = None)"
proof (cases "no_break (token t)")
  case False
  with assms show ?thesis
    by (auto simp: write_record_def no_break_def)
next
  case True
  have t: "with_extension p ''tmp'' \<noteq> p" "tmp_path p = with_extension p ''tmp''"
    using assms(1) by (auto simp: tmp_path_def)
  show ?thesis
    using assms(2) True t
    unfolding write_record_def no_break_def
    by (auto simp: remove_file_def create_private_file_def write_all_def rename_def Let_def private_mode
        split: option.splits if_splits sum.splits)
qed

lemma write_record_fine:
  assumes "os_fine os" and "no_break (token t)"
  shows "fst (write_record os fs p b t) = Inr ()"
  using assms
  by (auto simp: write_record_def os_fine_def no_break_def create_private_dir_def create_private_file_def
      write_all_def rename_def Let_def split: option.splits)

section \<open>The contract of a store\<close>

text \<open>
  What the client relies on: a token saved without a failure is the one loaded, for its own
  binding only; a cleared store is empty; and whatever fails, an operation never makes the
  store hold a pair of binding and token that was not given to it.
\<close>

datatype 'e store_op = Save 'e string LxToken | Clear 'e string

fun saved :: "'e store_op list \<Rightarrow> (string \<times> LxToken) set" where
  "saved [] = {}"
| "saved (Save e b t # ops) = insert (b, t) (saved ops)"
| "saved (Clear e b # ops) = saved ops"

fun store_run ::
  "('e \<Rightarrow> 's \<Rightarrow> string \<Rightarrow> LxToken \<Rightarrow> 's) \<Rightarrow> ('e \<Rightarrow> 's \<Rightarrow> string \<Rightarrow> 's) \<Rightarrow> 's \<Rightarrow> 'e store_op list \<Rightarrow> 's" where
  "store_run save clear s [] = s"
| "store_run save clear s (Save e b t # ops) = store_run save clear (save e s b t) ops"
| "store_run save clear s (Clear e b # ops) = store_run save clear (clear e s b) ops"

locale token_store =
  fixes load :: "'e \<Rightarrow> 'p \<Rightarrow> 's \<Rightarrow> string \<Rightarrow> LxToken option"
    and save :: "'e \<Rightarrow> 'p \<Rightarrow> 's \<Rightarrow> string \<Rightarrow> LxToken \<Rightarrow> 's"
    and clear :: "'e \<Rightarrow> 'p \<Rightarrow> 's \<Rightarrow> string \<Rightarrow> 's"
    and fine :: "'e \<Rightarrow> bool"
    and usable :: "'p \<Rightarrow> bool"
    and text_ok :: "string \<times> LxToken \<Rightarrow> bool"
    and accepts :: "LxToken \<Rightarrow> bool"
    and holds :: "'p \<Rightarrow> 's \<Rightarrow> string \<times> LxToken \<Rightarrow> bool"
  assumes load_save:
      "fine e \<Longrightarrow> fine e' \<Longrightarrow> usable p \<Longrightarrow> text_ok (b, t) \<Longrightarrow> accepts t \<Longrightarrow>
         load e' p (save e p s b t) b' = (if b' = b then Some t else None)"
    and save_empty: "fine e \<Longrightarrow> token t = [] \<Longrightarrow> load e' p (save e p s b t) b' = None"
    and load_clear: "fine e \<Longrightarrow> load e' p (clear e p s b) b' = None"
    and load_holds: "load e p s b = Some t \<Longrightarrow> holds p s (b, t)"
    and save_holds:
      "usable p \<Longrightarrow> text_ok (b, t) \<Longrightarrow> holds p (save e p s b t) bt \<Longrightarrow> holds p s bt \<or> bt = (b, t)"
    and clear_holds: "holds p (clear e p s b) bt \<Longrightarrow> holds p s bt"
begin

lemma run_holds:
  assumes "usable p" and "\<forall>bt\<in>saved ops. text_ok bt"
    and "holds p (store_run (\<lambda>e. save e p) (\<lambda>e. clear e p) s ops) bt"
  shows "holds p s bt \<or> bt \<in> saved ops"
  using assms(2,3)
proof (induction ops arbitrary: s)
  case (Cons op ops)
  show ?case
  proof (cases op)
    case (Save e b t)
    then have "holds p (save e p s b t) bt \<or> bt \<in> saved ops"
      using Cons by simp
    then show ?thesis
      using save_holds [OF assms(1), of b t e s bt] Cons.prems(1) Save by auto
  next
    case (Clear e b)
    then have "holds p (clear e p s b) bt \<or> bt \<in> saved ops"
      using Cons by simp
    then show ?thesis
      using clear_holds [of p e s b bt] Clear by auto
  qed
qed simp

lemma load_history:
  assumes "usable p" and "\<forall>bt\<in>saved ops. text_ok bt"
    and "load e p (store_run (\<lambda>e. save e p) (\<lambda>e. clear e p) s ops) b = Some t"
  shows "holds p s (b, t) \<or> (b, t) \<in> saved ops"
  using run_holds [OF assms(1,2)] load_holds [OF assms(3)] by blast

lemma store_run_append:
  "store_run sv cl s (ops @ ops') = store_run sv cl (store_run sv cl s ops) ops'"
  by (induction sv cl s ops rule: store_run.induct) simp_all

lemma load_last:
  assumes "fine e" "fine e'" "usable p" "text_ok (b, t)" "accepts t"
  shows "load e' p (store_run (\<lambda>e. save e p) (\<lambda>e. clear e p) s (ops @ [Save e b t])) b' =
      (if b' = b then Some t else None)"
    "load e' p (store_run (\<lambda>e. save e p) (\<lambda>e. clear e p) s (ops @ [Clear e b])) b' = None"
  using assms by (simp_all add: store_run_append load_save load_clear)

end

text \<open>The file store keeps the contract, for a path that is not its own temporary file.\<close>

definition file_holds :: "path \<Rightarrow> fs \<Rightarrow> string \<times> LxToken \<Rightarrow> bool" where
  "file_holds p fs bt \<longleftrightarrow> (\<exists>os. read_record os fs p = Some bt)"

definition file_text_ok :: "string \<times> LxToken \<Rightarrow> bool" where
  "file_text_ok bt \<longleftrightarrow> wf_binding (fst bt) \<and> utf8_valid (as_bytes (token (snd bt)))"

lemma read_record_cong:
  assumes "fs' p = fs p"
  shows "read_record os fs' p = read_record os fs p"
  unfolding read_record_def read_to_string_def assms ..

lemma read_record_err: "read_record os fs p = Some bt \<Longrightarrow> read_err os = None"
  by (auto simp: read_record_def read_to_string_def split: option.splits)

lemma read_record_missing: "fs p = None \<Longrightarrow> read_record os fs p = None"
  by (auto simp: read_record_def read_to_string_def split: option.splits)

lemma clear_effect: "store_clear os p fs b p = fs p \<or> store_clear os p fs b p = None"
  by (auto simp: store_clear_def remove_file_def split: option.splits)

lemma clear_holds_file: "file_holds p (store_clear os p fs b) bt \<Longrightarrow> file_holds p fs bt"
  using clear_effect [of os p fs b] read_record_cong [of "store_clear os p fs b" p fs]
    read_record_missing [of "store_clear os p fs b" p]
  by (auto simp: file_holds_def)

lemma save_holds_file:
  assumes "tmp_path p \<noteq> p" and "file_text_ok (b, t)" and "file_holds p (store_save os p fs b t) bt"
  shows "file_holds p fs bt \<or> bt = (b, t)"
proof (cases "token_is_empty t")
  case True
  with assms(3) show ?thesis
    by (auto simp: store_save_def intro: clear_holds_file)
next
  case False
  obtain r fs' where w: "write_record os fs p b t = (r, fs')"
    by fastforce
  then obtain os' where h: "read_record os' fs' p = Some bt"
    using assms(3) False by (auto simp: store_save_def file_holds_def)
  show ?thesis
  proof (cases r)
    case (Inl e)
    then have "fs' p = fs p"
      using write_record_effect [OF assms(1) w] by simp
    then show ?thesis
      using h read_record_cong [of fs' p fs] by (auto simp: file_holds_def)
  next
    case (Inr u)
    then obtain f where "fs' p = Some f" "contents f = as_bytes (record_text b t)" "no_break (token t)"
      using write_record_effect [OF assms(1) w] by auto
    then have "read_record os' fs' p = Some (b, t)"
      using assms(2) False read_record_err [OF h]
      by (intro read_record_text) (auto simp: file_text_ok_def storable_def token_is_empty_def)
    with h show ?thesis by simp
  qed
qed

lemma load_save_file:
  assumes "os_fine os" "os_fine os'" "tmp_path p \<noteq> p" "file_text_ok (b, t)"
    and "token t \<noteq> [] \<and> no_break (token t)"
  shows "store_load os' p (store_save os p fs b t) b' = (if b' = b then Some t else None)"
proof -
  obtain fs' where w: "write_record os fs p b t = (Inr (), fs')"
    using write_record_fine [of os t fs p b] assms by (metis prod.collapse)
  then obtain f where "fs' p = Some f" "contents f = as_bytes (record_text b t)"
    using write_record_effect [OF assms(3) w] by auto
  then have "read_record os' fs' p = Some (b, t)"
    using assms by (intro read_record_text) (auto simp: file_text_ok_def storable_def os_fine_def)
  then show ?thesis
    using assms(5) w by (simp add: store_load_def store_save_def token_is_empty_def)
qed

interpretation file_store: token_store store_load store_save store_clear os_fine
  "\<lambda>p. tmp_path p \<noteq> p" file_text_ok "\<lambda>t. token t \<noteq> [] \<and> no_break (token t)" file_holds
proof
  show "store_load e p s b = Some t \<Longrightarrow> file_holds p s (b, t)" for e p s b t
    by (auto simp: store_load_def file_holds_def split: option.splits if_splits)
  show "os_fine e \<Longrightarrow> store_load e' p (store_clear e p s b) b' = None" for e e' p s b b'
    by (auto simp: store_load_def store_clear_def remove_file_def os_fine_def read_record_missing)
  then show "os_fine e \<Longrightarrow> token t = [] \<Longrightarrow> store_load e' p (store_save e p s b t) b' = None" for e t e' p s b b'
    by (simp add: store_save_def token_is_empty_def)
qed (rule load_save_file save_holds_file clear_holds_file; assumption)+

section \<open>Bindings\<close>

lemma append_eq_length: "xs @ us = ys @ vs \<Longrightarrow> length xs = length ys \<Longrightarrow> xs = ys \<and> us = vs"
  by simp

lemma binding_input_inj:
  assumes "binding_input ps = binding_input qs" and "length ps = length qs"
    and "list_all (\<lambda>s. length s < 2 ^ 64) (ps @ qs)"
  shows "ps = qs"
  using assms(2,1,3)
proof (induction ps qs rule: list_induct2)
  case (Cons x ps y qs)
  let ?x = "word_of_nat (length x) :: u64" and ?y = "word_of_nat (length y) :: u64"
  have "to_le_bytes 8 ?x @ as_bytes x @ binding_input ps = to_le_bytes 8 ?y @ as_bytes y @ binding_input qs"
    using Cons.prems(1) by simp
  then have l: "to_le_bytes 8 ?x = to_le_bytes 8 ?y" and r: "as_bytes x @ binding_input ps = as_bytes y @ binding_input qs"
    by (blast dest: append_eq_length [OF _ trans [OF length_to_le_bytes length_to_le_bytes [symmetric]]])+
  have "?x = ?y"
    using l le64_roundtrip by metis
  moreover have "unat ?x = length x" "unat ?y = length y"
    using Cons.prems(2) by (intro unat_word_of_nat; simp)+
  ultimately have "length x = length y"
    by metis
  then have "as_bytes x = as_bytes y" "binding_input ps = binding_input qs"
    using append_eq_length [OF r] by simp_all
  then show ?case
    using Cons.IH Cons.prems(2) by simp
qed simp

lemma hex_digit_inj:
  assumes "n < 16" "m < 16" "hex_digit n = hex_digit m"
  shows "n = m"
proof -
  have "distinct ''0123456789abcdef''" "length ''0123456789abcdef'' = 16"
    by simp_all
  then show ?thesis
    using assms nth_eq_iff_index_eq unfolding hex_digit_def by metis
qed

lemma hex2_inj:
  assumes "hex2 a = hex2 b"
  shows "a = b"
proof -
  have "unat a div 16 < 16" "unat b div 16 < 16"
    using unsigned_less [of a, where 'a = nat] unsigned_less [of b, where 'a = nat] by auto
  then have "unat a div 16 = unat b div 16" "unat a mod 16 = unat b mod 16"
    using assms hex_digit_inj unfolding hex2_def by auto
  then show "a = b"
    by (metis div_mult_mod_eq word_unat_eq_iff)
qed

lemma hex_lower_inj: "hex_lower a = hex_lower b \<Longrightarrow> a = b"
proof (induction a arbitrary: b)
  case Nil
  then show ?case by (cases b) (auto simp: hex_lower_def hex2_def)
next
  case (Cons x a)
  then obtain y b' where b: "b = y # b'"
    by (cases b) (auto simp: hex_lower_def hex2_def)
  then have "hex2 x = hex2 y" "hex_lower a = hex_lower b'"
    using Cons.prems by (auto simp: hex_lower_def hex2_def)
  with Cons.IH [of b'] b show ?case
    using hex2_inj by simp
qed

section \<open>Properties\<close>

text \<open>
  Whatever the store went through before, a token saved without a failure is the token
  loaded for its binding, field by field, and no other binding is given it.
\<close>

theorem file_store_roundtrip:
  assumes "os_fine os" "os_fine os'" and "tmp_path p \<noteq> p" and "file_text_ok (b, t)"
    and "token t \<noteq> []" "no_break (token t)"
  shows "store_load os' p
      (store_run (\<lambda>e. store_save e p) (\<lambda>e. store_clear e p) fs (ops @ [Save os b t])) b' =
    (if b' = b then Some t else None)"
  using file_store.load_last(1) [OF assms(1-4)] assms(5,6) by blast

theorem file_store_roundtrip_witness:
  "\<exists>os fs. store_load os ([''var''], ''lox.cfg'')
      (store_run (\<lambda>e. store_save e ([''var''], ''lox.cfg'')) (\<lambda>e. store_clear e ([''var''], ''lox.cfg''))
         fs [Save os ''ab'' (token_new ''jwt=1'' 5 Sha256)]) ''ab'' = Some (token_new ''jwt=1'' 5 Sha256)"
proof -
  define os where "os = \<lparr>read_err = None, mkdir_err = None, unlink_err = None, create_err = None,
    write_err = None, written = 0, sync_err = None, rename_err = None, umask = 0\<rparr>"
  have "os_fine os"
    by (simp add: os_fine_def os_def)
  moreover have "tmp_path ([''var''], ''lox.cfg'') \<noteq> ([''var''], ''lox.cfg'')"
    by (simp add: tmp_path_def with_extension_def file_stem_def split_once_def)
  moreover have "file_text_ok (''ab'', token_new ''jwt=1'' 5 Sha256)"
    by (simp add: file_text_ok_def wf_binding_def token_new_def utf8_valid_ascii_str)
  ultimately show ?thesis
    using file_store_roundtrip [of os os "([''var''], ''lox.cfg'')" "''ab''" "token_new ''jwt=1'' 5 Sha256" Map.empty "[]" "''ab''"]
    by (auto simp: token_new_def)
qed





text \<open>
  The exception to the atomic replacement: a token file whose name already ends in
  \<^verbatim>\<open>.tmp\<close> is its own temporary file, and a save that fails while writing destroys the token
  that was there.
\<close>

theorem save_over_own_tmp:
  "\<exists>os fs f. fs ([], ''lox.tmp'') = Some f \<and> contents f \<noteq> [] \<and>
     fst (write_record os fs ([], ''lox.tmp'') ''ab'' (token_new ''x'' 5 Sha1)) \<noteq> Inr () \<and>
     read_record os (snd (write_record os fs ([], ''lox.tmp'') ''ab'' (token_new ''x'' 5 Sha1))) ([], ''lox.tmp'') = None \<and>
     read_record os fs ([], ''lox.tmp'') = Some (''ab'', token_new ''old'' 4 Sha1)"
proof -
  let ?p = "([] :: string list, ''lox.tmp'')" and ?old = "token_new ''old'' 4 Sha1"
  define os where "os = \<lparr>read_err = None, mkdir_err = None, unlink_err = None, create_err = None,
    write_err = Some (IoError OtherKind ''No space left on device''), written = 0, sync_err = None,
    rename_err = None, umask = 0\<rparr>"
  define f where "f = \<lparr>contents = as_bytes (record_text ''ab'' ?old), file_mode = 0x180\<rparr>"
  define fs where "fs = Map.empty(?p \<mapsto> f)"
  have tmp: "with_extension ?p ''tmp'' = ?p"
    by (simp add: with_extension_def file_stem_def split_once_def)
  have "read_record os fs ?p = Some (''ab'', ?old)"
    by (rule read_record_text [of _ _ f])
       (simp_all add: fs_def f_def os_def wf_binding_def storable_def token_new_def utf8_valid_ascii_str)
  moreover have "write_record os fs ?p ''ab'' (token_new ''x'' 5 Sha1) =
      (Inl (IoError OtherKind ''No space left on device''), fs(?p \<mapsto> \<lparr>contents = [], file_mode = 0x180\<rparr>))"
    unfolding write_record_def tmp
    by (simp add: token_new_def os_def fs_def f_def remove_file_def create_private_file_def write_all_def Let_def)
  moreover have "read_record os (fs(?p \<mapsto> \<lparr>contents = [], file_mode = 0x180\<rparr>)) ?p = None"
    by (simp add: read_record_def read_to_string_def from_utf8_def str_of_def os_def)
  moreover have "fs ?p = Some f" "contents f \<noteq> []"
    by (simp_all add: fs_def f_def record_text_def STORE_MAGIC_def as_bytes_def)
  ultimately show ?thesis
    by (intro exI [of _ os] exI [of _ fs] exI [of _ f]) simp
qed

text \<open>
  The binding separates identities: two identities with the same binding are the same, or
  exhibit a collision of SHA-256. No choice of URL, user and client moves a boundary between
  the three.
\<close>

theorem token_binding_separates:
  assumes "crypto_ok c" and "list_all (\<lambda>s. length s < 2 ^ 64) [url, user, uuid, url', user', uuid']"
    and "token_binding c url user uuid = token_binding c url' user' uuid'"
  shows "(url, user, uuid) = (url', user', uuid') \<or>
    (\<exists>m m'. m \<noteq> m' \<and> sha256_digest c m = sha256_digest c m')"
proof -
  let ?m = "binding_input [url, user, uuid]" and ?m' = "binding_input [url', user', uuid']"
  have "sha256_digest c ?m = sha256_digest c ?m'"
    using assms(3) unfolding token_binding_def crypto_okD(6) [OF assms(1)] by (rule hex_lower_inj)
  moreover have "[url, user, uuid] = [url', user', uuid']" if "?m = ?m'"
    using that by (rule binding_input_inj) (use assms(2) in simp_all)
  ultimately show ?thesis
    by blast
qed

theorem token_binding_separates_witness:
  "token_binding crypto_std ''http://h'' ''user'' ''c'' = token_binding crypto_std ''http://h'' ''user'' ''d'' \<and>
   (\<exists>m m'. m \<noteq> m' \<and> sha256_digest crypto_std m = sha256_digest crypto_std m')"
proof -
  have "take 32 (binding_input [''http://h'', ''user'', ''c'']) = take 32 (binding_input [''http://h'', ''user'', ''d''])"
    by simp
  then have e: "token_binding crypto_std ''http://h'' ''user'' ''c'' = token_binding crypto_std ''http://h'' ''user'' ''d''"
    by (simp add: token_binding_def crypto_std_def del: binding_input.simps)
  then show ?thesis
    using token_binding_separates [OF crypto_ok_std _ e] by auto
qed

end
