(* ===== verification/Lox_Policy.thy ===== *)
theory Lox_Policy
  imports Lox_Session
begin

text \<open>
  The small policies of the client: timing constants and the reader's timeout
  (\<^verbatim>\<open>src/src/client/keepalive.rs\<close>), what a close code means for the next attempt
  (\<^verbatim>\<open>src/src/client/reconnect.rs\<close>), and the queue of controls waiting for a visualisation salt
  (\<^verbatim>\<open>src/src/client/visu.rs\<close>). A \<^verbatim>\<open>Duration\<close> is a number of nanoseconds.
\<close>

section \<open>Timing\<close>

type_synonym duration = nat

definition from_secs :: "nat \<Rightarrow> duration" where
  "from_secs s = s * 1000000000"

definition KEEP_ALIVE_PERIOD_SECS :: nat where "KEEP_ALIVE_PERIOD_SECS = 60"
definition CONNECT_DELAY_SECS :: nat where "CONNECT_DELAY_SECS = 15"
definition LONG_BACKOFF_SECS :: nat where "LONG_BACKOFF_SECS = 5 * 60"
definition TOKEN_REFRESH_SECONDS_BEFORE_EXPIRY :: i64 where
  "TOKEN_REFRESH_SECONDS_BEFORE_EXPIRY = 24 * 60 * 60"
definition TOKEN_REFRESH_DEFAULT_SECONDS :: i64 where
  "TOKEN_REFRESH_DEFAULT_SECONDS = 2 * 24 * 60 * 60"
definition PRODUCTIVE_SESSION_SECS :: nat where "PRODUCTIVE_SESSION_SECS = 60"
definition TOKEN_REFRESH_MIN_DELAY_SECS :: i64 where "TOKEN_REFRESH_MIN_DELAY_SECS = 15"
definition COMMAND_TIMEOUT_SECS :: nat where "COMMAND_TIMEOUT_SECS = 30"
definition SHUTDOWN_COMMAND_TIMEOUT_SECS :: nat where "SHUTDOWN_COMMAND_TIMEOUT_SECS = 3"
definition SHUTDOWN_JOIN_TIMEOUT_SECS :: nat where "SHUTDOWN_JOIN_TIMEOUT_SECS = 10"
definition READ_IDLE_TIMEOUT_SECS :: nat where
  "READ_IDLE_TIMEOUT_SECS = 2 * KEEP_ALIVE_PERIOD_SECS + 30"
definition MAX_MISSED_KEEPALIVES :: u32 where "MAX_MISSED_KEEPALIVES = 3"
definition MIN_PAYLOAD_THROUGHPUT_BYTES_PER_SEC :: nat where
  "MIN_PAYLOAD_THROUGHPUT_BYTES_PER_SEC = 32 * 1024"
definition MAX_PAYLOAD_EXTENSION_SECS :: nat where "MAX_PAYLOAD_EXTENSION_SECS = 10 * 60"

definition read_timeout :: "duration \<Rightarrow> u32 \<Rightarrow> duration" where
  "read_timeout base announced_len =
     (if announced_len = 0 then base
      else
        let extra = min (div_ceil (unat announced_len) MIN_PAYLOAD_THROUGHPUT_BYTES_PER_SEC)
                      MAX_PAYLOAD_EXTENSION_SECS
        in base + from_secs extra)"

section \<open>Close codes\<close>

definition should_continue :: "u32 \<Rightarrow> u32 \<Rightarrow> bool" where
  "should_continue attempt max_attempts \<longleftrightarrow> max_attempts = 0 \<or> attempt < max_attempts"

datatype Backoff = Normal | Long

definition backoff_for_close :: "u16 option \<Rightarrow> Backoff" where
  "backoff_for_close code =
     (if code = Some 4003 then Long
      else if code = Some 4007 then Long
      else if code = Some 4008 then Long
      else Normal)"

definition terminal_close :: "u16 option \<Rightarrow> error option" where
  "terminal_close code = (if code = Some 4006 then Some UserDisabled else None)"

definition token_survives_close :: "u16 option \<Rightarrow> bool" where
  "token_survives_close code \<longleftrightarrow> \<not> (code = Some 4004 \<or> code = Some 4005 \<or> code = Some 4006)"

definition describe_close_code :: "u16 option \<Rightarrow> string" where
  "describe_close_code code =
     (case code of
        None \<Rightarrow> ''closed without close code''
      | Some c \<Rightarrow>
          if c = 1000 then ''normal closure''
          else if c = 1001 then ''endpoint going away (shutdown/reboot)''
          else if c = 1005 then ''closed without status code''
          else if c = 1006 then ''abnormal closure (no close frame)''
          else if c = 1011 then ''Miniserver internal error''
          else if c = 1012 then ''Miniserver restarting''
          else if c = 4003 then ''blocked: too many failed login attempts''
          else if c = 4004 then ''a user has been changed''
          else if c = 4005 then ''connected user has been changed''
          else if c = 4006 then ''user has been disabled''
          else if c = 4007 then ''Miniserver performing an update''
          else if c = 4008 then ''no event slots available''
          else ''unrecognized close code'')"

section \<open>Visualisation queue\<close>

record VisuPending =
  visu_uuid :: string
  visu_value :: string
  visu_pw :: string

type_synonym VisuQueue = "VisuPending list"

definition visu_new :: VisuQueue where "visu_new = []"

definition visu_push :: "VisuPending \<Rightarrow> VisuQueue \<Rightarrow> VisuQueue" where
  "visu_push x q = (if q \<noteq> [] then tl q else q) @ [x]"

definition visu_drain :: "VisuQueue \<Rightarrow> VisuPending list \<times> VisuQueue" where
  "visu_drain q = (q, [])"

definition visu_is_empty :: "VisuQueue \<Rightarrow> bool" where
  "visu_is_empty q \<longleftrightarrow> q = []"

section \<open>Properties\<close>

text \<open>The queue holds at most one control, the last one pushed since the last drain.\<close>

datatype visu_op = VPush VisuPending | VDrain

fun visu_run :: "visu_op list \<Rightarrow> VisuQueue \<Rightarrow> VisuQueue" where
  "visu_run [] q = q"
| "visu_run (VPush x # ops) q = visu_run ops (visu_push x q)"
| "visu_run (VDrain # ops) q = visu_run ops (snd (visu_drain q))"

lemma visu_run_append: "visu_run (ops @ ops') q = visu_run ops' (visu_run ops q)"
  by (induction ops q rule: visu_run.induct) auto

lemma visu_push_single: "length q \<le> 1 \<Longrightarrow> visu_push x q = [x]"
  by (cases q) (auto simp: visu_push_def)

lemma visu_run_length: "length q \<le> 1 \<Longrightarrow> length (visu_run ops q) \<le> 1"
  by (induction ops q rule: visu_run.induct) (auto simp: visu_push_single visu_drain_def)

lemma div_ceil_bounds:
  assumes "0 < d"
  shows "n \<le> div_ceil n d * d" "div_ceil n d * d < n + d" "0 < n \<Longrightarrow> 0 < div_ceil n d"
proof -
  have n: "n = d * (n div d) + n mod d" and m: "n mod d < d"
    using assms by simp_all
  have c: "div_ceil n d * d = d * (n div d) + (if n mod d = 0 then 0 else d)"
    by (simp add: div_ceil_def algebra_simps)
  show "n \<le> div_ceil n d * d" "div_ceil n d * d < n + d"
    using n m unfolding c by (auto, linarith+)
  then show "0 < n \<Longrightarrow> 0 < div_ceil n d"
    by (metis gr0I less_le_not_le mult_0)
qed

text \<open>
  The reader waits at least its idle timeout and at most ten minutes longer, whatever
  length a header announces; and as long as the announced payload needs no more than ten
  minutes at the assumed throughput, the extension is enough to receive it and by less than
  a second too long.
\<close>

theorem read_timeout_bounds:
  "base \<le> read_timeout base len \<and>
   read_timeout base len \<le> base + from_secs MAX_PAYLOAD_EXTENSION_SECS \<and>
   (unat len \<le> MAX_PAYLOAD_EXTENSION_SECS * MIN_PAYLOAD_THROUGHPUT_BYTES_PER_SEC \<longrightarrow>
      (\<exists>secs. read_timeout base len = base + from_secs secs \<and>
         unat len \<le> secs * MIN_PAYLOAD_THROUGHPUT_BYTES_PER_SEC \<and>
         secs * MIN_PAYLOAD_THROUGHPUT_BYTES_PER_SEC < unat len + MIN_PAYLOAD_THROUGHPUT_BYTES_PER_SEC))"
proof -
  let ?t = MIN_PAYLOAD_THROUGHPUT_BYTES_PER_SEC and ?m = MAX_PAYLOAD_EXTENSION_SECS
  let ?c = "div_ceil (unat len) ?t"
  have t: "0 < ?t"
    by (simp add: MIN_PAYLOAD_THROUGHPUT_BYTES_PER_SEC_def)
  have c: "read_timeout base len = base + from_secs (min ?c ?m)"
    by (auto simp: read_timeout_def Let_def from_secs_def div_ceil_def)
  have "?c \<le> ?m" if "unat len \<le> ?m * ?t"
  proof (rule ccontr)
    assume "\<not> ?c \<le> ?m"
    then have "(?m + 1) * ?t \<le> ?c * ?t"
      by (intro mult_right_mono) auto
    then show False
      using div_ceil_bounds(2) [OF t, of "unat len"] that by simp
  qed
  then show ?thesis
    using div_ceil_bounds(1,2) [OF t, of "unat len"] unfolding c
    by (auto simp: from_secs_def min_def intro!: exI [of _ ?c])
qed

theorem read_timeout_bounds_witness:
  "unat (1000000 :: u32) \<le> 600 * 32768 \<and>
   (\<exists>secs. read_timeout (from_secs 150) 1000000 = from_secs 150 + from_secs secs \<and> 1000000 \<le> secs * 32768)"
  using read_timeout_bounds [of "from_secs 150" 1000000]
  by (auto simp: MAX_PAYLOAD_EXTENSION_SECS_def MIN_PAYLOAD_THROUGHPUT_BYTES_PER_SEC_def)

text \<open>
  The decisions a close code makes exclude each other: a code that ends the client for good
  neither earns the long backoff nor keeps the token; a code that earns the long backoff keeps
  the token, so a full or updating Miniserver never costs a re-authentication; and each such
  code has a description of its own.
\<close>

theorem close_code_policy:
  "(terminal_close code \<noteq> None \<longrightarrow>
      backoff_for_close code = Normal \<and> \<not> token_survives_close code \<and>
      (\<forall>e. terminal_close code = Some e \<longrightarrow> is_terminal e)) \<and>
   (backoff_for_close code = Long \<longrightarrow> token_survives_close code \<and> terminal_close code = None) \<and>
   (\<forall>code'. describe_close_code code = describe_close_code code' \<and>
      (backoff_for_close code = Long \<or> \<not> token_survives_close code) \<longrightarrow> code' = code)"
  by (auto simp: terminal_close_def backoff_for_close_def token_survives_close_def is_terminal_iff
      describe_close_code_def split: option.splits if_splits)

theorem close_code_policy_witness:
  "terminal_close (Some 4006) = Some UserDisabled \<and> backoff_for_close (Some 4006) = Normal \<and>
   token_survives_close (Some 4008)"
  using close_code_policy [of "Some 4006"] close_code_policy [of "Some 4008"]
  by (simp add: terminal_close_def backoff_for_close_def)

text \<open>
  Whatever sequence of pushes and drains went before, at most one secured control waits for
  its salt, and after a push it is that control: an older one is never sent in its place.
\<close>

theorem visu_latest_only:
  "length (visu_run ops visu_new) \<le> 1 \<and>
   fst (visu_drain (visu_run (ops @ [VPush x]) visu_new)) = [x] \<and>
   visu_is_empty (visu_run (ops @ [VDrain]) visu_new)"
  using visu_run_length [of "[]" ops]
  by (simp add: visu_run_append visu_new_def visu_push_single visu_drain_def visu_is_empty_def)

end
