(* ===== verification/Lox_State.thy ===== *)
theory Lox_State
  imports Lox_Store Lox_Policy
begin

text \<open>
  The state the tasks of the client share: the metrics (\<^verbatim>\<open>src/src/metrics.rs\<close>), the connection
  state and the token with its mirror in a store, and the keepalive bookkeeping
  (\<^verbatim>\<open>src/src/client/state.rs\<close>). An atomic counter is a 64-bit word, a mutex its contents, an
  \<^verbatim>\<open>Instant\<close> a number; clock readings are arguments.
\<close>

section \<open>Connection state\<close>

datatype ConnState = StClosed | StConnecting | StConnected | StReconnecting

fun conn_state_u8 :: "ConnState \<Rightarrow> u8" where
  "conn_state_u8 StClosed = 0"
| "conn_state_u8 StConnecting = 1"
| "conn_state_u8 StConnected = 2"
| "conn_state_u8 StReconnecting = 3"

fun conn_state_as_str :: "ConnState \<Rightarrow> string" where
  "conn_state_as_str StClosed = ''CLOSED''"
| "conn_state_as_str StConnecting = ''CONNECTING''"
| "conn_state_as_str StConnected = ''CONNECTED''"
| "conn_state_as_str StReconnecting = ''RECONNECTING''"

definition conn_state_from_u8 :: "u8 \<Rightarrow> ConnState" where
  "conn_state_from_u8 v =
     (if v = 1 then StConnecting else if v = 2 then StConnected
      else if v = 3 then StReconnecting else StClosed)"

type_synonym ConnStateCell = u8

definition cell_set :: "ConnState \<Rightarrow> ConnStateCell \<Rightarrow> ConnStateCell" where
  "cell_set st cell = conn_state_u8 st"

definition cell_get :: "ConnStateCell \<Rightarrow> ConnState" where
  "cell_get cell = conn_state_from_u8 cell"

section \<open>Metrics\<close>

definition MESSAGE_TYPE_COUNT :: nat where "MESSAGE_TYPE_COUNT = 8"

record LoxMetrics =
  lm_state :: ConnState
  lm_connects :: u64
  lm_reconnects :: u64
  lm_reconnect_attempts :: u64
  lm_reconnect_failures :: u64
  lm_disconnects :: u64
  lm_messages_received :: u64
  lm_commands_sent :: u64
  lm_command_timeouts :: u64
  lm_command_errors :: u64
  lm_correlation_mismatches :: u64
  lm_unsolicited_responses :: u64
  lm_keepalive_misses :: u64
  lm_controls_rejected_offline :: u64
  lm_controls_rejected_backpressure :: u64
  lm_messages_received_by_type :: "u64 list"
  lm_disconnects_by_close_code :: "u16 option \<Rightarrow> u64 option"
  lm_connected_since_monotonic :: "nat option"
  lm_connected_since_wall :: "f64 option"
  lm_token_valid_until :: "i64 option"
  lm_last_keepalive_rtt_ms :: "f64 option"

record MetricsState =
  m_connects :: u64
  m_reconnects :: u64
  m_reconnect_attempts :: u64
  m_reconnect_failures :: u64
  m_disconnects :: u64
  m_messages_received :: u64
  m_commands_sent :: u64
  m_command_timeouts :: u64
  m_command_errors :: u64
  m_correlation_mismatches :: u64
  m_unsolicited_responses :: u64
  m_keepalive_misses :: u64
  m_controls_rejected_offline :: u64
  m_controls_rejected_backpressure :: u64
  by_type :: "u64 list"
  by_close_code :: "u16 option \<Rightarrow> u64 option"
  connected_since :: "nat option \<times> f64 option"
  last_keepalive_rtt_ms :: "f64 option"

definition metrics_new :: MetricsState where
  "metrics_new =
     \<lparr>m_connects = 0, m_reconnects = 0, m_reconnect_attempts = 0, m_reconnect_failures = 0,
      m_disconnects = 0, m_messages_received = 0, m_commands_sent = 0, m_command_timeouts = 0,
      m_command_errors = 0, m_correlation_mismatches = 0, m_unsolicited_responses = 0,
      m_keepalive_misses = 0, m_controls_rejected_offline = 0, m_controls_rejected_backpressure = 0,
      by_type = replicate MESSAGE_TYPE_COUNT 0, by_close_code = Map.empty,
      connected_since = (None, None), last_keepalive_rtt_ms = None\<rparr>"

definition mark_connected :: "nat \<Rightarrow> f64 \<Rightarrow> MetricsState \<Rightarrow> MetricsState" where
  "mark_connected now wall m = m\<lparr>connected_since := (Some now, Some wall)\<rparr>"

definition mark_disconnected :: "u16 option \<Rightarrow> MetricsState \<Rightarrow> MetricsState" where
  "mark_disconnected close_code m =
     m\<lparr>m_disconnects := m_disconnects m + 1,
       by_close_code := (by_close_code m)
         (close_code \<mapsto> (case by_close_code m close_code of Some n \<Rightarrow> n | None \<Rightarrow> 0) + 1),
       connected_since := (None, None)\<rparr>"

definition record_message :: "u8 \<Rightarrow> MetricsState \<Rightarrow> MetricsState" where
  "record_message msg_type m =
     (let m = m\<lparr>m_messages_received := m_messages_received m + 1\<rparr>;
          i = unat msg_type
      in if i < MESSAGE_TYPE_COUNT then m\<lparr>by_type := (by_type m)[i := by_type m ! i + 1]\<rparr> else m)"

definition set_keepalive_rtt_ms :: "f64 \<Rightarrow> MetricsState \<Rightarrow> MetricsState" where
  "set_keepalive_rtt_ms rtt m = m\<lparr>last_keepalive_rtt_ms := Some rtt\<rparr>"

definition snapshot :: "ConnState \<Rightarrow> i64 option \<Rightarrow> MetricsState \<Rightarrow> LoxMetrics" where
  "snapshot state vu m =
     \<lparr>lm_state = state, lm_connects = m_connects m, lm_reconnects = m_reconnects m,
      lm_reconnect_attempts = m_reconnect_attempts m, lm_reconnect_failures = m_reconnect_failures m,
      lm_disconnects = m_disconnects m, lm_messages_received = m_messages_received m,
      lm_commands_sent = m_commands_sent m, lm_command_timeouts = m_command_timeouts m,
      lm_command_errors = m_command_errors m, lm_correlation_mismatches = m_correlation_mismatches m,
      lm_unsolicited_responses = m_unsolicited_responses m, lm_keepalive_misses = m_keepalive_misses m,
      lm_controls_rejected_offline = m_controls_rejected_offline m,
      lm_controls_rejected_backpressure = m_controls_rejected_backpressure m,
      lm_messages_received_by_type = map (\<lambda>i. by_type m ! i) [0..<MESSAGE_TYPE_COUNT],
      lm_disconnects_by_close_code = by_close_code m,
      lm_connected_since_monotonic = fst (connected_since m),
      lm_connected_since_wall = snd (connected_since m), lm_token_valid_until = vu,
      lm_last_keepalive_rtt_ms = last_keepalive_rtt_ms m\<rparr>"

text \<open>\<open>secs_f64\<close> converts an elapsed time to a float.\<close>

definition uptime_seconds :: "(nat \<Rightarrow> f64) \<Rightarrow> nat \<Rightarrow> LoxMetrics \<Rightarrow> f64" where
  "uptime_seconds secs_f64 now m =
     (case lm_connected_since_monotonic m of Some t \<Rightarrow> secs_f64 (now - t) | None \<Rightarrow> 0)"

section \<open>Shared state\<close>

text \<open>The operations of a \<^verbatim>\<open>TokenStore\<close>, on a store with state \<open>'s\<close>.\<close>

record 's store_api =
  st_load :: "'s \<Rightarrow> string \<Rightarrow> LxToken option"
  st_save :: "'s \<Rightarrow> string \<Rightarrow> LxToken \<Rightarrow> 's"
  st_clear :: "'s \<Rightarrow> string \<Rightarrow> 's"

record 's SharedState =
  ss_metrics :: MetricsState
  ss_state :: ConnStateCell
  ss_token :: LxToken
  ss_binding :: "string option"
  ss_store :: 's

definition shared_new :: "'s \<Rightarrow> 's SharedState" where
  "shared_new store =
     \<lparr>ss_metrics = metrics_new, ss_state = 0, ss_token = token_default, ss_binding = None, ss_store = store\<rparr>"

definition with_token_store :: "'s \<Rightarrow> string \<Rightarrow> 's SharedState" where
  "with_token_store store binding =
     \<lparr>ss_metrics = metrics_new, ss_state = 0, ss_token = token_default, ss_binding = Some binding,
      ss_store = store\<rparr>"

definition set_state :: "ConnState \<Rightarrow> 's SharedState \<Rightarrow> 's SharedState" where
  "set_state st s = s\<lparr>ss_state := cell_set st (ss_state s)\<rparr>"

definition get_state :: "'s SharedState \<Rightarrow> ConnState" where
  "get_state s = cell_get (ss_state s)"

definition set_token :: "'s store_api \<Rightarrow> LxToken \<Rightarrow> 's SharedState \<Rightarrow> 's SharedState" where
  "set_token api tok s =
     (let s = s\<lparr>ss_token := tok\<rparr>
      in case ss_binding s of
           None \<Rightarrow> s
         | Some b \<Rightarrow> s\<lparr>ss_store := st_save api (ss_store s) b (ss_token s)\<rparr>)"

definition clear_token :: "'s store_api \<Rightarrow> 's SharedState \<Rightarrow> 's SharedState" where
  "clear_token api s =
     (let s = s\<lparr>ss_token := token_clear (ss_token s)\<rparr>
      in case ss_binding s of
           None \<Rightarrow> s
         | Some b \<Rightarrow> s\<lparr>ss_store := st_clear api (ss_store s) b\<rparr>)"

definition restore_token :: "'s store_api \<Rightarrow> u64 option \<Rightarrow> 's SharedState \<Rightarrow> 's SharedState" where
  "restore_token api now s =
     (case ss_binding s of
        None \<Rightarrow> s
      | Some b \<Rightarrow>
          (case st_load api (ss_store s) b of
             None \<Rightarrow> s
           | Some tok \<Rightarrow>
               if token_is_empty tok \<or> sint (seconds_to_expire now tok) \<le> 0
               then s\<lparr>ss_store := st_clear api (ss_store s) b\<rparr>
               else s\<lparr>ss_token := tok\<rparr>))"

definition token_valid_until :: "'s SharedState \<Rightarrow> i64 option" where
  "token_valid_until s =
     (if \<not> token_is_empty (ss_token s) then Some (valid_until (ss_token s)) else None)"

section \<open>Liveness\<close>

record Liveness =
  sent :: u64
  acked :: u64
  sent_at :: "nat option"

definition liveness_new :: Liveness where
  "liveness_new = \<lparr>sent = 0, acked = 0, sent_at = None\<rparr>"

definition record_sent :: "nat \<Rightarrow> Liveness \<Rightarrow> Liveness" where
  "record_sent now l = l\<lparr>sent_at := Some now, sent := sent l + 1\<rparr>"

definition record_ack :: "Liveness \<Rightarrow> nat option \<times> Liveness" where
  "record_ack l =
     (let acked' = (if acked l < sent l then acked l + 1 else acked l)
      in (sent_at l, l\<lparr>acked := acked', sent_at := None\<rparr>))"

definition missed :: "Liveness \<Rightarrow> u64" where
  "missed l = saturating_sub (sent l) (acked l)"

section \<open>Lemmas on metrics\<close>

lemma cell_get_set [simp]: "cell_get (cell_set st c) = st"
  by (cases st) (simp_all add: cell_get_def cell_set_def conn_state_from_u8_def)

lemma get_set_state [simp]: "get_state (set_state st s) = st"
  by (simp add: get_state_def set_state_def)

datatype metric_op = Message u8 | Disconnect "u16 option" | Connect nat f64 | Rtt f64

fun metric_step :: "metric_op \<Rightarrow> MetricsState \<Rightarrow> MetricsState" where
  "metric_step (Message t) m = record_message t m"
| "metric_step (Disconnect c) m = mark_disconnected c m"
| "metric_step (Connect now wall) m = mark_connected now wall m"
| "metric_step (Rtt r) m = set_keepalive_rtt_ms r m"

definition is_message :: "metric_op \<Rightarrow> bool" where
  "is_message op = (case op of Message _ \<Rightarrow> True | _ \<Rightarrow> False)"

definition is_disconnect :: "metric_op \<Rightarrow> bool" where
  "is_disconnect op = (case op of Disconnect _ \<Rightarrow> True | _ \<Rightarrow> False)"

definition tally :: "('a \<Rightarrow> bool) \<Rightarrow> 'a list \<Rightarrow> u64" where
  "tally P ops = word_of_nat (length (filter P ops))"

lemma tally_snoc [simp]:
  "tally P [] = 0" "tally P (ops @ [x]) = (if P x then tally P ops + 1 else tally P ops)"
  by (simp_all add: tally_def)

definition metrics_ok :: "metric_op list \<Rightarrow> MetricsState \<Rightarrow> bool" where
  "metrics_ok ops m \<longleftrightarrow>
     m_messages_received m = tally is_message ops \<and> m_disconnects m = tally is_disconnect ops \<and>
     length (by_type m) = MESSAGE_TYPE_COUNT \<and>
     (\<forall>t. unat t < MESSAGE_TYPE_COUNT \<longrightarrow> by_type m ! unat t = tally (\<lambda>op. op = Message t) ops) \<and>
     (\<forall>c. by_close_code m c = (if Disconnect c \<in> set ops then Some (tally (\<lambda>op. op = Disconnect c) ops) else None))"

lemma metrics_ok_step:
  assumes "metrics_ok ops m"
  shows "metrics_ok (ops @ [op]) (metric_step op m)"
proof (cases op)
  case (Message t)
  have "unat x = unat y \<longleftrightarrow> x = y" for x y :: u8
    by (simp add: word_unat_eq_iff)
  with Message show ?thesis
    using assms
    by (auto simp: metrics_ok_def record_message_def is_message_def is_disconnect_def Let_def nth_list_update)
next
  case (Disconnect c)
  have "tally (\<lambda>op. op = Disconnect c) ops = 0" if "Disconnect c \<notin> set ops"
  proof -
    have "filter (\<lambda>op. op = Disconnect c) ops = []"
      using that by (auto simp: filter_empty_conv)
    then show ?thesis by (simp add: tally_def)
  qed
  with Disconnect show ?thesis
    using assms
    by (auto simp: metrics_ok_def mark_disconnected_def is_message_def is_disconnect_def)
next
  case (Connect now wall)
  then show ?thesis
    using assms by (simp add: metrics_ok_def mark_connected_def is_message_def is_disconnect_def)
next
  case (Rtt r)
  then show ?thesis
    using assms by (simp add: metrics_ok_def set_keepalive_rtt_ms_def is_message_def is_disconnect_def)
qed

lemma metrics_ok_run: "metrics_ok ops (fold metric_step ops metrics_new)"
proof (induction ops rule: rev_induct)
  case Nil
  then show ?case by (simp add: metrics_ok_def metrics_new_def)
next
  case (snoc op ops)
  then show ?case by (simp add: metrics_ok_step)
qed

section \<open>Lemmas on liveness\<close>

datatype live_op = Sent nat | Ack

fun live_step :: "live_op \<Rightarrow> Liveness \<Rightarrow> Liveness" where
  "live_step (Sent now) l = record_sent now l"
| "live_step Ack l = snd (record_ack l)"

text \<open>The specification: one number, the keepalives without an answer so far.\<close>

fun outstanding_step :: "live_op \<Rightarrow> nat \<Rightarrow> nat" where
  "outstanding_step (Sent now) n = n + 1"
| "outstanding_step Ack n = n - 1"

fun is_sent :: "live_op \<Rightarrow> bool" where
  "is_sent (Sent now) = True"
| "is_sent Ack = False"

definition live_ok :: "live_op list \<Rightarrow> Liveness \<Rightarrow> bool" where
  "live_ok ops l \<longleftrightarrow>
     unat (sent l) = length (filter is_sent ops) \<and> acked l \<le> sent l \<and>
     unat (sent l) - unat (acked l) = fold outstanding_step ops 0"

lemma unat_inc: "unat (w :: u64) + 1 < 2 ^ 64 \<Longrightarrow> unat (w + 1) = unat w + 1"
  by (simp add: unat_word_ariths)

lemma unat_saturating_sub: "unat (saturating_sub a b) = unat a - unat b"
  by (auto simp: saturating_sub_def word_less_nat_alt unat_sub word_le_nat_alt not_less)

lemma live_ok_step:
  assumes "live_ok ops l" and "length (filter is_sent (ops @ [op])) < 2 ^ 64"
  shows "live_ok (ops @ [op]) (live_step op l)"
proof (cases op)
  case (Sent now)
  then have "unat (sent l + 1) = unat (sent l) + 1"
    using assms by (intro unat_inc) (simp add: live_ok_def)
  with Sent show ?thesis
    using assms(1) by (auto simp: live_ok_def record_sent_def word_le_nat_alt)
next
  case Ack
  have "unat (acked l + 1) = unat (acked l) + 1" if "acked l < sent l"
    using that unsigned_less [of "sent l", where 'a = nat] by (intro unat_inc) (simp add: word_less_nat_alt)
  with Ack show ?thesis
    using assms(1) by (auto simp: live_ok_def record_ack_def word_le_nat_alt word_less_nat_alt Let_def)
qed

lemma live_ok_run:
  "length (filter is_sent ops) < 2 ^ 64 \<Longrightarrow> live_ok ops (fold live_step ops liveness_new)"
proof (induction ops rule: rev_induct)
  case Nil
  then show ?case by (simp add: live_ok_def liveness_new_def)
next
  case (snoc op ops)
  then have "live_ok ops (fold live_step ops liveness_new)"
    by (simp split: if_splits)
  then show ?case
    using live_ok_step snoc.prems by simp
qed

section \<open>Lemmas on the mirrored token\<close>

context token_store
begin

definition api where
  "api e p = \<lparr>st_load = load e p, st_save = save e p, st_clear = clear e p\<rparr>"

definition mirrors where
  "mirrors e p s \<longleftrightarrow>
     (\<forall>b. ss_binding s = Some b \<longrightarrow>
        (\<forall>b'. load e p (ss_store s) b' =
           (if b' = b \<and> \<not> token_is_empty (ss_token s) then Some (ss_token s) else None)))"

lemma mirrors_set:
  assumes "fine e" "usable p" "ss_binding s = Some b"
    and "token_is_empty t \<or> text_ok (b, t) \<and> accepts t"
  shows "mirrors e p (set_token (api e p) t s)"
  using assms load_save [OF assms(1,1,2)] save_empty [OF assms(1)]
  by (auto simp: mirrors_def set_token_def api_def token_is_empty_def Let_def)

lemma mirrors_clear:
  assumes "fine e" "ss_binding s = Some b"
  shows "mirrors e p (clear_token (api e p) s)"
  using assms load_clear [OF assms(1)]
  by (auto simp: mirrors_def clear_token_def api_def token_is_empty_def token_clear_def Let_def)

lemma restore_mirrored:
  assumes "fine e" "usable p" "mirrors e p s" "ss_binding s = Some b"
    and r: "r = restore_token (api e p) now (with_token_store (ss_store s) b')"
  shows "ss_token r =
      (if b' = b \<and> \<not> token_is_empty (ss_token s) \<and> sint (seconds_to_expire now (ss_token s)) > 0
       then ss_token s else token_default)" (is ?tok)
    and "mirrors e p r \<or> b' \<noteq> b" (is ?mir)
proof -
  have l: "load e p (ss_store s) b'' =
      (if b'' = b \<and> \<not> token_is_empty (ss_token s) then Some (ss_token s) else None)" for b''
    using assms(3,4) by (simp add: mirrors_def)
  show ?tok
    by (auto simp: r restore_token_def with_token_store_def api_def l token_is_empty_def)
  show ?mir
    using load_clear [OF assms(1)]
    by (auto simp: r restore_token_def with_token_store_def api_def l mirrors_def token_is_empty_def token_default_def)
qed

end

section \<open>Properties\<close>

text \<open>
  The metrics count what happened: after any sequence of events the snapshot shows, modulo
  the width of a counter, the number of messages, of messages of each known type, of
  disconnects and of disconnects per close code, and a code that never occurred is absent.
\<close>

theorem metrics_count:
  "let m = snapshot st vu (fold metric_step ops metrics_new)
   in lm_messages_received m = tally is_message ops \<and>
      lm_disconnects m = tally is_disconnect ops \<and>
      length (lm_messages_received_by_type m) = MESSAGE_TYPE_COUNT \<and>
      (unat t < MESSAGE_TYPE_COUNT \<longrightarrow>
         lm_messages_received_by_type m ! unat t = tally (\<lambda>op. op = Message t) ops) \<and>
      lm_disconnects_by_close_code m c =
        (if Disconnect c \<in> set ops then Some (tally (\<lambda>op. op = Disconnect c) ops) else None)"
  using metrics_ok_run [of ops] by (simp add: metrics_ok_def snapshot_def Let_def)

theorem metrics_count_witness:
  "lm_messages_received_by_type
     (snapshot StConnected None (fold metric_step [Message 2, Disconnect None, Message 2] metrics_new)) ! 2 = 2"
  using metrics_count [of StConnected None "[Message 2, Disconnect None, Message 2]" 2 None]
  by (simp add: MESSAGE_TYPE_COUNT_def tally_def Let_def)

text \<open>
  The keepalive bookkeeping implements one counter of unanswered keepalives: a keepalive
  sent adds one, an answer takes one away, and an answer nobody waits for is not credited to a
  later keepalive. No more are ever acknowledged than were sent.
\<close>

theorem liveness_refines_counter:
  assumes "length (filter is_sent ops) < 2 ^ 64"
  shows "unat (missed (fold live_step ops liveness_new)) = fold outstanding_step ops 0 \<and>
    acked (fold live_step ops liveness_new) \<le> sent (fold live_step ops liveness_new)"
  using live_ok_run [OF assms] unfolding live_ok_def missed_def unat_saturating_sub by blast

theorem liveness_refines_counter_witness:
  "unat (missed (fold live_step [Ack, Ack, Sent 1, Sent 2, Ack, Sent 3] liveness_new)) = 2"
  using liveness_refines_counter [of "[Ack, Ack, Sent 1, Sent 2, Ack, Sent 3]"] by simp

text \<open>
  C31: A client restarted on the same file takes up the token its predecessor set last, if it is
  for the same Miniserver, user and client and has not expired; any other restart begins
  without a token, and an expired token is removed from the file.
\<close>

theorem restart_restores_token:
  assumes "os_fine os" and "tmp_path p \<noteq> p" and "ss_binding s = Some b"
    and "file_text_ok (b, t)" and "token t \<noteq> []" "no_break (token t)"
    and "api = \<lparr>st_load = store_load os p, st_save = store_save os p, st_clear = store_clear os p\<rparr>"
  shows "let restart = (\<lambda>b'. restore_token api now (with_token_store (ss_store (set_token api t s)) b'))
    in ss_token (restart b') =
         (if b' = b \<and> sint (seconds_to_expire now t) > 0 then t else token_default) \<and>
       store_load os p (ss_store (restart b)) b =
         (if sint (seconds_to_expire now t) > 0 then Some t else None)"
proof -
  let ?s = "set_token api t s"
  let ?r = "\<lambda>b'. restore_token api now (with_token_store (ss_store ?s) b')"
  have api: "file_store.api os p = api"
    by (simp add: assms(7) file_store.api_def)
  have m: "file_store.mirrors os p ?s"
    unfolding api [symmetric] by (rule file_store.mirrors_set) (use assms in auto)
  have s: "ss_binding ?s = Some b" "ss_token ?s = t"
    using assms(3) by (simp_all add: set_token_def Let_def)
  have e: "\<not> token_is_empty t"
    using assms(5) by (simp add: token_is_empty_def)
  note res = file_store.restore_mirrored [OF assms(1,2) m s(1), unfolded api, OF refl]
  have "ss_binding (?r b) = Some b"
    by (auto simp: restore_token_def with_token_store_def split: option.splits)
  then have "store_load os p (ss_store (?r b)) b =
      (if \<not> token_is_empty (ss_token (?r b)) then Some (ss_token (?r b)) else None)"
    using res(2) [of now b] by (simp add: file_store.mirrors_def)
  then show ?thesis
    using s e unfolding Let_def res(1) by (auto simp: token_is_empty_def token_default_def)
qed

theorem restart_restores_token_witness:
  "\<exists>os p s r. ss_token (restore_token r (Some 1700000000)
      (with_token_store (ss_store (set_token r (token_new ''jwt'' 500000000 Sha256) s)) ''ab'')) =
      token_new ''jwt'' 500000000 Sha256 \<and>
    r = \<lparr>st_load = store_load os p, st_save = store_save os p, st_clear = store_clear os p\<rparr>"
proof -
  define os where "os = \<lparr>read_err = None, mkdir_err = None, unlink_err = None, create_err = None,
    write_err = None, written = 0, sync_err = None, rename_err = None, umask = 0\<rparr>"
  let ?p = "([] :: string list, ''t'')" and ?s = "with_token_store Map.empty ''ab''"
    and ?t = "token_new ''jwt'' 500000000 Sha256"
  have "os_fine os" "tmp_path ?p \<noteq> ?p" "ss_binding ?s = Some ''ab''" "file_text_ok (''ab'', ?t)"
    by (simp_all add: os_fine_def os_def tmp_path_def with_extension_def file_stem_def split_once_def
        with_token_store_def file_text_ok_def wf_binding_def token_new_def utf8_valid_ascii_str)
  moreover have "sint (seconds_to_expire (Some 1700000000) ?t) > 0"
    by (simp add: seconds_to_expire_def token_new_def LOXONE_EPOCH_def)
  ultimately show ?thesis
    using restart_restores_token [of os ?p ?s "''ab''" ?t _ "Some 1700000000" "''ab''", OF _ _ _ _ _ _ refl]
    by (intro exI [of _ os] exI [of _ ?p] exI [of _ ?s] exI) (auto simp: token_new_def Let_def)
qed

end
