(* ===== verification/Lox_Reader.thy ===== *)
theory Lox_Reader
  imports Lox_Handler Lox_State
begin

text \<open>
  The reader loop (\<^verbatim>\<open>src/src/client/reader.rs\<close>): the alternation of header and payload frames, the
  dispatch of a message, the correlation of a type-0 answer and the secured commands it may
  release. The frame layer is a parameter: a read is the time it took with the frame it gave,
  or the error text; a read that takes longer than the deadline is the idle timeout.
\<close>

section \<open>The model\<close>

datatype OpCode = OpContinuation | OpText | OpBinary | OpClose | OpPing | OpPong

text \<open>The messages to the writer task (\<^verbatim>\<open>src/src/client/writer.rs\<close>).\<close>

datatype WriterMsg = WObligated OpCode bytes | WCommand string "waiter option" | WShutdown

datatype ReadOutcome = RClosed "u16 option" | RIdleTimeout | RFailed error

datatype FrameExpect = ExpHeader u32 | ExpPayload u8 u32

definition START :: FrameExpect where "START = ExpHeader 0"

fun announced_len :: "FrameExpect \<Rightarrow> u32" where
  "announced_len (ExpHeader announced) = announced"
| "announced_len (ExpPayload msg_type len) = len"

text \<open>
  What the reader holds, with the messages it has put into the writer's channel and what it
  has sent to waiters; and the parts that do not change. \<open>re_rtt\<close> is the milliseconds since an
  instant as a float.
\<close>

record ('h, 's) Reader =
  rd_shared :: "'s SharedState"
  rd_pending :: PendingQueue
  rd_visu :: VisuQueue
  rd_liveness :: Liveness
  rd_out :: "WriterMsg list"
  rd_writer_gone :: bool
  rd_answers :: "delivery list"
  rd_guard :: "'h HandlerGuard"

record ('h, 'v) reader_env =
  re_zc :: zerocopy
  re_crypto :: crypto
  re_json :: "'v json"
  re_handler :: "'h LoxHandler"
  re_keys :: SessionKeys
  re_rtt :: "nat \<Rightarrow> f64"
  re_idle_timeout :: duration

definition parse_close_code :: "bytes \<Rightarrow> u16 option" where
  "parse_close_code payload =
     (if 2 \<le> length payload then Some (from_be_bytes [payload ! 0, payload ! 1]) else None)"

definition rd_metrics :: "(MetricsState \<Rightarrow> MetricsState) \<Rightarrow> ('h, 's) Reader \<Rightarrow> ('h, 's) Reader" where
  "rd_metrics f r =
     r\<lparr>rd_shared := (rd_shared r)\<lparr>ss_metrics := f (ss_metrics (rd_shared r))\<rparr>\<rparr>"

definition rd_guarded ::
  "('h \<Rightarrow> 'r option \<times> 'h) \<Rightarrow> ('h, 's) Reader \<Rightarrow> 'r result \<times> ('h, 's) Reader" where
  "rd_guarded f r = (case guard_or_fail f (rd_guard r) of (res, g) \<Rightarrow> (res, r\<lparr>rd_guard := g\<rparr>))"

fun flush_items ::
  "('h, 'v) reader_env \<Rightarrow> KeySalt \<Rightarrow> VisuPending list \<Rightarrow> ('h, 's) Reader \<Rightarrow> ('h, 's) Reader" where
  "flush_items env ks [] r = r"
| "flush_items env ks (x # xs) r =
     (case hash_visu_password (re_crypto env) ks (visu_pw x) of
        Inl _ \<Rightarrow> flush_items env ks xs r
      | Inr hash \<Rightarrow>
          let cmd = ''jdev/sps/ios/'' @ hash @ ''/'' @ visu_uuid x @ ''/'' @ visu_value x
          in if rd_writer_gone r then r
             else flush_items env ks xs (r\<lparr>rd_out := rd_out r @ [WCommand cmd None]\<rparr>))"

definition flush_visu :: "('h, 'v) reader_env \<Rightarrow> bytes \<Rightarrow> ('h, 's) Reader \<Rightarrow> ('h, 's) Reader" where
  "flush_visu env payload r =
     (let (xs, q) = visu_drain (rd_visu r)
      in case parse_key_salt (re_json env) payload of
           Inl _ \<Rightarrow> r\<lparr>rd_visu := q\<rparr>
         | Inr ks \<Rightarrow> flush_items env ks xs (r\<lparr>rd_visu := q\<rparr>))"

definition on_text_message ::
  "('h, 'v) reader_env \<Rightarrow> bytes \<Rightarrow> ('h, 's) Reader \<Rightarrow> unit result \<times> ('h, 's) Reader" where
  "on_text_message env payload r =
     (let control = extract_ll_control payload
      in case resolve (re_crypto env) control (re_keys env) (rd_pending r) of
           (None, q) \<Rightarrow>
             rd_guarded (call (on_json (re_handler env) payload))
               (rd_metrics (\<lambda>m. m\<lparr>m_unsolicited_responses := m_unsolicited_responses m + 1\<rparr>)
                 (r\<lparr>rd_pending := note_unsolicited q\<rparr>))
         | (Some res, q) \<Rightarrow>
             let r = r\<lparr>rd_pending := q\<rparr>;
                 r = (if \<not> matched res
                      then rd_metrics (\<lambda>m. m\<lparr>m_correlation_mismatches := m_correlation_mismatches m + 1\<rparr>) r
                      else r);
                 r = (if starts_with (res_plaintext_cmd res) CMD_GET_VISUAL_PASSWD \<and>
                         \<not> visu_is_empty (rd_visu r)
                      then flush_visu env payload r else r)
             in (Ok (), case res_resp res of
                          None \<Rightarrow> r
                        | Some w \<Rightarrow> r\<lparr>rd_answers := rd_answers r @ [(w, Ok payload)]\<rparr>))"

text \<open>The guarded part of a dispatch: the raw payload first, then the event table.\<close>

definition guarded_dispatch ::
  "('h, 'v) reader_env \<Rightarrow> u8 \<Rightarrow> bytes \<Rightarrow> 'h \<Rightarrow> (bool option \<times> 'h) option" where
  "guarded_dispatch env msg_type payload h =
     map_option (\<lambda>(event, ok, h). (if ok then Some event else None, h))
       (dispatch_event (re_zc env) (re_handler env) msg_type payload
          (on_raw_payload (re_handler env) msg_type payload h))"

definition rd_dispatch ::
  "('h, 'v) reader_env \<Rightarrow> u8 \<Rightarrow> bytes \<Rightarrow> ('h, 's) Reader \<Rightarrow> (unit result \<times> ('h, 's) Reader) option" where
  "rd_dispatch env msg_type payload r =
     (let r = rd_metrics (record_message msg_type) r
      in case guarded_dispatch env msg_type payload (guarded (rd_guard r)) of
           None \<Rightarrow> None
         | Some out \<Rightarrow>
             Some (case rd_guarded (\<lambda>_. out) r of
                     (Inl e, r) \<Rightarrow> (Err e, r)
                   | (Inr True, r) \<Rightarrow> (Ok (), r)
                   | (Inr False, r) \<Rightarrow>
                       (case from_u8 msg_type of
                          Some Text \<Rightarrow> on_text_message env payload r
                        | Some Keepalive \<Rightarrow>
                            let (at, l) = record_ack (rd_liveness r);
                                r = r\<lparr>rd_liveness := l\<rparr>;
                                r = (case at of
                                       None \<Rightarrow> r
                                     | Some t \<Rightarrow> rd_metrics (set_keepalive_rtt_ms (re_rtt env t)) r)
                            in rd_guarded (call (on_keepalive (re_handler env))) r
                        | _ \<Rightarrow> (Ok (), r))))"

definition on_data_frame ::
  "('h, 'v) reader_env \<Rightarrow> FrameExpect \<Rightarrow> bytes \<Rightarrow> ('h, 's) Reader \<Rightarrow>
     (ReadOutcome option result \<times> FrameExpect \<times> ('h, 's) Reader) option" where
  "on_data_frame env expect payload r =
     (case expect of
        ExpHeader _ \<Rightarrow>
          (case parse_header (re_zc env) payload of
             Inl _ \<Rightarrow> Some (Ok None, expect, r)
           | Inr None \<Rightarrow> Some (Ok None, expect, r)
           | Inr (Some hdr) \<Rightarrow>
               if is_estimated hdr then Some (Ok None, ExpHeader (payload_len hdr), r)
               else if hdr_identifier hdr = message_type_u8 OutOfService then
                 Some (Ok (Some (RClosed (Some 1012))), expect, r)
               else if payload_len hdr = 0 then
                 (case rd_dispatch env (hdr_identifier hdr) [] r of
                    None \<Rightarrow> None
                  | Some (Inl e, r) \<Rightarrow> Some (Err e, expect, r)
                  | Some (Inr _, r) \<Rightarrow> Some (Ok None, START, r))
               else Some (Ok None, ExpPayload (hdr_identifier hdr) (payload_len hdr), r))
      | ExpPayload msg_type len \<Rightarrow>
          (case rd_dispatch env msg_type payload r of
             None \<Rightarrow> None
           | Some (Inl e, r) \<Rightarrow> Some (Err e, expect, r)
           | Some (Inr _, r) \<Rightarrow> Some (Ok None, START, r)))"

text \<open>
  A read: how long it took, and the frame with the control frames the read half has to answer
  with first, or the error. Nothing more to come is the idle timeout.
\<close>

datatype read_event = RdFrame "(OpCode \<times> bytes) list" OpCode bytes | RdError string

fun reader_run ::
  "('h, 'v) reader_env \<Rightarrow> FrameExpect \<Rightarrow> (duration \<times> read_event) list \<Rightarrow> ('h, 's) Reader \<Rightarrow>
     (ReadOutcome \<times> ('h, 's) Reader) option" where
  "reader_run env expect [] r = Some (RIdleTimeout, r)"
| "reader_run env expect ((delay, ev) # reads) r =
     (if read_timeout (re_idle_timeout env) (announced_len expect) < delay then Some (RIdleTimeout, r)
      else case ev of
        RdError e \<Rightarrow> Some (RFailed (WebSocket e), r)
      | RdFrame obligated opcode payload \<Rightarrow>
          let r = r\<lparr>rd_out := rd_out r @ map (\<lambda>(op, p). WObligated op p) obligated\<rparr>
          in case opcode of
               OpClose \<Rightarrow> Some (RClosed (parse_close_code payload), r)
             | OpPing \<Rightarrow> reader_run env expect reads r
             | OpPong \<Rightarrow> reader_run env expect reads r
             | OpContinuation \<Rightarrow> reader_run env expect reads r
             | _ \<Rightarrow>
                 (case on_data_frame env expect payload r of
                    None \<Rightarrow> None
                  | Some (Inl e, _, r) \<Rightarrow> Some (RFailed e, r)
                  | Some (Inr (Some outcome), _, r) \<Rightarrow> Some (outcome, r)
                  | Some (Inr None, expect, r) \<Rightarrow> reader_run env expect reads r))"

section \<open>Every read sequence ends\<close>

lemma rd_dispatch_total:
  assumes "zerocopy_ok (re_zc env)"
  obtains res r' where "rd_dispatch env t p r = Some (res, r')"
proof -
  obtain out where "guarded_dispatch env t p (guarded (rd_guard (rd_metrics (record_message t) r))) = Some out"
    by (simp add: guarded_dispatch_def dispatch_event_calls [OF assms])
  then have "rd_dispatch env t p r \<noteq> None"
    by (simp add: rd_dispatch_def Let_def)
  then show ?thesis
    using that by (metis option.exhaust surj_pair)
qed

lemma on_data_frame_total:
  assumes "zerocopy_ok (re_zc env)"
  shows "on_data_frame env ex p r \<noteq> None"
proof -
  define f where "f t q = the (rd_dispatch env t q r)" for t q
  have "rd_dispatch env t q r = Some (f t q)" for t q
    unfolding f_def by (metis assms option.sel rd_dispatch_total)
  then show ?thesis
    by (auto simp: on_data_frame_def split: FrameExpect.split sum.split option.split prod.split)
qed

lemma reader_run_total:
  "zerocopy_ok (re_zc env) \<Longrightarrow> reader_run env ex reads r \<noteq> None"
proof (induction env ex reads r rule: reader_run.induct)
  case (2 env ex delay ev reads r)
  show ?case
  proof (cases ev)
    case (RdFrame obl op p)
    let ?r = "r\<lparr>rd_out := rd_out r @ map (\<lambda>(op, p). WObligated op p) obl\<rparr>"
    obtain res ex' r' where "on_data_frame env ex p ?r = Some (res, ex', r')"
      using on_data_frame_total [OF "2.prems"] by (metis option.exhaust prod_cases3)
    with 2 RdFrame show ?thesis
      by (cases op) (auto simp: Let_def split: sum.split option.split)
  qed simp
qed simp

section \<open>Messages on the wire\<close>

text \<open>A message: estimated headers, the exact header, and the payload it announces.\<close>

record wire_msg =
  wm_estimates :: "WsBinHdr list"
  wm_header :: WsBinHdr
  wm_payload :: bytes

definition wf_wire :: "wire_msg \<Rightarrow> bool" where
  "wf_wire m \<longleftrightarrow>
     list_all (\<lambda>h. wf_hdr h \<and> hdr_bin_type h = MAGIC \<and> is_estimated h) (wm_estimates m) \<and>
     wf_hdr (wm_header m) \<and> hdr_bin_type (wm_header m) = MAGIC \<and> \<not> is_estimated (wm_header m) \<and>
     hdr_identifier (wm_header m) \<noteq> message_type_u8 OutOfService \<and>
     length (wm_payload m) < 2 ^ 32 \<and> payload_len (wm_header m) = word_of_nat (length (wm_payload m))"

definition wire_frames :: "wire_msg \<Rightarrow> bytes list" where
  "wire_frames m =
     map hdr_bytes (wm_estimates m) @ [hdr_bytes (wm_header m)] @
     (if wm_payload m = [] then [] else [wm_payload m])"

text \<open>A frame that arrives in time, and the reads of a list of frames.\<close>

definition timely :: "duration \<Rightarrow> (bytes \<Rightarrow> duration \<times> read_event) \<Rightarrow> bool" where
  "timely idle fr \<longleftrightarrow> (\<forall>p. \<exists>d op. fr p = (d, RdFrame [] op p) \<and> d \<le> idle \<and> op \<in> {OpText, OpBinary})"

fun dispatch_all ::
  "('h, 'v) reader_env \<Rightarrow> wire_msg list \<Rightarrow> ('h, 's) Reader \<Rightarrow> (unit result \<times> ('h, 's) Reader) option" where
  "dispatch_all env [] r = Some (Ok (), r)"
| "dispatch_all env (m # ms) r =
     (case rd_dispatch env (hdr_identifier (wm_header m)) (wm_payload m) r of
        Some (Inr _, r) \<Rightarrow> dispatch_all env ms r
      | other \<Rightarrow> other)"

lemma read_timeout_ge: "base \<le> read_timeout base len"
  by (simp add: read_timeout_def Let_def)

lemma reader_run_frame:
  assumes "timely (re_idle_timeout env) fr"
  shows "reader_run env ex (fr p # reads) r =
    (case on_data_frame env ex p r of
       None \<Rightarrow> None
     | Some (Inl e, _, r) \<Rightarrow> Some (RFailed e, r)
     | Some (Inr (Some outcome), _, r) \<Rightarrow> Some (outcome, r)
     | Some (Inr None, ex, r) \<Rightarrow> reader_run env ex reads r)"
proof -
  obtain d op where fr: "fr p = (d, RdFrame [] op p)" "d \<le> re_idle_timeout env" "op \<in> {OpText, OpBinary}"
    using assms unfolding timely_def by blast
  then have "\<not> read_timeout (re_idle_timeout env) (announced_len ex) < d"
    using read_timeout_ge [of "re_idle_timeout env" "announced_len ex"] by simp
  with fr show ?thesis
    by auto
qed

lemma on_header_frame:
  assumes "zerocopy_ok (re_zc env)" "wf_hdr h" "hdr_bin_type h = MAGIC"
  shows "on_data_frame env (ExpHeader a) (hdr_bytes h) r =
    (if is_estimated h then Some (Ok None, ExpHeader (payload_len h), r)
     else if hdr_identifier h = message_type_u8 OutOfService then
       Some (Ok (Some (RClosed (Some 1012))), ExpHeader a, r)
     else if payload_len h = 0 then
       (case rd_dispatch env (hdr_identifier h) [] r of
          None \<Rightarrow> None
        | Some (Inl e, r) \<Rightarrow> Some (Err e, ExpHeader a, r)
        | Some (Inr _, r) \<Rightarrow> Some (Ok None, START, r))
     else Some (Ok None, ExpPayload (hdr_identifier h) (payload_len h), r))"
proof -
  have "parse_header (re_zc env) (hdr_bytes h) = Ok (Some h)"
    using assms by (simp add: parse_header_Some)
  then show ?thesis
    by (simp add: on_data_frame_def)
qed

lemma reader_run_estimates:
  assumes "zerocopy_ok (re_zc env)" "timely (re_idle_timeout env) fr"
    and "list_all (\<lambda>h. wf_hdr h \<and> hdr_bin_type h = MAGIC \<and> is_estimated h) hs"
  shows "\<exists>a'. \<forall>reads. reader_run env (ExpHeader a) (map fr (map hdr_bytes hs) @ reads) r =
    reader_run env (ExpHeader a') reads r"
  using assms(3)
proof (induction hs arbitrary: a)
  case (Cons h hs)
  then obtain a' where "\<forall>reads. reader_run env (ExpHeader (payload_len h)) (map fr (map hdr_bytes hs) @ reads) r =
    reader_run env (ExpHeader a') reads r"
    by fastforce
  with Cons.prems show ?case
    by (intro exI [of _ a']) (simp add: reader_run_frame [OF assms(2)] on_header_frame [OF assms(1)])
qed auto

lemma wf_wire_empty: "wf_wire m \<Longrightarrow> payload_len (wm_header m) = 0 \<longleftrightarrow> wm_payload m = []"
  using unat_word_of_nat [of "length (wm_payload m)", where 'a = 32]
  by (auto simp: wf_wire_def word_unat_eq_iff)

lemma reader_run_message:
  assumes "zerocopy_ok (re_zc env)" "timely (re_idle_timeout env) fr" "wf_wire m"
  shows "reader_run env (ExpHeader a) (map fr (wire_frames m) @ reads) r =
    (case rd_dispatch env (hdr_identifier (wm_header m)) (wm_payload m) r of
       None \<Rightarrow> None
     | Some (Inl e, r') \<Rightarrow> Some (RFailed e, r')
     | Some (Inr _, r') \<Rightarrow> reader_run env START reads r')"
proof -
  let ?h = "wm_header m" and ?p = "wm_payload m"
  obtain a' where a': "\<And>reads. reader_run env (ExpHeader a) (map fr (map hdr_bytes (wm_estimates m)) @ reads) r =
      reader_run env (ExpHeader a') reads r"
    using reader_run_estimates [OF assms(1,2)] assms(3) unfolding wf_wire_def by blast
  have h: "wf_hdr ?h" "hdr_bin_type ?h = MAGIC" "\<not> is_estimated ?h" "hdr_identifier ?h \<noteq> message_type_u8 OutOfService"
    using assms(3) by (auto simp: wf_wire_def)
  note len = wf_wire_empty [OF assms(3)]
  have pay: "on_data_frame env (ExpPayload t l) q r =
      (case rd_dispatch env t q r of
         None \<Rightarrow> None
       | Some (Inl e, r) \<Rightarrow> Some (Err e, ExpPayload t l, r)
       | Some (Inr _, r) \<Rightarrow> Some (Ok None, START, r))" for t l q
    by (simp add: on_data_frame_def)
  show ?thesis
  proof (cases "?p = []")
    case True
    then show ?thesis
      using h len a' unfolding wire_frames_def
      by (auto simp: reader_run_frame [OF assms(2)] on_header_frame [OF assms(1)] split: option.split sum.split)
  next
    case False
    then show ?thesis
      using h len a' unfolding wire_frames_def
      by (auto simp: reader_run_frame [OF assms(2)] on_header_frame [OF assms(1)] pay split: option.split sum.split)
  qed
qed

lemma reader_run_messages:
  assumes "zerocopy_ok (re_zc env)" "timely (re_idle_timeout env) fr" "list_all wf_wire ms"
  shows "reader_run env START (map fr (concat (map wire_frames ms)) @ reads) r =
    (case dispatch_all env ms r of
       None \<Rightarrow> None
     | Some (Inl e, r') \<Rightarrow> Some (RFailed e, r')
     | Some (Inr _, r') \<Rightarrow> reader_run env START reads r')"
  using assms(3)
proof (induction ms arbitrary: r)
  case (Cons m ms)
  have "reader_run env START (map fr (concat (map wire_frames (m # ms))) @ reads) r =
      (case rd_dispatch env (hdr_identifier (wm_header m)) (wm_payload m) r of
         None \<Rightarrow> None
       | Some (Inl e, r') \<Rightarrow> Some (RFailed e, r')
       | Some (Inr _, r') \<Rightarrow> reader_run env START (map fr (concat (map wire_frames ms)) @ reads) r')"
    using reader_run_message [OF assms(1,2), of m 0 "map fr (concat (map wire_frames ms)) @ reads" r] Cons.prems
    by (simp add: START_def)
  with Cons show ?case
    by (auto split: option.split sum.split)
qed simp

section \<open>Answers to secured commands\<close>

lemma flush_items_frame:
  "rd_answers (flush_items env ks xs r) = rd_answers r"
  "rd_pending (flush_items env ks xs r) = rd_pending r"
  "rd_guard (flush_items env ks xs r) = rd_guard r"
  "rd_visu (flush_items env ks xs r) = rd_visu r"
  by (induction env ks xs r rule: flush_items.induct) (auto simp: Let_def split: sum.split)

lemma flush_visu_frame:
  "rd_answers (flush_visu env p r) = rd_answers r"
  "rd_pending (flush_visu env p r) = rd_pending r"
  "rd_guard (flush_visu env p r) = rd_guard r"
  "rd_visu (flush_visu env p r) = []"
  by (auto simp: flush_visu_def visu_drain_def flush_items_frame split: sum.split)

lemma flush_visu_idle: "rd_visu r = [] \<Longrightarrow> rd_out (flush_visu env p r) = rd_out r"
  by (auto simp: flush_visu_def visu_drain_def split: sum.split)

section \<open>Properties\<close>

text \<open>
  C10: The reader keeps in step with the stream: frames that are messages, each with any number
  of estimated headers, its exact header and its payload, are dispatched one by one, every
  payload under the type of its own header and none twice; the first dispatch that fails ends
  the session with its error, otherwise reading goes on at a message boundary.
\<close>

theorem reader_keeps_in_step:
  assumes "zerocopy_ok (re_zc env)" and "timely (re_idle_timeout env) fr" and "list_all wf_wire ms"
  shows "reader_run env START (map fr (concat (map wire_frames ms)) @ reads) r =
    (case dispatch_all env ms r of
       None \<Rightarrow> None
     | Some (Inl e, r') \<Rightarrow> Some (RFailed e, r')
     | Some (Inr _, r') \<Rightarrow> reader_run env START reads r')"
  by (rule reader_run_messages [OF assms])

theorem reader_keeps_in_step_witness:
  "\<exists>env r. reader_run (env :: (nat, jvalue) reader_env) START
      [(0, RdFrame [] OpBinary [3, 6, 0, 0, 0, 0, 0, 0]), (0, RdFrame [] OpClose [0x03, 0xE8])]
      (r :: (nat, unit) Reader) \<noteq> None \<and>
    fst (the (reader_run env START
      [(0, RdFrame [] OpBinary [3, 6, 0, 0, 0, 0, 0, 0]), (0, RdFrame [] OpClose [0x03, 0xE8])] r)) = RClosed (Some 1000)"
proof -
  define env :: "(nat, jvalue) reader_env" where
    "env = \<lparr>re_zc = zc_layout, re_crypto = crypto_std, re_json = json_table [], re_handler = default_handler,
      re_keys = from_key_iv crypto_std [] [], re_rtt = (\<lambda>_. 0), re_idle_timeout = 150\<rparr>"
  define r :: "(nat, unit) Reader" where
    "r = \<lparr>rd_shared = shared_new (), rd_pending = queue_new, rd_visu = visu_new, rd_liveness = liveness_new,
      rd_out = [], rd_writer_gone = False, rd_answers = [], rd_guard = guard_new 0\<rparr>"
  define h where "h = \<lparr>hdr_bin_type = 3, hdr_identifier = 6, hdr_info = 0, hdr_reserved = 0, hdr_len = [0, 0, 0, 0]\<rparr>"
  let ?m = "\<lparr>wm_estimates = [], wm_header = h, wm_payload = []\<rparr>"
  let ?fr = "\<lambda>p. (0, RdFrame [] OpBinary p)"
  have "zerocopy_ok (re_zc env)" "timely (re_idle_timeout env) ?fr" "list_all wf_wire [?m]"
    by (simp_all add: env_def timely_def wf_wire_def h_def wf_hdr_def MAGIC_def is_estimated_def INFO_ESTIMATED_def
        payload_len_def)
  from reader_keeps_in_step [OF this, of "[(0, RdFrame [] OpClose [0x03, 0xE8])]" r]
  have *: "reader_run env START [(0, RdFrame [] OpBinary [3, 6, 0, 0, 0, 0, 0, 0]), (0, RdFrame [] OpClose [0x03, 0xE8])] r =
    (case dispatch_all env [?m] r of
       None \<Rightarrow> None
     | Some (Inl e, r') \<Rightarrow> Some (RFailed e, r')
     | Some (Inr _, r') \<Rightarrow> reader_run env START [(0, RdFrame [] OpClose [0x03, 0xE8])] r')"
    by (simp add: wire_frames_def h_def hdr_bytes_def)
  have "\<exists>r'. dispatch_all env [?m] r = Some (Ok (), r')"
    by (auto simp: rd_dispatch_def guarded_dispatch_def dispatch_event_def from_u8_def h_def env_def r_def
        default_handler_def quiet_def rd_metrics_def rd_guarded_def guard_or_fail_def guard_def guard_new_def
        call_def record_ack_def liveness_new_def Let_def)
  then show ?thesis
    using * by (intro exI [of _ env] exI [of _ r]) (auto simp: parse_close_code_def from_be_bytes_def)
qed





end
