(* ===== verification/Lox_Writer.thy ===== *)
theory Lox_Writer
  imports Lox_Reader "HOL-Library.Multiset"
begin

text \<open>
  The writer task (\<^verbatim>\<open>src/src/client/writer.rs\<close>), the sole owner of the write half and the salt
  state. An iteration of its loop is the branch the \<^verbatim>\<open>select!\<close> took, the decision what to send,
  the write, and the expiry of old waiters. The clock and random readings of a command are one
  argument, the outcome of a frame write another. The queue of waiters is shared with the reader:
  the answers the reader takes off it while the writer waits are part of the iteration, and
  \<^verbatim>\<open>wr_answers\<close> logs what either task told the waiters.
\<close>

section \<open>The model\<close>

text \<open>The commands of the facade (\<^verbatim>\<open>src/src/client/io.rs\<close>).\<close>

datatype IoCommand =
    IoEncrypted string waiter
  | IoControl string string
  | IoVisuControl string string string
  | IoDropSession
  | IoStop

definition WRITE_TIMEOUT_SECS :: nat where "WRITE_TIMEOUT_SECS = 20"

record WriterConfig =
  wc_username :: string
  wc_keepalive_period :: duration
  wc_command_timeout :: duration
  wc_max_missed_keepalives :: u32
  wc_max_pending :: nat
  wc_kill_token_on_stop :: bool

datatype Outgoing = OutText string | OutControl OpCode bytes | OutStop | OutClose | OutIdle

record 's Writer =
  wr_wire :: "(OpCode \<times> bytes) list"
  wr_keys :: SessionKeys
  wr_salt :: SaltState
  wr_pending :: PendingQueue
  wr_visu :: VisuQueue
  wr_shared :: "'s SharedState"
  wr_liveness :: Liveness
  wr_stopped :: bool
  wr_abort_reader :: bool
  wr_reader_aborted :: bool
  wr_answers :: "delivery list"
  wr_cfg :: WriterConfig

record readings =
  su_random :: bytes
  su_check :: u64
  su_stamp :: u64
  su_now :: nat

text \<open>The writer \<^verbatim>\<open>session_once\<close> of \<^verbatim>\<open>io.rs\<close> hands the write half to: nothing is pending yet.\<close>

definition session_writer :: "SessionKeys \<Rightarrow> SaltState \<Rightarrow> 's SharedState \<Rightarrow> bool \<Rightarrow> WriterConfig \<Rightarrow> 's Writer" where
  "session_writer keys st shared stopped cfg =
     \<lparr>wr_wire = [], wr_keys = keys, wr_salt = st, wr_pending = queue_new, wr_visu = visu_new,
      wr_shared = shared, wr_liveness = liveness_new, wr_stopped = stopped, wr_abort_reader = True,
      wr_reader_aborted = False, wr_answers = [], wr_cfg = cfg\<rparr>"

datatype write_result = WrOk | WrStalled | WrFailed string

definition wr_metrics :: "(MetricsState \<Rightarrow> MetricsState) \<Rightarrow> 's Writer \<Rightarrow> 's Writer" where
  "wr_metrics f w = w\<lparr>wr_shared := (wr_shared w)\<lparr>ss_metrics := f (ss_metrics (wr_shared w))\<rparr>\<rparr>"

definition answer :: "waiter \<Rightarrow> bytes result \<Rightarrow> 's Writer \<Rightarrow> 's Writer" where
  "answer x res w = w\<lparr>wr_answers := wr_answers w @ [(x, res)]\<rparr>"

definition prepare_command ::
  "crypto \<Rightarrow> readings \<Rightarrow> string \<Rightarrow> waiter option \<Rightarrow> 's Writer \<Rightarrow> Outgoing \<times> 's Writer" where
  "prepare_command c su cmd rsp w =
     (case encrypt c (su_random su) (su_check su) (su_stamp su) (wr_keys w) cmd (wr_salt w) of
        (Inr encrypted, st) \<Rightarrow>
          let deadline = su_now su + wc_command_timeout (wr_cfg w)
          in (OutText encrypted,
              w\<lparr>wr_salt := st, wr_pending := push cmd encrypted rsp deadline (wr_pending w)\<rparr>)
      | (Inl e, st) \<Rightarrow>
          let w = wr_metrics (\<lambda>m. m\<lparr>m_command_errors := m_command_errors m + 1\<rparr>) (w\<lparr>wr_salt := st\<rparr>)
          in (OutIdle, case rsp of None \<Rightarrow> w | Some x \<Rightarrow> answer x (Err e) w))"

definition on_writer_msg :: "crypto \<Rightarrow> readings \<Rightarrow> WriterMsg \<Rightarrow> 's Writer \<Rightarrow> Outgoing \<times> 's Writer" where
  "on_writer_msg c su msg w =
     (case msg of
        WObligated opcode payload \<Rightarrow> (OutControl opcode payload, w)
      | WCommand cmd rsp \<Rightarrow> prepare_command c su cmd rsp w
      | WShutdown \<Rightarrow> (OutStop, w))"

definition on_io_command :: "crypto \<Rightarrow> readings \<Rightarrow> IoCommand \<Rightarrow> 's Writer \<Rightarrow> Outgoing \<times> 's Writer" where
  "on_io_command c su cmd w =
     (let count = wr_metrics (\<lambda>m. m\<lparr>m_commands_sent := m_commands_sent m + 1\<rparr>)
      in case cmd of
           IoStop \<Rightarrow> (OutClose, w)
         | IoDropSession \<Rightarrow> (OutStop, w)
         | IoEncrypted cmd rsp \<Rightarrow>
             let w = count w
             in if queue_len (wr_pending w) \<ge> wc_max_pending (wr_cfg w)
                then (OutIdle,
                      answer rsp
                        (Err (Protocol (''too many commands in flight (max '' @
                           nat_str (wc_max_pending (wr_cfg w)) @ '')'')))
                        (wr_metrics (\<lambda>m. m\<lparr>m_command_errors := m_command_errors m + 1\<rparr>) w))
                else prepare_command c su cmd (Some rsp) w
         | IoControl uuid v \<Rightarrow>
             prepare_command c su (''jdev/sps/io/'' @ uuid @ ''/'' @ v) None (count w)
         | IoVisuControl uuid v pw \<Rightarrow>
             let w = count w;
                 w = w\<lparr>wr_visu := visu_push \<lparr>visu_uuid = uuid, visu_value = v, visu_pw = pw\<rparr> (wr_visu w)\<rparr>
             in prepare_command c su (cmd_get_visu_salt (wc_username (wr_cfg w))) None w)"

definition on_keepalive_tick :: "nat \<Rightarrow> 's Writer \<Rightarrow> Outgoing \<times> 's Writer" where
  "on_keepalive_tick now w =
     (let n = missed (wr_liveness w)
      in if n \<ge> ucast (wc_max_missed_keepalives (wr_cfg w))
         then (OutStop, wr_metrics (\<lambda>m. m\<lparr>m_keepalive_misses := m_keepalive_misses m + n\<rparr>) w)
         else (OutText ''keepalive'', w\<lparr>wr_liveness := record_sent now (wr_liveness w)\<rparr>))"

definition next_expiry :: "'s Writer \<Rightarrow> nat option" where
  "next_expiry w = next_deadline (wr_pending w)"

definition expire_pending :: "nat \<Rightarrow> 's Writer \<Rightarrow> 's Writer" where
  "expire_pending now w =
     (case expire now (wr_pending w) of
        (expired, out, q) \<Rightarrow>
          let w = w\<lparr>wr_pending := q, wr_answers := wr_answers w @ out\<rparr>
          in if 0 < expired
             then wr_metrics (\<lambda>m. m\<lparr>m_command_timeouts := m_command_timeouts m + word_of_nat expired\<rparr>) w
             else w)"

definition write_frame :: "write_result \<Rightarrow> OpCode \<Rightarrow> bytes \<Rightarrow> 's Writer \<Rightarrow> unit result \<times> 's Writer" where
  "write_frame res opcode payload w =
     (case res of
        WrOk \<Rightarrow> (Ok (), w\<lparr>wr_wire := wr_wire w @ [(opcode, payload)]\<rparr>)
      | WrStalled \<Rightarrow> (Err (Timeout ''socket write stalled''), w)
      | WrFailed e \<Rightarrow> (Err (WebSocket e), w))"

definition write_text :: "write_result \<Rightarrow> string \<Rightarrow> 's Writer \<Rightarrow> unit result \<times> 's Writer" where
  "write_text res text w = write_frame res OpText (as_bytes text) w"

definition write_control :: "write_result \<Rightarrow> OpCode \<Rightarrow> bytes \<Rightarrow> 's Writer \<Rightarrow> unit result \<times> 's Writer" where
  "write_control res opcode payload w = write_frame res opcode payload w"

section \<open>Shutdown\<close>

text \<open>
  What the reader does to the shared queue on answers that arrive while the writer waits
  (\<^verbatim>\<open>on_text_message\<close> of \<^verbatim>\<open>reader.rs\<close>, of which only the queue matters here).
\<close>

fun reader_replies :: "crypto \<Rightarrow> (string option \<times> bytes) list \<Rightarrow> 's Writer \<Rightarrow> 's Writer" where
  "reader_replies c [] w = w"
| "reader_replies c ((control, payload) # rs) w =
     (case resolve c control (wr_keys w) (wr_pending w) of
        (None, q) \<Rightarrow> reader_replies c rs (w\<lparr>wr_pending := note_unsolicited q\<rparr>)
      | (Some r, q) \<Rightarrow>
          reader_replies c rs
            (case res_resp r of
               None \<Rightarrow> w\<lparr>wr_pending := q\<rparr>
             | Some x \<Rightarrow> answer x (Ok payload) (w\<lparr>wr_pending := q\<rparr>)))"

text \<open>
  A request of the shutdown path: the readings and the write, the waiter it opens, and the answers
  the reader resolves until the wait is over. The channel is never closed unanswered, since every
  entry that leaves the queue is answered.
\<close>

record exchange_in =
  ex_supply :: readings
  ex_write :: write_result
  ex_waiter :: waiter
  ex_replies :: "(string option \<times> bytes) list"

definition request :: "crypto \<Rightarrow> exchange_in \<Rightarrow> string \<Rightarrow> 's Writer \<Rightarrow> bytes result \<times> 's Writer" where
  "request c x cmd w =
     (let label = cmd_label cmd
      in case prepare_command c (ex_supply x) cmd (Some (ex_waiter x)) w of
           (OutText text, w) \<Rightarrow>
             (case write_text (ex_write x) text w of
                (Inl e, w) \<Rightarrow> (Err e, w)
              | (Inr _, w) \<Rightarrow>
                  let w = reader_replies c (ex_replies x) w
                  in (case map_of (wr_answers w) (ex_waiter x) of
                        None \<Rightarrow> (Err (Timeout label), w)
                      | Some res \<Rightarrow> (res, w)))
         | (_, w) \<Rightarrow> (Err (Protocol (''could not encrypt '' @ label)), w))"

definition kill_token ::
  "crypto \<Rightarrow> 'v json \<Rightarrow> exchange_in \<Rightarrow> exchange_in \<Rightarrow> 's Writer \<Rightarrow> unit result \<times> 's Writer" where
  "kill_token c js x1 x2 w =
     (let tok = ss_token (wr_shared w)
      in if token_is_empty tok then (Ok (), w)
         else case request c x1 CMD_GET_KEY w of
           (Inl e, w) \<Rightarrow> (Err e, w)
         | (Inr key_resp, w) \<Rightarrow>
             (case build_token_hash c js key_resp tok of
                Inl e \<Rightarrow> (Err e, w)
              | Inr hash \<Rightarrow>
                  (case request c x2 (cmd_kill_token hash (wc_username (wr_cfg w))) w of
                     (Inl e, w) \<Rightarrow> (Err e, w)
                   | (Inr _, w) \<Rightarrow> (Ok (), w))))"

text \<open>\<^verbatim>\<open>Frame::close(1000, b"bye")\<close>: the code in network order, then the reason.\<close>

definition close_payload :: bytes where
  "close_payload = [0x03, 0xE8] @ as_bytes ''bye''"

definition graceful_close ::
  "crypto \<Rightarrow> 'v json \<Rightarrow> 's store_api \<Rightarrow> exchange_in \<Rightarrow> exchange_in \<Rightarrow> write_result \<Rightarrow> 's Writer \<Rightarrow> 's Writer" where
  "graceful_close c js api x1 x2 res w =
     (let w = (if wc_kill_token_on_stop (wr_cfg w)
               then let w = snd (kill_token c js x1 x2 w)
                    in w\<lparr>wr_shared := clear_token api (wr_shared w)\<rparr>
               else w)
      in snd (write_frame res OpClose close_payload w))"

definition writer_finish :: "'s Writer \<Rightarrow> 's Writer" where
  "writer_finish w =
     (case fail_all ''session ended'' (wr_pending w) of
        (dropped, out, q) \<Rightarrow>
          w\<lparr>wr_pending := q, wr_answers := wr_answers w @ out, wr_visu := snd (visu_drain (wr_visu w)),
            wr_abort_reader := False, wr_reader_aborted := wr_reader_aborted w \<or> wr_abort_reader w\<rparr>)"

section \<open>The loop\<close>

datatype wake = WakeMsg "WriterMsg option" | WakeCommand "IoCommand option" | WakeTick | WakeExpiry

definition decide :: "crypto \<Rightarrow> readings \<Rightarrow> wake \<Rightarrow> 's Writer \<Rightarrow> Outgoing \<times> 's Writer" where
  "decide c su ev w =
     (case ev of
        WakeMsg (Some msg) \<Rightarrow> on_writer_msg c su msg w
      | WakeMsg None \<Rightarrow> (OutStop, w)
      | WakeCommand None \<Rightarrow> (OutClose, w)
      | WakeCommand (Some cmd) \<Rightarrow> if cmd = IoStop then (OutClose, w) else on_io_command c su cmd w
      | WakeTick \<Rightarrow> on_keepalive_tick (su_now su) w
      | WakeExpiry \<Rightarrow> (OutIdle, w))"

record iteration =
  it_replies :: "(string option \<times> bytes) list"
  it_wake :: wake
  it_supply :: readings
  it_write :: write_result
  it_expire_now :: nat
  it_kill :: "exchange_in \<times> exchange_in"

text \<open>One iteration: whether the loop goes on, and the state.\<close>

definition iterate :: "crypto \<Rightarrow> 'v json \<Rightarrow> 's store_api \<Rightarrow> iteration \<Rightarrow> 's Writer \<Rightarrow> bool \<times> 's Writer" where
  "iterate c js api x w =
     (case decide c (it_supply x) (it_wake x) (reader_replies c (it_replies x) w) of
        (OutIdle, w) \<Rightarrow> (True, expire_pending (it_expire_now x) w)
      | (OutText text, w) \<Rightarrow>
          (case write_text (it_write x) text w of
             (Inl e, w) \<Rightarrow> (False, wr_metrics (\<lambda>m. m\<lparr>m_command_errors := m_command_errors m + 1\<rparr>) w)
           | (Inr _, w) \<Rightarrow> (True, expire_pending (it_expire_now x) w))
      | (OutControl opcode payload, w) \<Rightarrow>
          (case write_control (it_write x) opcode payload w of
             (Inl e, w) \<Rightarrow> (False, w)
           | (Inr _, w) \<Rightarrow> (True, expire_pending (it_expire_now x) w))
      | (OutStop, w) \<Rightarrow> (False, w)
      | (OutClose, w) \<Rightarrow>
          (False, graceful_close c js api (fst (it_kill x)) (snd (it_kill x)) (it_write x) (w\<lparr>wr_stopped := True\<rparr>)))"

text \<open>
  The loop over the given iterations: once it has ended, those it has not reached, whose commands
  stay in the channel that is handed back; and the state.
\<close>

fun writer_run ::
  "crypto \<Rightarrow> 'v json \<Rightarrow> 's store_api \<Rightarrow> iteration list \<Rightarrow> 's Writer \<Rightarrow> iteration list option \<times> 's Writer" where
  "writer_run c js api [] w = (None, w)"
| "writer_run c js api (x # xs) w =
     (case iterate c js api x w of
        (True, w) \<Rightarrow> writer_run c js api xs w
      | (False, w) \<Rightarrow> (Some xs, writer_finish w))"

section \<open>Preparing a command\<close>

lemma decode_control_encrypted:
  assumes "starts_with wire CMD_ENCRYPT" "decrypt_control_response c keys wire = Ok plain"
  shows "decode_control c wire keys = Some (strip_salt_prefix plain)"
proof -
  have "contains CMD_ENCRYPT wire"
    using assms(1) by (cases wire) (auto simp: CMD_ENCRYPT_def)
  with assms(2) show ?thesis
    by (simp add: decode_control_def)
qed

lemma prepare_ok:
  assumes "crypto_ok c" "wf_keys c (wr_keys w)" "wf_salt (wr_salt w)" "wf_command cmd" "su_random su \<noteq> []"
  obtains t st where
    "prepare_command c su cmd rsp w =
       (OutText t, w\<lparr>wr_salt := st,
          wr_pending := push cmd t rsp (su_now su + wc_command_timeout (wr_cfg w)) (wr_pending w)\<rparr>)"
    "wf_salt st" "starts_with t CMD_ENCRYPT" "decode_control c t (wr_keys w) = Some cmd"
proof -
  obtain t st where e: "encrypt c (su_random su) (su_check su) (su_stamp su) (wr_keys w) cmd (wr_salt w) = (Ok t, st)"
    "wf_salt st" "\<exists>plain. decrypt_control_response c (wr_keys w) t = Ok plain \<and> strip_salt_prefix plain = cmd"
    using receive_encrypt [OF assms(1-5)] by metis
  have t: "starts_with t CMD_ENCRYPT"
    using encrypt_ok [OF assms(1,2), of "su_random su" "su_check su" "su_stamp su" cmd "wr_salt w"] e(1)
    by (metis Inr_inject fst_conv starts_with_append)
  with e decode_control_encrypted [OF t] show ?thesis
    by (intro that [of t st]) (auto simp: prepare_command_def)
qed

lemma prepare_cases:
  "prepare_command c su cmd rsp w = (out, w') \<Longrightarrow>
     (\<exists>t e. out = OutText t \<and> plaintext_cmd e = cmd \<and> wire_cmd e = t \<and> resp e = rsp \<and>
        entries (wr_pending w') = entries (wr_pending w) @ [e] \<and> wr_answers w' = wr_answers w) \<or>
     (out = OutIdle \<and> wr_pending w' = wr_pending w \<and>
        map fst (wr_answers w') = map fst (wr_answers w) @ (case rsp of None \<Rightarrow> [] | Some x \<Rightarrow> [x]))"
  by (auto simp: prepare_command_def push_def Let_def wr_metrics_def answer_def split: sum.splits prod.splits option.splits)

lemma prepare_frame:
  "prepare_command c su cmd rsp w = (out, w') \<Longrightarrow>
     wr_cfg w' = wr_cfg w \<and> wr_liveness w' = wr_liveness w \<and> wr_keys w' = wr_keys w"
  by (auto simp: prepare_command_def Let_def wr_metrics_def answer_def split: sum.splits prod.splits option.splits)

text \<open>The command an event asks for, and the waiters it hands in.\<close>

fun wake_command :: "string \<Rightarrow> wake \<Rightarrow> string option" where
  "wake_command user (WakeMsg (Some (WCommand cmd r))) = Some cmd"
| "wake_command user (WakeCommand (Some (IoEncrypted cmd x))) = Some cmd"
| "wake_command user (WakeCommand (Some (IoControl uuid v))) = Some (''jdev/sps/io/'' @ uuid @ ''/'' @ v)"
| "wake_command user (WakeCommand (Some (IoVisuControl uuid v pw))) = Some (cmd_get_visu_salt user)"
| "wake_command user ev = None"

fun submitted :: "wake \<Rightarrow> waiter list" where
  "submitted (WakeMsg (Some (WCommand cmd (Some x)))) = [x]"
| "submitted (WakeCommand (Some (IoEncrypted cmd x))) = [x]"
| "submitted ev = []"

definition owed :: "'s Writer \<Rightarrow> waiter multiset" where
  "owed w = mset (map fst (wr_answers w)) + mset (waiters (entries (wr_pending w)))"

lemma owed_metrics [simp]: "owed (wr_metrics f w) = owed w"
  by (simp add: owed_def wr_metrics_def)

lemma owed_prepare:
  assumes "prepare_command c su cmd rsp w = (out, w')"
  shows "owed w' = owed w + mset (case rsp of None \<Rightarrow> [] | Some x \<Rightarrow> [x])"
  using prepare_cases [OF assms] by (auto simp: owed_def simp del: mset_map split: option.splits)

lemma owed_answer [simp]: "owed (answer x res w) = owed w + {#x#}"
  by (simp add: owed_def answer_def)

lemma owed_io_command:
  assumes "on_io_command c su cmd w = (out, w')"
  shows "owed w' = owed w + mset (submitted (WakeCommand (Some cmd)))"
proof -
  have v: "owed (w\<lparr>wr_visu := q\<rparr>) = owed w" for w q
    by (simp add: owed_def)
  show ?thesis
    using assms
    by (cases cmd) (auto simp: on_io_command_def Let_def v dest!: owed_prepare split: if_splits)
qed

lemma owed_decide:
  assumes "decide c su ev w = (out, w')"
  shows "owed w' = owed w + mset (submitted ev)"
proof (cases ev)
  case (WakeMsg msg)
  show ?thesis
  proof (cases msg)
    case None
    with WakeMsg assms show ?thesis by (simp add: decide_def)
  next
    case (Some m)
    with WakeMsg assms show ?thesis
      by (cases m) (auto simp: decide_def on_writer_msg_def dest!: owed_prepare split: option.splits)
  qed
next
  case (WakeCommand cmd)
  then show ?thesis
    using assms by (auto simp: decide_def dest: owed_io_command split: option.splits if_splits)
next
  case WakeTick
  then show ?thesis
    using assms by (auto simp: decide_def on_keepalive_tick_def Let_def owed_def wr_metrics_def split: if_splits)
next
  case WakeExpiry
  then show ?thesis
    using assms by (simp add: decide_def)
qed

lemma owed_expire [simp]: "owed (expire_pending now w) = owed w"
proof -
  let ?es = "entries (wr_pending w)"
  have "mset (waiters (expired_entries now ?es)) + mset (waiters (dropWhile (\<lambda>e. deadline e \<le> now) ?es)) = mset (waiters ?es)"
    unfolding expired_entries_def mset_append [symmetric] waiters_simps(3) [symmetric] by simp
  then show ?thesis
    by (auto simp: expire_pending_def expire_def expire_loop_eq owed_def wr_metrics_def fst_deliveries Let_def
        simp del: mset_map split: prod.split)
qed

lemma owed_replies [simp]: "owed (reader_replies c rs w) = owed w"
proof (induction c rs w rule: reader_replies.induct)
  case (2 c control payload rs w)
  show ?case
  proof (cases "entries (wr_pending w)")
    case Nil
    then show ?thesis
      using 2 resolve_None [OF Nil, of c control "wr_keys w"] by (simp add: owed_def note_unsolicited_def)
  next
    case (Cons e es)
    obtain r q where r: "resolve c control (wr_keys w) (wr_pending w) = (Some r, q)" "res_resp r = resp e"
      using resolve_Some [OF Cons, of c control "wr_keys w"] by (cases "resolve c control (wr_keys w) (wr_pending w)") auto
    have "entries q = es"
      using entries_resolve [of c control "wr_keys w" "wr_pending w"] r Cons by simp
    then show ?thesis
      using 2 r Cons by (cases "resp e") (simp_all add: owed_def answer_def)
  qed
qed simp

lemma owed_write: "write_frame res op p w = (out, w') \<Longrightarrow> owed w' = owed w"
  by (auto simp: write_frame_def owed_def split: write_result.splits)

lemma decide_frame:
  assumes "decide c su ev w = (out, w')"
  shows "wr_cfg w' = wr_cfg w \<and> wr_keys w' = wr_keys w"
proof -
  have p: "wr_cfg w' = wr_cfg w \<and> wr_keys w' = wr_keys w" if "prepare_command c su cmd rsp v = (out, w')"
    "wr_cfg v = wr_cfg w" "wr_keys v = wr_keys w" for cmd rsp v
    using prepare_frame [OF that(1)] that by simp
  show ?thesis
    using assms
    by (auto simp: decide_def on_writer_msg_def on_io_command_def on_keepalive_tick_def answer_def wr_metrics_def
        Let_def split: wake.splits option.splits WriterMsg.splits IoCommand.splits if_splits dest!: prepare_frame)
qed

lemma replies_frame:
  "wr_cfg (reader_replies c rs w) = wr_cfg w" "wr_keys (reader_replies c rs w) = wr_keys w"
  "wr_liveness (reader_replies c rs w) = wr_liveness w"
  by (induction c rs w rule: reader_replies.induct) (auto simp: answer_def split: prod.splits option.splits)

lemma owed_request:
  assumes "request c x cmd w = (res, w')"
  shows "owed w' = owed w + {#ex_waiter x#}"
proof -
  obtain out w1 where p: "prepare_command c (ex_supply x) cmd (Some (ex_waiter x)) w = (out, w1)"
    by fastforce
  have "owed w' = owed w1"
    using assms p
    by (cases out) (auto simp: request_def write_text_def Let_def dest!: owed_write split: sum.splits prod.splits option.splits)
  with owed_prepare [OF p] show ?thesis by simp
qed

lemma owed_kill_token:
  assumes "kill_token c js x1 x2 w = (res, w')" and "x \<noteq> ex_waiter x1" "x \<noteq> ex_waiter x2"
  shows "count (owed w') x = count (owed w) x"
  using assms
  by (auto simp: kill_token_def Let_def dest!: owed_request split: if_splits prod.splits sum.splits)

lemma owed_close:
  assumes "x \<noteq> ex_waiter x1" "x \<noteq> ex_waiter x2"
  shows "count (owed (graceful_close c js api x1 x2 res w)) x = count (owed w) x"
proof -
  have f: "owed (snd (write_frame r op p v)) = owed v" for r op p and v :: "'s Writer"
    using owed_write [of r op p v] by (cases "write_frame r op p v") simp
  have s: "owed (v\<lparr>wr_shared := sh\<rparr>) = owed v" for v :: "'s Writer" and sh
    by (simp add: owed_def)
  show ?thesis
    using owed_kill_token [OF _ assms, of c js w]
    by (cases "kill_token c js x1 x2 w") (simp add: graceful_close_def Let_def f s)
qed

lemma owed_iterate:
  assumes "iterate c js api it w = (go, w')"
    and "x \<noteq> ex_waiter (fst (it_kill it))" "x \<noteq> ex_waiter (snd (it_kill it))"
  shows "count (owed w') x = count (owed w + mset (submitted (it_wake it))) x"
proof -
  obtain out w1 where d: "decide c (it_supply it) (it_wake it) (reader_replies c (it_replies it) w) = (out, w1)"
    by fastforce
  have s: "owed (v\<lparr>wr_stopped := b\<rparr>) = owed v" for v :: "'s Writer" and b
    by (simp add: owed_def)
  have "count (owed w') x = count (owed w1) x"
    using assms(1) d
    by (cases out)
       (auto simp: iterate_def write_text_def write_control_def owed_close [OF assms(2,3)] s
         dest!: owed_write split: sum.splits prod.splits)
  with owed_decide [OF d] show ?thesis by simp
qed

lemma owed_finish: "owed (writer_finish w) = owed w" "entries (wr_pending (writer_finish w)) = []"
  by (simp_all add: writer_finish_def fail_all_def drain_loop_eq owed_def fst_deliveries Let_def del: mset_map)

lemma owed_run:
  assumes "writer_run c js api xs w = (Some rest, w')"
    and "\<forall>it\<in>set xs. x \<noteq> ex_waiter (fst (it_kill it)) \<and> x \<noteq> ex_waiter (snd (it_kill it))"
  shows "\<exists>ys. xs = ys @ rest \<and> entries (wr_pending w') = [] \<and>
    count (owed w') x = count (owed w + mset (concat (map (\<lambda>it. submitted (it_wake it)) ys))) x"
  using assms
proof (induction xs arbitrary: w)
  case (Cons it xs)
  obtain go w1 where i: "iterate c js api it w = (go, w1)"
    by fastforce
  have o: "count (owed w1) x = count (owed w + mset (submitted (it_wake it))) x"
    using owed_iterate [OF i] Cons.prems(2) by simp
  show ?case
  proof (cases go)
    case True
    then obtain ys where "xs = ys @ rest" "entries (wr_pending w') = []"
      "count (owed w') x = count (owed w1 + mset (concat (map (\<lambda>it. submitted (it_wake it)) ys))) x"
      using Cons.IH [of w1] Cons.prems i by auto
    with o show ?thesis
      by (intro exI [of _ "it # ys"]) simp
  next
    case False
    with Cons.prems i have "rest = xs" "w' = writer_finish w1" by auto
    with o show ?thesis
      by (intro exI [of _ "[it]"]) (simp add: owed_finish)
  qed
qed simp

lemma iterate_command:
  assumes "it_wake it = WakeCommand (Some (IoEncrypted cmd x))" "it_write it = WrOk"
  shows "fst (iterate c js api it w)"
proof -
  obtain out w' where d: "decide c (it_supply it) (it_wake it) (reader_replies c (it_replies it) w) = (out, w')"
    by fastforce
  then have "(\<exists>t. out = OutText t) \<or> out = OutIdle"
    using assms by (auto simp: decide_def on_io_command_def Let_def dest: prepare_cases split: if_splits)
  with d assms show ?thesis
    by (auto simp: iterate_def write_text_def write_frame_def)
qed

lemma iterate_disconnected:
  "it_wake it = WakeMsg None \<Longrightarrow> iterate c js api it w = (False, reader_replies c (it_replies it) w)"
  by (simp add: iterate_def decide_def)

section \<open>Keepalives\<close>

lemma missed_record_sent:
  assumes "acked l \<le> sent l" "unat (sent l) + 1 < 2 ^ 64"
  shows "unat (missed (record_sent now l)) = unat (missed l) + 1" "acked (record_sent now l) \<le> sent (record_sent now l)"
    "unat (sent (record_sent now l)) = unat (sent l) + 1"
proof -
  show s: "unat (sent (record_sent now l)) = unat (sent l) + 1"
    using assms(2) by (simp add: record_sent_def unat_word_ariths)
  have a: "acked (record_sent now l) = acked l"
    by (simp add: record_sent_def)
  have "unat (acked l) \<le> unat (sent l)"
    using assms(1) by (simp add: word_le_nat_alt)
  then show "unat (missed (record_sent now l)) = unat (missed l) + 1" "acked (record_sent now l) \<le> sent (record_sent now l)"
    using s by (simp_all add: missed_def unat_saturating_sub a word_le_nat_alt)
qed

lemma unat_u32_u64: "unat (ucast (x :: u32) :: u64) = unat x"
proof -
  have "unat x < 2 ^ 32"
    using unsigned_less [of x, where 'a = nat] by simp
  then show ?thesis
    by (simp add: unsigned_ucast_eq take_bit_nat_eq_self)
qed

lemma keepalive_tick:
  fixes w :: "'s Writer"
  defines "m \<equiv> unat (wc_max_missed_keepalives (wr_cfg w))"
  shows "m \<le> unat (missed (wr_liveness w)) \<Longrightarrow> fst (on_keepalive_tick now w) = OutStop"
    "unat (missed (wr_liveness w)) < m \<Longrightarrow>
       on_keepalive_tick now w = (OutText ''keepalive'', w\<lparr>wr_liveness := record_sent now (wr_liveness w)\<rparr>)"
  by (simp_all add: m_def on_keepalive_tick_def Let_def word_le_nat_alt unat_u32_u64)

text \<open>An iteration in which nothing but the keepalive timer fires and the write succeeds.\<close>

definition quiet_tick :: "iteration \<Rightarrow> bool" where
  "quiet_tick it \<longleftrightarrow> it_wake it = WakeTick \<and> it_write it = WrOk"

lemma expire_pending_frame:
  "wr_cfg (expire_pending now w) = wr_cfg w" "wr_liveness (expire_pending now w) = wr_liveness w"
  "wr_wire (expire_pending now w) = wr_wire w"
  by (simp_all add: expire_pending_def wr_metrics_def Let_def split: prod.split)

lemma replies_wire: "wr_wire (reader_replies c rs w) = wr_wire w"
  by (induction c rs w rule: reader_replies.induct) (auto simp: answer_def split: prod.splits option.splits)

lemma quiet_iteration:
  assumes "quiet_tick it" and "unat (missed (wr_liveness w)) < unat (wc_max_missed_keepalives (wr_cfg w))"
  obtains w' where "iterate c js api it w = (True, w')" "wr_cfg w' = wr_cfg w"
    "wr_liveness w' = record_sent (su_now (it_supply it)) (wr_liveness w)"
    "wr_wire w' = wr_wire w @ [(OpText, as_bytes ''keepalive'')]"
  using assms keepalive_tick(2) [of "reader_replies c (it_replies it) w" "su_now (it_supply it)"]
  by (auto simp: quiet_tick_def iterate_def decide_def write_text_def write_frame_def replies_frame replies_wire expire_pending_frame)

lemma quiet_stop:
  assumes "quiet_tick it" and "unat (wc_max_missed_keepalives (wr_cfg w)) \<le> unat (missed (wr_liveness w))"
  obtains w' where "iterate c js api it w = (False, w')" "wr_wire w' = wr_wire w"
  using assms
  by (auto simp: quiet_tick_def iterate_def decide_def on_keepalive_tick_def Let_def replies_frame replies_wire
      word_le_nat_alt unat_u32_u64 wr_metrics_def)

lemma quiet_run:
  assumes "acked (wr_liveness w) \<le> sent (wr_liveness w)"
    and "unat (missed (wr_liveness w)) + k = unat (wc_max_missed_keepalives (wr_cfg w))"
    and "unat (sent (wr_liveness w)) + k < 2 ^ 64"
    and "\<forall>it\<in>set xs. quiet_tick it" and "k < length xs"
  shows "\<exists>w'. writer_run c js api xs w = (Some (drop (Suc k) xs), w') \<and>
    wr_wire w' = wr_wire w @ replicate k (OpText, as_bytes ''keepalive'')"
  using assms
proof (induction k arbitrary: xs w)
  case 0
  then obtain it ys where xs: "xs = it # ys" "quiet_tick it" by (cases xs) auto
  obtain w' where "iterate c js api it w = (False, w')" "wr_wire w' = wr_wire w"
    using quiet_stop [OF xs(2), of w c js api] 0(2) by auto
  with xs show ?case
    by (simp add: writer_finish_def split: prod.split)
next
  case (Suc k)
  then obtain it ys where xs: "xs = it # ys" "quiet_tick it" by (cases xs) auto
  have lt: "unat (missed (wr_liveness w)) < unat (wc_max_missed_keepalives (wr_cfg w))"
    using Suc.prems(2) by simp
  obtain w1 where w1: "iterate c js api it w = (True, w1)" "wr_cfg w1 = wr_cfg w"
    "wr_liveness w1 = record_sent (su_now (it_supply it)) (wr_liveness w)"
    "wr_wire w1 = wr_wire w @ [(OpText, as_bytes ''keepalive'')]"
    by (rule quiet_iteration [OF xs(2) lt])
  have "unat (sent (wr_liveness w)) + 1 < 2 ^ 64"
    using Suc.prems(3) by simp
  note m = missed_record_sent [OF Suc.prems(1) this, of "su_now (it_supply it)"]
  have "\<exists>w'. writer_run c js api ys w1 = (Some (drop (Suc k) ys), w') \<and>
      wr_wire w' = wr_wire w1 @ replicate k (OpText, as_bytes ''keepalive'')"
    using Suc.prems xs w1 m by (intro Suc.IH) auto
  with xs w1 show ?case
    by auto
qed

section \<open>Properties\<close>

text \<open>A configuration and iterations with every write accepted, for the witnesses.\<close>

definition demo_config :: WriterConfig where
  "demo_config = \<lparr>wc_username = ''admin'', wc_keepalive_period = from_secs 60, wc_command_timeout = from_secs 10,
     wc_max_missed_keepalives = 2, wc_max_pending = 4, wc_kill_token_on_stop = False\<rparr>"

definition demo_readings :: readings where
  "demo_readings = \<lparr>su_random = replicate 16 1, su_check = 5, su_stamp = 5, su_now = 0\<rparr>"

definition demo_iteration :: "wake \<Rightarrow> iteration" where
  "demo_iteration ev = \<lparr>it_replies = [], it_wake = ev, it_supply = demo_readings, it_write = WrOk, it_expire_now = 0,
     it_kill = (\<lparr>ex_supply = demo_readings, ex_write = WrOk, ex_waiter = 0, ex_replies = []\<rparr>,
                \<lparr>ex_supply = demo_readings, ex_write = WrOk, ex_waiter = 1, ex_replies = []\<rparr>)\<rparr>"

text \<open>
  No caller is left waiting: whatever commands, answers, keepalives and write failures an
  ended writer loop saw, the queue is empty and every waiter that was queued before or handed in
  with a processed command has been answered exactly as often as it was handed in, while the
  commands not reached are handed back.
\<close>

theorem writer_answers_all:
  assumes "writer_run c js api xs w = (Some rest, w')" and "wr_answers w = []"
    and "\<forall>it\<in>set xs. x \<noteq> ex_waiter (fst (it_kill it)) \<and> x \<noteq> ex_waiter (snd (it_kill it))"
  shows "\<exists>ys. xs = ys @ rest \<and> entries (wr_pending w') = [] \<and>
    count (mset (map fst (wr_answers w'))) x =
      count (mset (waiters (entries (wr_pending w)) @ concat (map (\<lambda>it. submitted (it_wake it)) ys))) x"
proof -
  obtain ys where "xs = ys @ rest" and e: "entries (wr_pending w') = []"
    and "count (owed w') x = count (owed w + mset (concat (map (\<lambda>it. submitted (it_wake it)) ys))) x"
    using owed_run [OF assms(1,3)] by blast
  moreover have "owed w' = mset (map fst (wr_answers w'))" "owed w = mset (waiters (entries (wr_pending w)))"
    using e assms(2) by (simp_all add: owed_def)
  ultimately show ?thesis
    by (intro exI [of _ ys]) (simp del: mset_map)
qed

theorem writer_answers_all_witness:
  "\<exists>(w :: unit Writer) rest w'. writer_run crypto_std (json_table []) \<lparr>st_load = \<lambda>s b. None, st_save = \<lambda>s b t. s, st_clear = \<lambda>s b. s\<rparr>
      [demo_iteration (WakeCommand (Some (IoEncrypted ''jdev/cfg/api'' 7))), demo_iteration (WakeMsg None),
       demo_iteration WakeTick] w = (Some rest, w') \<and>
    wr_cfg w = demo_config \<and> count (mset (map fst (wr_answers w'))) 7 = 1"
proof -
  let ?api = "\<lparr>st_load = \<lambda>s b. None, st_save = \<lambda>s b t. s, st_clear = \<lambda>s b. s\<rparr> :: unit store_api"
  let ?xs = "[demo_iteration (WakeCommand (Some (IoEncrypted ''jdev/cfg/api'' 7))), demo_iteration (WakeMsg None),
       demo_iteration WakeTick]"
  let ?w = "session_writer (from_key_iv crypto_std [] []) salt_new (shared_new ()) False demo_config"
  obtain r w1 where r: "writer_run crypto_std (json_table []) ?api ?xs ?w = (r, w1)"
    by fastforce
  have "r = Some [demo_iteration WakeTick]"
    using r iterate_command [of "demo_iteration (WakeCommand (Some (IoEncrypted ''jdev/cfg/api'' 7)))"
        "''jdev/cfg/api''" 7 crypto_std "json_table []" ?api ?w]
    by (auto simp: demo_iteration_def iterate_disconnected split: prod.splits bool.splits)
  with r have run: "writer_run crypto_std (json_table []) ?api ?xs ?w = (Some [demo_iteration WakeTick], w1)"
    by simp
  have "count (mset (map fst (wr_answers w1))) 7 = 1"
    using writer_answers_all [OF run, of 7]
    by (auto simp: demo_iteration_def session_writer_def queue_new_def)
  moreover have "wr_cfg ?w = demo_config"
    by (simp add: session_writer_def)
  ultimately show ?thesis
    using run by blast
qed

text \<open>
  C35: What the writer sends it can recognise: a command asked of it, whichever way, becomes one
  encrypted text frame and one entry at the end of the queue, which holds that command, the frame,
  the caller's waiter and the deadline; the frame decrypts to the command under the session's keys.
  With the queue full a caller's command is refused at once and nothing is sent.
\<close>

theorem writer_registers_what_it_sends:
  assumes "crypto_ok c" "wf_keys c (wr_keys w)" "wf_salt (wr_salt w)" "su_random su \<noteq> []"
    and "wake_command (wc_username (wr_cfg w)) ev = Some cmd" "wf_command cmd"
  shows "let (out, w') = decide c su ev w
    in if (\<exists>x. ev = WakeCommand (Some (IoEncrypted cmd x))) \<and> wc_max_pending (wr_cfg w) \<le> queue_len (wr_pending w)
       then out = OutIdle \<and> wr_pending w' = wr_pending w \<and> wr_salt w' = wr_salt w \<and>
         wr_answers w' = wr_answers w @ map (\<lambda>x. (x, Err (Protocol (''too many commands in flight (max '' @
             nat_str (wc_max_pending (wr_cfg w)) @ '')'')))) (submitted ev)
       else \<exists>t e. out = OutText t \<and> entries (wr_pending w') = entries (wr_pending w) @ [e] \<and>
         plaintext_cmd e = cmd \<and> wire_cmd e = t \<and> resp e = (case submitted ev of [] \<Rightarrow> None | x # _ \<Rightarrow> Some x) \<and>
         deadline e = su_now su + wc_command_timeout (wr_cfg w) \<and>
         starts_with t CMD_ENCRYPT \<and> decode_control c t (wr_keys w) = Some cmd \<and>
         wr_answers w' = wr_answers w \<and> wf_salt (wr_salt w')"
proof -
  have p: "\<exists>t e w'. prepare_command c su cmd rsp v = (OutText t, w') \<and>
      entries (wr_pending w') = entries (wr_pending w) @ [e] \<and>
      plaintext_cmd e = cmd \<and> wire_cmd e = t \<and> resp e = rsp \<and>
      deadline e = su_now su + wc_command_timeout (wr_cfg w) \<and>
      starts_with t CMD_ENCRYPT \<and> decode_control c t (wr_keys w) = Some cmd \<and>
      wr_answers w' = wr_answers w \<and> wf_salt (wr_salt w')"
    if v: "wr_keys v = wr_keys w" "wr_salt v = wr_salt w" "wr_pending v = wr_pending w" "wr_cfg v = wr_cfg w"
      "wr_answers v = wr_answers w" for rsp and v :: "'a Writer"
  proof -
    obtain t st where "prepare_command c su cmd rsp v =
       (OutText t, v\<lparr>wr_salt := st,
          wr_pending := push cmd t rsp (su_now su + wc_command_timeout (wr_cfg v)) (wr_pending v)\<rparr>)"
      "wf_salt st" "starts_with t CMD_ENCRYPT" "decode_control c t (wr_keys v) = Some cmd"
      using prepare_ok [of c v cmd su rsp] assms(1-4,6) unfolding v(1,2) by blast
    then show ?thesis
      using v by (simp add: push_def)
  qed
  show ?thesis
    using assms(5)
  proof (cases rule: wake_command.cases [of "(wc_username (wr_cfg w), ev)"])
    case (1 user cm r)
    then show ?thesis
      using p [of w r] assms(5) by (cases r) (auto simp: decide_def on_writer_msg_def)
  next
    case (2 user cm x)
    then show ?thesis
      using p [of "wr_metrics (\<lambda>m. m\<lparr>m_commands_sent := m_commands_sent m + 1\<rparr>) w" "Some x"] assms(5)
      by (auto simp: decide_def on_io_command_def Let_def wr_metrics_def answer_def)
  next
    case (3 user uuid v)
    then show ?thesis
      using p [of "wr_metrics (\<lambda>m. m\<lparr>m_commands_sent := m_commands_sent m + 1\<rparr>) w" None] assms(5)
      by (auto simp: decide_def on_io_command_def Let_def wr_metrics_def)
  next
    case (4 user uuid v pw)
    let ?w = "wr_metrics (\<lambda>m. m\<lparr>m_commands_sent := m_commands_sent m + 1\<rparr>) w"
    let ?v = "?w\<lparr>wr_visu := visu_push \<lparr>visu_uuid = uuid, visu_value = v, visu_pw = pw\<rparr> (wr_visu ?w)\<rparr>"
    show ?thesis
      using 4 p [of ?v None] assms(5) by (auto simp: decide_def on_io_command_def Let_def wr_metrics_def)
  qed auto
qed

theorem writer_registers_what_it_sends_witness:
  "\<exists>(w :: unit Writer) w' t e. decide crypto_std demo_readings (WakeCommand (Some (IoEncrypted ''jdev/cfg/api'' 7))) w = (OutText t, w') \<and>
     wr_cfg w = demo_config \<and> entries (wr_pending w') = [e] \<and> wire_cmd e = t \<and> resp e = Some 7 \<and>
     decode_control crypto_std t (wr_keys w) = Some ''jdev/cfg/api''"
proof -
  let ?w = "session_writer (from_key_iv crypto_std (replicate 32 7) (replicate 16 9)) salt_new (shared_new ()) False demo_config"
  let ?ev = "WakeCommand (Some (IoEncrypted ''jdev/cfg/api'' 7))"
  have "wf_command ''jdev/cfg/api''"
    unfolding wf_command_def by (rule conjI, rule utf8_valid_ascii_str, simp, simp)
  then have "let (out, w') = decide crypto_std demo_readings ?ev ?w
    in \<exists>t e. out = OutText t \<and> entries (wr_pending w') = [e] \<and> wire_cmd e = t \<and> resp e = Some 7 \<and>
      decode_control crypto_std t (wr_keys ?w) = Some ''jdev/cfg/api''"
    using writer_registers_what_it_sends [of crypto_std ?w demo_readings ?ev "''jdev/cfg/api''"]
    by (auto simp: demo_readings_def session_writer_def demo_config_def queue_new_def queue_len_def
        AES_KEY_SIZE_def IV_BYTES_def)
  moreover have "wr_cfg ?w = demo_config"
    by (simp add: session_writer_def)
  ultimately show ?thesis
    by - (rule exI [of _ ?w], auto)
qed

text \<open>
  C36: A peer that has gone silent is noticed: if only the keepalive timer fires and no keepalive
  is acknowledged, the writer sends exactly as many keepalives as may still go unanswered and
  then ends the session at the next tick.
\<close>

theorem silent_peer_detected:
  assumes "acked (wr_liveness w) \<le> sent (wr_liveness w)"
    and "unat (missed (wr_liveness w)) + k = unat (wc_max_missed_keepalives (wr_cfg w))"
    and "unat (sent (wr_liveness w)) + k < 2 ^ 64"
    and "\<forall>it\<in>set ticks. quiet_tick it" and "k < length ticks"
  shows "\<exists>w'. writer_run c js api ticks w = (Some (drop (Suc k) ticks), w') \<and>
    wr_wire w' = wr_wire w @ replicate k (OpText, as_bytes ''keepalive'')"
  using assms by (rule quiet_run)

theorem silent_peer_detected_witness:
  "\<exists>w w'. writer_run crypto_std (json_table []) (\<lparr>st_load = \<lambda>s b. None, st_save = \<lambda>s b t. s, st_clear = \<lambda>s b. s\<rparr> :: unit store_api)
      (replicate 5 (demo_iteration WakeTick)) w = (Some (replicate 2 (demo_iteration WakeTick)), w') \<and>
    wr_wire w' = replicate 2 (OpText, as_bytes ''keepalive'')"
proof -
  let ?api = "\<lparr>st_load = \<lambda>s b. None, st_save = \<lambda>s b t. s, st_clear = \<lambda>s b. s\<rparr> :: unit store_api"
  let ?w = "session_writer (from_key_iv crypto_std [] []) salt_new (shared_new ()) False demo_config"
  have "\<exists>w'. writer_run crypto_std (json_table []) ?api (replicate 5 (demo_iteration WakeTick)) ?w =
      (Some (drop (Suc 2) (replicate 5 (demo_iteration WakeTick))), w') \<and>
    wr_wire w' = wr_wire ?w @ replicate 2 (OpText, as_bytes ''keepalive'')"
    by (rule silent_peer_detected)
       (simp_all add: session_writer_def liveness_new_def missed_def unat_saturating_sub demo_config_def
         quiet_tick_def demo_iteration_def)
  then show ?thesis
    by (auto simp: session_writer_def)
qed

end
