(* ===== verification/Lox_Tls.thy ===== *)
theory Lox_Tls
  imports Lox_Hash
begin

text \<open>
  The certificate policy (\<^verbatim>\<open>src/src/client/tls.rs\<close>): the verification modes, the pin that all
  connections of a client share, and the verifiers that decide on a presented certificate. The
  X.509 crate is a parameter; the checks rustls makes by itself are its verdicts, given as arguments.
\<close>

section \<open>The model\<close>

datatype TlsMode = WebPki | PinOnFirstUse | Pinned (spki_sha256_pin: bytes) | Insecure

fun pins :: "TlsMode \<Rightarrow> bool" where
  "pins PinOnFirstUse = True"
| "pins (Pinned _) = True"
| "pins _ = False"

text \<open>The verifier a configuration is built with: the WebPKI one of rustls, or one of this module.\<close>

datatype verifier = WebPkiVerifier | SpkiPinVerifier (learn: bool) | NoCertVerifier

record TlsContext =
  tls_mode :: TlsMode
  tls_pin :: "bytes option"
  tls_verifier :: verifier

text \<open>The X.509 functions: a certificate from DER, a chain from PEM, the encoded public key of one.\<close>

record 'c x509 =
  cert_from_der :: "bytes \<Rightarrow> string + 'c"
  load_pem_chain :: "bytes \<Rightarrow> string + 'c list"
  spki_to_der :: "'c \<Rightarrow> string + bytes"

text \<open>Building the configuration can fail on the protocol versions, the argument.\<close>

definition tls_new :: "string + unit \<Rightarrow> TlsMode \<Rightarrow> TlsContext result" where
  "tls_new versions mode =
     (let pin = (case mode of Pinned spki \<Rightarrow> Some spki | _ \<Rightarrow> None)
      in try_then (map_err Tls versions) (\<lambda>_.
           let config = (case mode of
                           WebPki \<Rightarrow> WebPkiVerifier
                         | PinOnFirstUse \<Rightarrow> SpkiPinVerifier True
                         | Pinned _ \<Rightarrow> SpkiPinVerifier False
                         | Insecure \<Rightarrow> NoCertVerifier)
           in Ok \<lparr>tls_mode = mode, tls_pin = pin, tls_verifier = config\<rparr>))"

definition pinned_spki :: "TlsContext \<Rightarrow> bytes option" where
  "pinned_spki ctx = tls_pin ctx"

definition needs_pin_bootstrap :: "TlsContext \<Rightarrow> bool" where
  "needs_pin_bootstrap ctx \<longleftrightarrow> pins (tls_mode ctx) \<and> pinned_spki ctx = None"

definition adopt_spki :: "crypto \<Rightarrow> bytes \<Rightarrow> TlsContext \<Rightarrow> unit result \<times> TlsContext" where
  "adopt_spki c spki ctx =
     (if \<not> pins (tls_mode ctx) then (Ok (), ctx)
      else case tls_pin ctx of
        Some existing \<Rightarrow>
          if existing = spki then (Ok (), ctx)
          else (Err (TlsPinMismatch (hex_encode c existing) (hex_encode c spki)), ctx)
      | None \<Rightarrow> (Ok (), ctx\<lparr>tls_pin := Some spki\<rparr>))"

definition spki_sha256_of :: "crypto \<Rightarrow> 'c x509 \<Rightarrow> 'c \<Rightarrow> bytes result" where
  "spki_sha256_of c x cert =
     try_then (map_err (\<lambda>e. Tls (''SPKI encode: '' @ e)) (spki_to_der x cert)) (\<lambda>der.
     Ok (sha256_digest c der))"

definition spki_sha256 :: "crypto \<Rightarrow> 'c x509 \<Rightarrow> bytes \<Rightarrow> bytes result" where
  "spki_sha256 c x cert_der =
     try_then (map_err (\<lambda>e. Tls (''certificate parse: '' @ e)) (cert_from_der x cert_der)) (\<lambda>cert.
     spki_sha256_of c x cert)"

definition spki_sha256_from_pem_chain :: "crypto \<Rightarrow> 'c x509 \<Rightarrow> string \<Rightarrow> bytes result" where
  "spki_sha256_from_pem_chain c x pem =
     try_then (map_err (\<lambda>e. Tls (''certificate chain parse: '' @ e)) (load_pem_chain x (as_bytes pem))) (\<lambda>chain.
     if chain = [] then Err (Tls ''certificate chain is empty'')
     else spki_sha256_of c x (last chain))"

text \<open>What a verifier answers rustls: an error of its own text, a failed verification, or acceptance.\<close>

datatype verify_error = General string | ApplicationVerificationFailure

definition pin_verify_server_cert ::
  "crypto \<Rightarrow> 'c x509 \<Rightarrow> bool \<Rightarrow> bytes \<Rightarrow> bytes option \<Rightarrow> (verify_error + unit) \<times> bytes option" where
  "pin_verify_server_cert c x learns end_entity slot =
     (case spki_sha256 c x end_entity of
        Inl e \<Rightarrow> (Inl (General (error_display e)), slot)
      | Inr presented \<Rightarrow>
          (case slot of
             Some expected \<Rightarrow>
               if expected = presented then (Inr (), slot) else (Inl ApplicationVerificationFailure, slot)
           | None \<Rightarrow>
               if learns then (Inr (), Some presented) else (Inl ApplicationVerificationFailure, slot)))"

definition no_verify_server_cert :: "bytes \<Rightarrow> verify_error + unit" where
  "no_verify_server_cert end_entity = Inr ()"

text \<open>
  A TLS connection of the client verifies with the verifier of its context; \<open>webpki\<close> is the
  verdict of the WebPKI verifier of rustls.
\<close>

definition verify_connection ::
  "crypto \<Rightarrow> 'c x509 \<Rightarrow> (bytes \<Rightarrow> verify_error + unit) \<Rightarrow> bytes \<Rightarrow> TlsContext \<Rightarrow> (verify_error + unit) \<times> TlsContext" where
  "verify_connection c x webpki end_entity ctx =
     (case tls_verifier ctx of
        WebPkiVerifier \<Rightarrow> (webpki end_entity, ctx)
      | SpkiPinVerifier learns \<Rightarrow>
          (case pin_verify_server_cert c x learns end_entity (tls_pin ctx) of
             (res, slot) \<Rightarrow> (res, ctx\<lparr>tls_pin := slot\<rparr>))
      | NoCertVerifier \<Rightarrow> (no_verify_server_cert end_entity, ctx))"

text \<open>
  The signature over the handshake, which proves that the server holds the key of its
  certificate: the verifiers forward it to rustls, whose verdict is an argument, except the one
  that accepts everything.
\<close>

definition verify_signature :: "(bytes \<Rightarrow> verify_error + unit) \<Rightarrow> bytes \<Rightarrow> TlsContext \<Rightarrow> verify_error + unit" where
  "verify_signature verdict cert ctx =
     (case tls_verifier ctx of NoCertVerifier \<Rightarrow> Inr () | _ \<Rightarrow> verdict cert)"

section \<open>Histories of the shared pin\<close>

datatype tls_op = Adopt bytes | Handshake_cert bytes

text \<open>
  What happens to a context over its lifetime: pins announced over HTTP and certificates presented
  in handshakes. The result lists the fingerprints that were accepted.
\<close>

fun tls_run ::
  "crypto \<Rightarrow> 'c x509 \<Rightarrow> (bytes \<Rightarrow> verify_error + unit) \<Rightarrow> tls_op list \<Rightarrow> TlsContext \<Rightarrow> bytes list \<times> TlsContext" where
  "tls_run c x webpki [] ctx = ([], ctx)"
| "tls_run c x webpki (Adopt spki # ops) ctx =
     (case adopt_spki c spki ctx of
        (res, ctx) \<Rightarrow>
          (case tls_run c x webpki ops ctx of
             (acc, ctx) \<Rightarrow> (if res = Ok () then spki # acc else acc, ctx)))"
| "tls_run c x webpki (Handshake_cert der # ops) ctx =
     (case verify_connection c x webpki der ctx of
        (res, ctx) \<Rightarrow>
          (case tls_run c x webpki ops ctx of
             (acc, ctx) \<Rightarrow>
               (case (res, spki_sha256 c x der) of
                  (Inr _, Inr spki) \<Rightarrow> (spki # acc, ctx)
                | _ \<Rightarrow> (acc, ctx))))"

text \<open>A context that came out of \<^const>\<open>tls_new\<close>, whatever has happened to it since.\<close>

definition wf_tls :: "TlsContext \<Rightarrow> bool" where
  "wf_tls ctx \<longleftrightarrow>
     (case tls_mode ctx of
        WebPki \<Rightarrow> tls_verifier ctx = WebPkiVerifier \<and> tls_pin ctx = None
      | PinOnFirstUse \<Rightarrow> tls_verifier ctx = SpkiPinVerifier True
      | Pinned p \<Rightarrow> tls_verifier ctx = SpkiPinVerifier False \<and> tls_pin ctx = Some p
      | Insecure \<Rightarrow> tls_verifier ctx = NoCertVerifier \<and> tls_pin ctx = None)"

lemma wf_tls_new: "tls_new v mode = Ok ctx \<Longrightarrow> wf_tls ctx \<and> tls_mode ctx = mode"
  by (cases v; cases mode) (auto simp: tls_new_def wf_tls_def)

lemma adopt_step:
  assumes "adopt_spki c spki ctx = (res, ctx')" "wf_tls ctx" "pins (tls_mode ctx)"
  shows "wf_tls ctx' \<and> tls_mode ctx' = tls_mode ctx \<and> (tls_pin ctx \<noteq> None \<longrightarrow> tls_pin ctx' = tls_pin ctx) \<and>
    (res = Ok () \<longrightarrow> tls_pin ctx' = Some spki)"
  using assms by (cases "tls_mode ctx") (auto simp: adopt_spki_def wf_tls_def split: option.splits if_splits)

lemma verify_step:
  assumes "verify_connection c x webpki der ctx = (res, ctx')" "wf_tls ctx" "pins (tls_mode ctx)"
  shows "wf_tls ctx' \<and> tls_mode ctx' = tls_mode ctx \<and> (tls_pin ctx \<noteq> None \<longrightarrow> tls_pin ctx' = tls_pin ctx) \<and>
    (res = Inr () \<longrightarrow> (\<exists>spki. spki_sha256 c x der = Ok spki \<and> tls_pin ctx' = Some spki))"
  using assms
  by (cases "tls_mode ctx")
     (auto simp: verify_connection_def pin_verify_server_cert_def wf_tls_def split: option.splits if_splits sum.splits)

lemma tls_run_pin:
  assumes "tls_run c x webpki ops ctx = (acc, ctx')" "wf_tls ctx" "pins (tls_mode ctx)"
  shows "wf_tls ctx' \<and> tls_mode ctx' = tls_mode ctx \<and> (tls_pin ctx \<noteq> None \<longrightarrow> tls_pin ctx' = tls_pin ctx) \<and>
    (\<forall>spki\<in>set acc. tls_pin ctx' = Some spki)"
  using assms
proof (induction c x webpki ops ctx arbitrary: acc ctx' rule: tls_run.induct)
  case (2 c x webpki spki ops ctx)
  obtain res c1 where a: "adopt_spki c spki ctx = (res, c1)" by fastforce
  obtain acc1 c2 where t: "tls_run c x webpki ops c1 = (acc1, c2)" by fastforce
  note s = adopt_step [OF a 2(3,4)]
  from 2(1) [OF a [symmetric] t] s 2(2,4) a t show ?case
    by (auto split: if_splits)
next
  case (3 c x webpki der ops ctx)
  obtain res c1 where a: "verify_connection c x webpki der ctx = (res, c1)" by fastforce
  obtain acc1 c2 where t: "tls_run c x webpki ops c1 = (acc1, c2)" by fastforce
  note s = verify_step [OF a 3(3,4)]
  from 3(1) [OF a [symmetric] t] s 3(2,4) a t show ?case
    by (auto split: sum.splits)
qed simp

section \<open>Properties\<close>

text \<open>
  In a pinning mode a client speaks to one key only: over any history of announced pins and
  presented certificates, all accepted fingerprints are the same, it is the configured one if
  there is one, and once a pin is set it never changes.
\<close>

theorem one_key_per_client:
  assumes "tls_new (Inr ()) mode = Ok ctx" and "pins mode"
    and "tls_run c x webpki ops ctx = (acc, ctx')"
  shows "(\<forall>spki\<in>set acc. tls_pin ctx' = Some spki \<and> (\<forall>p. mode = Pinned p \<longrightarrow> spki = p)) \<and>
    (acc \<noteq> [] \<longrightarrow> \<not> needs_pin_bootstrap ctx') \<and>
    (\<forall>ops' acc' ctx''. tls_run c x webpki ops' ctx' = (acc', ctx'') \<longrightarrow> tls_pin ctx' \<noteq> None \<longrightarrow>
       tls_pin ctx'' = tls_pin ctx' \<and> set acc' \<subseteq> {the (tls_pin ctx')})"
proof -
  have w: "wf_tls ctx" "tls_mode ctx = mode"
    using wf_tls_new [OF assms(1)] by auto
  have r: "wf_tls ctx'" "tls_mode ctx' = mode" "\<forall>spki\<in>set acc. tls_pin ctx' = Some spki"
    using tls_run_pin [OF assms(3) w(1)] w(2) assms(2) by auto
  have pin: "tls_pin ctx' = Some p" if "mode = Pinned p" for p
    using r that by (simp add: wf_tls_def)
  have later: "tls_pin ctx'' = tls_pin ctx' \<and> set acc' \<subseteq> {the (tls_pin ctx')}"
    if "tls_run c x webpki ops' ctx' = (acc', ctx'')" "tls_pin ctx' \<noteq> None" for ops' acc' ctx''
    using tls_run_pin [OF that(1) r(1)] r(2) assms(2) that(2) by auto
  show ?thesis
    using r pin later by (auto simp: needs_pin_bootstrap_def pinned_spki_def neq_Nil_conv)
qed

theorem one_key_per_client_witness:
  "\<exists>ctx acc ctx'. tls_new (Inr ()) PinOnFirstUse = Ok ctx \<and>
     tls_run crypto_std \<lparr>cert_from_der = Inr, load_pem_chain = (\<lambda>p. Inr [p]), spki_to_der = Inr\<rparr> (\<lambda>_. Inr ())
       [Handshake_cert [1], Adopt (sha256_digest crypto_std [2]), Handshake_cert [1]] ctx = (acc, ctx') \<and>
     (\<forall>spki\<in>set acc. tls_pin ctx' = Some spki)"
proof -
  let ?x = "\<lparr>cert_from_der = Inr, load_pem_chain = (\<lambda>p. Inr [p]), spki_to_der = Inr\<rparr> :: bytes x509"
  let ?ops = "[Handshake_cert [1], Adopt (sha256_digest crypto_std [2]), Handshake_cert [1]]"
  obtain ctx where n: "tls_new (Inr ()) PinOnFirstUse = Ok ctx"
    by (simp add: tls_new_def)
  obtain acc ctx' where r: "tls_run crypto_std ?x (\<lambda>_. Inr ()) ?ops ctx = (acc, ctx')"
    by fastforce
  show ?thesis
    using one_key_per_client [OF n _ r] n r by auto
qed

end
