(* ===== verification/Lox_Http.thy ===== *)
theory Lox_Http
  imports Lox_Tls Lox_Policy Lox_Auth
begin

text \<open>
  The configuration of a client (\<^verbatim>\<open>ConnectConfig\<close> of \<^verbatim>\<open>src/src/client/mod.rs\<close>), the endpoints
  derived from its URL (\<^verbatim>\<open>src/src/client/connect.rs\<close>) and the cold-path requests
  (\<^verbatim>\<open>src/src/client/http.rs\<close>). The URL parser and the network are parameters; a
  TLS connection verifies what the server presents, and may learn a pin by it.
\<close>

section \<open>Configuration\<close>

definition COMMAND_CHANNEL_DEPTH :: nat where "COMMAND_CHANNEL_DEPTH = 32"
definition MAX_PENDING_COMMANDS :: nat where "MAX_PENDING_COMMANDS = 32"

text \<open>Of the token store the configuration only says whether there is one.\<close>

record ConnectConfig =
  cc_loxone_url :: string
  cc_username :: string
  cc_password :: string
  cc_tls :: TlsMode
  cc_receive_updates :: bool
  cc_local_only :: bool
  cc_max_reconnect_attempts :: u32
  cc_client_uuid :: string
  cc_client_info :: string
  cc_token_permission :: TokenPermission
  cc_keepalive_secs :: nat
  cc_connect_delay_secs :: nat
  cc_long_backoff_secs :: nat
  cc_command_timeout_secs :: nat
  cc_read_idle_timeout_secs :: nat
  cc_max_missed_keepalives :: u32
  cc_max_pending_commands :: nat
  cc_command_channel_depth :: nat
  cc_token_store :: bool
  cc_kill_token_on_stop :: bool

definition connect_config_new :: "string \<Rightarrow> string \<Rightarrow> string \<Rightarrow> ConnectConfig" where
  "connect_config_new url user pw =
     \<lparr>cc_loxone_url = url, cc_username = user, cc_password = pw, cc_tls = WebPki, cc_receive_updates = True,
      cc_local_only = False, cc_max_reconnect_attempts = 0, cc_client_uuid = DEFAULT_CLIENT_UUID,
      cc_client_info = DEFAULT_CLIENT_INFO, cc_token_permission = App, cc_keepalive_secs = KEEP_ALIVE_PERIOD_SECS,
      cc_connect_delay_secs = CONNECT_DELAY_SECS, cc_long_backoff_secs = LONG_BACKOFF_SECS,
      cc_command_timeout_secs = COMMAND_TIMEOUT_SECS, cc_read_idle_timeout_secs = READ_IDLE_TIMEOUT_SECS,
      cc_max_missed_keepalives = MAX_MISSED_KEEPALIVES, cc_max_pending_commands = MAX_PENDING_COMMANDS,
      cc_command_channel_depth = COMMAND_CHANNEL_DEPTH, cc_token_store = False, cc_kill_token_on_stop = True\<rparr>"

definition config_with_token_store :: "ConnectConfig \<Rightarrow> ConnectConfig" where
  "config_with_token_store cfg = cfg\<lparr>cc_token_store := True\<rparr>"

section \<open>Endpoints\<close>

record 'u url_api =
  url_parse :: "string \<Rightarrow> string + 'u"
  url_host_str :: "'u \<Rightarrow> string option"
  url_scheme :: "'u \<Rightarrow> string"
  url_port :: "'u \<Rightarrow> u16 option"
  url_set_path :: "string \<Rightarrow> 'u \<Rightarrow> 'u"
  url_set_query :: "string option \<Rightarrow> 'u \<Rightarrow> 'u"
  url_set_fragment :: "string option \<Rightarrow> 'u \<Rightarrow> 'u"
  url_to_string :: "'u \<Rightarrow> string"

record Endpoints =
  ep_http_base :: string
  ep_ws_url :: string
  ep_host :: string
  ep_port :: u16
  ep_use_tls :: bool

definition from_loxone_url :: "'u url_api \<Rightarrow> string \<Rightarrow> Endpoints result" where
  "from_loxone_url U loxone_url =
     (let url_str = trim loxone_url;
          url_str = (if \<not> starts_with url_str ''http://'' \<and> \<not> starts_with url_str ''https://''
                     then ''http://'' @ url_str else url_str)
      in try_then (map_err Protocol (url_parse U url_str)) (\<lambda>url.
         try_then (ok_or (Protocol ''URL missing host'') (url_host_str U url)) (\<lambda>h.
         let tls = (url_scheme U url = ''https'');
             p = (case url_port U url of Some p \<Rightarrow> p | None \<Rightarrow> if tls then 443 else 80);
             s = url_to_string U (url_set_fragment U None (url_set_query U None (url_set_path U [] url)));
             scheme = (if tls then ''wss'' else ''ws'')
         in Ok \<lparr>ep_http_base = trim_end_matches (CHR ''/'') s,
                ep_ws_url = scheme @ ''://'' @ h @ '':'' @ nat_str (unat p) @ ''/ws/rfc6455'',
                ep_host = h, ep_port = p, ep_use_tls = tls\<rparr>)))"

definition ws_host_header :: "Endpoints \<Rightarrow> string" where
  "ws_host_header e =
     (if (\<not> ep_use_tls e \<and> ep_port e = 80) \<or> (ep_use_tls e \<and> ep_port e = 443) then ep_host e
      else ep_host e @ '':'' @ nat_str (unat (ep_port e)))"

section \<open>Answers of the cold path\<close>

definition CMD_GET_PUBLIC_KEY :: string where "CMD_GET_PUBLIC_KEY = ''jdev/sys/getPublicKey''"
definition CMD_GET_CERTIFICATE :: string where "CMD_GET_CERTIFICATE = ''jdev/sys/getcertificate''"
definition CMD_API_KEY :: string where "CMD_API_KEY = ''jdev/cfg/apiKey''"
definition CMD_API :: string where "CMD_API = ''jdev/cfg/api''"
definition TIMEOUT_SECS :: nat where "TIMEOUT_SECS = 30"
definition REACHABILITY_TIMEOUT_SECS :: nat where "REACHABILITY_TIMEOUT_SECS = 3"

record ApiInfo =
  ai_snr :: "string option"
  ai_version :: "string option"
  ai_https_status :: "u8 option"
  ai_local :: "bool option"
  ai_has_event_slots :: "bool option"

definition or_else :: "'a option \<Rightarrow> 'a option \<Rightarrow> 'a option" where
  "or_else a b = (case a of Some v \<Rightarrow> Some v | None \<Rightarrow> b)"

definition fill_from :: "ApiInfo \<Rightarrow> ApiInfo \<Rightarrow> ApiInfo" where
  "fill_from a other =
     \<lparr>ai_snr = or_else (ai_snr a) (ai_snr other), ai_version = or_else (ai_version a) (ai_version other),
      ai_https_status = or_else (ai_https_status a) (ai_https_status other),
      ai_local = or_else (ai_local a) (ai_local other),
      ai_has_event_slots = or_else (ai_has_event_slots a) (ai_has_event_slots other)\<rparr>"

definition string_field :: "'v json \<Rightarrow> 'v \<Rightarrow> string \<Rightarrow> string option" where
  "string_field js v key =
     Option.bind (json_get js v key) (\<lambda>field.
       case or_else (json_as_str js field) (map_option (\<lambda>n. nat_str (unat n)) (json_as_u64 js field)) of
         Some s \<Rightarrow> if s \<noteq> [] then Some s else None
       | None \<Rightarrow> None)"

definition u8_field :: "'v json \<Rightarrow> 'v \<Rightarrow> string \<Rightarrow> u8 option" where
  "u8_field js v key =
     Option.bind (json_get js v key) (\<lambda>field.
     Option.bind
       (or_else (map_option unat (json_as_u64 js field))
          (Option.bind (json_as_str js field) (\<lambda>s. parse_unsigned (2 ^ 64 - 1) (trim s))))
       (\<lambda>n. if n < 256 then Some (word_of_nat n) else None))"

definition bool_field :: "'v json \<Rightarrow> 'v \<Rightarrow> string \<Rightarrow> bool option" where
  "bool_field js v key =
     Option.bind (json_get js v key) (\<lambda>field.
       case json_as_bool js field of
         Some b \<Rightarrow> Some b
       | None \<Rightarrow>
           (case json_as_u64 js field of
              Some n \<Rightarrow> Some (n \<noteq> 0)
            | None \<Rightarrow>
                Option.bind (json_as_str js field) (\<lambda>s.
                  let s = trim s
                  in if s = ''true'' \<or> s = ''1'' then Some True
                     else if s = ''false'' \<or> s = ''0'' then Some False
                     else None)))"

definition from_value :: "'v json \<Rightarrow> 'v \<Rightarrow> ApiInfo" where
  "from_value js v =
     \<lparr>ai_snr = string_field js v ''snr'', ai_version = string_field js v ''version'',
      ai_https_status = u8_field js v ''httpsStatus'', ai_local = bool_field js v ''local'',
      ai_has_event_slots = bool_field js v ''hasEventSlots''\<rparr>"

definition parse_relaxed_object :: "'v json \<Rightarrow> string \<Rightarrow> 'v result" where
  "parse_relaxed_object js raw =
     (let strict = (case json_from_str js raw of
                      Inr v \<Rightarrow> if json_is_object js v then Some v else None
                    | Inl _ \<Rightarrow> None)
      in case strict of
           Some v \<Rightarrow> Ok v
         | None \<Rightarrow>
             let normalized = replace_str [CHR 0x27] [CHR 0x22] raw
             in try_then (map_err (\<lambda>e. Json (''LL.value: '' @ e)) (json_from_str js normalized)) (\<lambda>v.
                if \<not> json_is_object js v then Err (Protocol ''LL.value string is not an object'') else Ok v))"

definition parse_api_info :: "'v json \<Rightarrow> bytes \<Rightarrow> ApiInfo result" where
  "parse_api_info js payload =
     try_then (map_err Json (json_from_slice js payload)) (\<lambda>root.
     try_then (ok_or (Protocol ''api response missing LL'') (json_get js root ''LL'')) (\<lambda>ll.
     let refused = (case ll_status_code js ll of
                      Some code \<Rightarrow> if code \<noteq> ''200'' then Some code else None
                    | None \<Rightarrow> None)
     in case refused of
          Some code \<Rightarrow> Err (Protocol (''api response LL status '' @ code))
        | None \<Rightarrow>
            try_then (ok_or (Protocol ''api response missing LL.value'') (json_get js ll ''value'')) (\<lambda>val.
            case json_as_str js val of
              Some raw \<Rightarrow> try_then (parse_relaxed_object js raw) (\<lambda>v. Ok (from_value js v))
            | None \<Rightarrow>
                if json_is_object js val then Ok (from_value js val)
                else Err (Protocol ''api response LL.value is not an object''))))"

section \<open>Requests\<close>

record HttpClient =
  hc_host :: string
  hc_port :: u16
  hc_use_tls :: bool
  hc_authority :: string
  hc_tls :: TlsContext

definition http_new :: "Endpoints \<Rightarrow> TlsContext \<Rightarrow> HttpClient" where
  "http_new e ctx =
     (let default_port = (if ep_use_tls e then 443 else 80);
          authority = (if ep_port e = default_port then ep_host e
                       else ep_host e @ '':'' @ nat_str (unat (ep_port e)))
      in \<lparr>hc_host = ep_host e, hc_port = ep_port e, hc_use_tls = ep_use_tls e, hc_authority = authority,
          hc_tls = ctx\<rparr>)"

definition basic_auth :: "crypto \<Rightarrow> string \<Rightarrow> string \<Rightarrow> string" where
  "basic_auth c user pw = ''Basic '' @ b64_encode c (as_bytes (user @ '':'' @ pw))"

text \<open>
  The network: TCP connects, server names, the certificate a TLS server presents for a
  connection (named by the request it is made for, and the host), the WebPKI verdict on it, the
  verdict on the signature made with its key, the text of a refusal and what else the TLS
  handshake can fail on, the HTTP handshake, whether a request can be built, its answer, and the WebSocket upgrade. The last two
  say when the certificate of a request is verified and when the request is done.
\<close>

record http_request =
  rq_uri :: string
  rq_headers :: "(string \<times> string) list"

record network =
  nw_tcp :: "string \<Rightarrow> string + unit"
  nw_server_name :: "string \<Rightarrow> string + unit"
  nw_presents :: "string \<Rightarrow> string \<Rightarrow> string + bytes"
  nw_webpki :: "bytes \<Rightarrow> verify_error + unit"
  nw_signature :: "string \<Rightarrow> string \<Rightarrow> bytes \<Rightarrow> verify_error + unit"
  nw_rejects :: "verify_error \<Rightarrow> string"
  nw_finishes :: "string \<Rightarrow> string + unit"
  nw_http :: "string + unit"
  nw_build :: "http_request \<Rightarrow> string + unit"
  nw_answer :: "http_request \<Rightarrow> string + (u16 \<times> bytes)"
  nw_upgrade :: "http_request \<Rightarrow> string + unit"
  nw_verified_at :: "string \<Rightarrow> duration"
  nw_done_at :: "string \<Rightarrow> duration"

definition tls_connect ::
  "crypto \<Rightarrow> 'c x509 \<Rightarrow> network \<Rightarrow> string \<Rightarrow> string \<Rightarrow> TlsContext \<Rightarrow> (string + unit) \<times> TlsContext" where
  "tls_connect c x net uri host ctx =
     (case nw_presents net uri host of
        Inl e \<Rightarrow> (Inl e, ctx)
      | Inr der \<Rightarrow>
          (case verify_connection c x (nw_webpki net) der ctx of
             (Inl e, ctx) \<Rightarrow> (Inl (nw_rejects net e), ctx)
           | (Inr _, ctx) \<Rightarrow>
               (case verify_signature (nw_signature net uri host) der ctx of
                  Inl e \<Rightarrow> (Inl (nw_rejects net e), ctx)
                | Inr _ \<Rightarrow> (nw_finishes net host, ctx))))"

definition get_inner ::
  "crypto \<Rightarrow> 'c x509 \<Rightarrow> network \<Rightarrow> string \<Rightarrow> (string \<times> string) option \<Rightarrow> HttpClient \<Rightarrow>
     (u16 \<times> bytes) result \<times> TlsContext" where
  "get_inner c x net path credentials h =
     (let addr = hc_host h @ '':'' @ nat_str (unat (hc_port h))
      in case nw_tcp net addr of
           Inl e \<Rightarrow> (Err (Http (''TCP connect '' @ addr @ '': '' @ e)), hc_tls h)
         | Inr _ \<Rightarrow>
             (case (if hc_use_tls h then
                      case nw_server_name net (hc_host h) of
                        Inl e \<Rightarrow> (Err (Tls (''invalid server name: '' @ e)), hc_tls h)
                      | Inr _ \<Rightarrow>
                          (case tls_connect c x net (''/'' @ path) (hc_host h) (hc_tls h) of
                             (res, ctx) \<Rightarrow> (map_err (\<lambda>e. Tls (''TLS handshake: '' @ e)) res, ctx))
                    else (Ok (), hc_tls h)) of
                (io, ctx) \<Rightarrow>
                  (try_then io (\<lambda>_.
                   try_then (map_err Http (nw_http net)) (\<lambda>_.
                   let req = \<lparr>rq_uri = ''/'' @ path, rq_headers = (''host'', hc_authority h) #
                         (case credentials of
                            None \<Rightarrow> []
                          | Some (user, pw) \<Rightarrow> [(''authorization'', basic_auth c user pw)])\<rparr>
                   in try_then (map_err Http (nw_build net req)) (\<lambda>_.
                      map_err Http (nw_answer net req)))), ctx)))"

text \<open>A request cut off by its timeout may have verified a certificate before.\<close>

definition http_get ::
  "crypto \<Rightarrow> 'c x509 \<Rightarrow> network \<Rightarrow> string \<Rightarrow> (string \<times> string) option \<Rightarrow> duration \<Rightarrow> HttpClient \<Rightarrow>
     (u16 \<times> bytes) result \<times> HttpClient" where
  "http_get c x net path credentials timeout h =
     (case get_inner c x net path credentials h of
        (res, ctx) \<Rightarrow>
          if nw_done_at net path \<le> timeout then (res, h\<lparr>hc_tls := ctx\<rparr>)
          else (Err (Timeout (''HTTP GET /'' @ path)),
                h\<lparr>hc_tls := if nw_verified_at net path \<le> timeout then ctx else hc_tls h\<rparr>))"

definition get_ll ::
  "crypto \<Rightarrow> 'c x509 \<Rightarrow> network \<Rightarrow> string \<Rightarrow> (string \<times> string) option \<Rightarrow> nat \<Rightarrow> HttpClient \<Rightarrow> bytes result \<times> HttpClient" where
  "get_ll c x net path credentials timeout_secs h =
     (case http_get c x net path credentials (from_secs timeout_secs) h of
        (res, h) \<Rightarrow>
          (try_then res (\<lambda>(status, body).
             if status \<noteq> 200 then Err (HttpStatus status (''GET /'' @ path)) else Ok body), h))"

text \<open>Normalising the key can panic: then there is no result.\<close>

definition get_public_key ::
  "crypto \<Rightarrow> 'v json \<Rightarrow> 'c x509 \<Rightarrow> network \<Rightarrow> string \<Rightarrow> string \<Rightarrow> HttpClient \<Rightarrow> string result option \<times> HttpClient" where
  "get_public_key c js x net user pw h =
     (case get_ll c x net CMD_GET_PUBLIC_KEY (Some (user, pw)) TIMEOUT_SECS h of
        (res, h) \<Rightarrow>
          (case try_then res (\<lambda>body.
                try_then (map_err Json (json_from_slice js body)) (\<lambda>root.
                try_then (ok_or (Protocol ''getPublicKey missing LL'') (json_get js root ''LL'')) (\<lambda>ll.
                try_then (ok_or (Protocol ''getPublicKey missing LL.value'') (str_member js ll ''value'')) (\<lambda>key.
                if key = [] then Err (Protocol ''public key is empty'') else Ok key)))) of
             Inl e \<Rightarrow> (Some (Err e), h)
           | Inr key \<Rightarrow> (map_option Ok (normalize_public_key_pem key), h)))"

definition get_certificate ::
  "crypto \<Rightarrow> 'v json \<Rightarrow> 'c x509 \<Rightarrow> network \<Rightarrow> string \<Rightarrow> string \<Rightarrow> HttpClient \<Rightarrow> string result \<times> HttpClient" where
  "get_certificate c js x net user pw h =
     (case get_ll c x net CMD_GET_CERTIFICATE (Some (user, pw)) TIMEOUT_SECS h of
        (res, h) \<Rightarrow>
          (try_then res (\<lambda>body.
           try_then (map_err Json (json_from_slice js body)) (\<lambda>root.
           try_then (ok_or (Protocol ''getcertificate missing LL.value'')
                      (Option.bind (json_get js root ''LL'') (\<lambda>ll. str_member js ll ''value''))) (\<lambda>chain.
           if \<not> contains ''BEGIN CERTIFICATE'' chain then Err (Protocol ''getcertificate returned no PEM block'')
           else Ok chain))), h))"

definition bootstrap_pin ::
  "crypto \<Rightarrow> 'v json \<Rightarrow> 'c x509 \<Rightarrow> network \<Rightarrow> string \<Rightarrow> string \<Rightarrow> HttpClient \<Rightarrow> bytes result \<times> HttpClient" where
  "bootstrap_pin c js x net user pw h =
     (case get_certificate c js x net user pw h of
        (Inl e, h) \<Rightarrow> (Err e, h)
      | (Inr pem, h) \<Rightarrow>
          (case spki_sha256_from_pem_chain c x pem of
             Inl e \<Rightarrow> (Err e, h)
           | Inr spki \<Rightarrow>
               (case adopt_spki c spki (hc_tls h) of
                  (Inl e, ctx) \<Rightarrow> (Err e, h\<lparr>hc_tls := ctx\<rparr>)
                | (Inr _, ctx) \<Rightarrow> (Ok spki, h\<lparr>hc_tls := ctx\<rparr>))))"

definition fetch_api_info ::
  "crypto \<Rightarrow> 'v json \<Rightarrow> 'c x509 \<Rightarrow> network \<Rightarrow> string \<Rightarrow> HttpClient \<Rightarrow> ApiInfo result \<times> HttpClient" where
  "fetch_api_info c js x net path h =
     (case get_ll c x net path None REACHABILITY_TIMEOUT_SECS h of
        (res, h) \<Rightarrow> (try_then res (parse_api_info js), h))"

definition api_info :: "crypto \<Rightarrow> 'v json \<Rightarrow> 'c x509 \<Rightarrow> network \<Rightarrow> HttpClient \<Rightarrow> ApiInfo result \<times> HttpClient" where
  "api_info c js x net h =
     (case fetch_api_info c js x net CMD_API_KEY h of
        (key, h) \<Rightarrow>
          (case fetch_api_info c js x net CMD_API h of
             (api, h) \<Rightarrow>
               ((case (key, api) of
                   (Inr info, Inr extra) \<Rightarrow> Ok (fill_from info extra)
                 | (Inr info, Inl _) \<Rightarrow> Ok info
                 | (Inl _, Inr info) \<Rightarrow> Ok info
                 | (Inl e, Inl _) \<Rightarrow> Err e), h)))"

section \<open>Requests and the pin\<close>

text \<open>
  What happens to the TLS context over a connection: its mode and verifier stay, and so does a pin
  once there is one.
\<close>

definition keeps_pin :: "TlsContext \<Rightarrow> TlsContext \<Rightarrow> bool" where
  "keeps_pin ctx ctx' \<longleftrightarrow>
     tls_mode ctx' = tls_mode ctx \<and> tls_verifier ctx' = tls_verifier ctx \<and>
     (tls_pin ctx \<noteq> None \<longrightarrow> tls_pin ctx' = tls_pin ctx) \<and> (wf_tls ctx \<longrightarrow> wf_tls ctx')"

text \<open>And over a request: only the context of the HTTP client changes, and it keeps its pin.\<close>

definition http_keeps :: "HttpClient \<Rightarrow> HttpClient \<Rightarrow> bool" where
  "http_keeps h h' \<longleftrightarrow> keeps_pin (hc_tls h) (hc_tls h') \<and> (\<exists>ctx. h' = h\<lparr>hc_tls := ctx\<rparr>)"

lemma keeps_pin_refl [simp]: "keeps_pin ctx ctx"
  by (simp add: keeps_pin_def)

lemma keeps_pin_trans: "keeps_pin a b \<Longrightarrow> keeps_pin b c \<Longrightarrow> keeps_pin a c"
  by (auto simp: keeps_pin_def)

lemma http_keeps_refl [simp]: "http_keeps h h"
  unfolding http_keeps_def by (auto intro: exI [of _ "hc_tls h"])

lemma http_keeps_trans: "http_keeps a b \<Longrightarrow> http_keeps b c \<Longrightarrow> http_keeps a c"
  by (auto simp: http_keeps_def intro: keeps_pin_trans)

lemma http_keeps_tls: "keeps_pin (hc_tls h) ctx \<Longrightarrow> http_keeps h (h\<lparr>hc_tls := ctx\<rparr>)"
  by (auto simp: http_keeps_def)

lemma adopt_spki_keeps: "adopt_spki c spki ctx = (res, ctx') \<Longrightarrow> keeps_pin ctx ctx'"
  by (auto simp: adopt_spki_def keeps_pin_def wf_tls_def split: if_splits option.splits TlsMode.splits)

lemma verify_connection_keeps: "verify_connection c x w der ctx = (res, ctx') \<Longrightarrow> keeps_pin ctx ctx'"
  by (cases "tls_mode ctx")
     (auto simp: verify_connection_def pin_verify_server_cert_def keeps_pin_def wf_tls_def
       split: verifier.splits option.splits if_splits sum.splits prod.splits)

lemma tls_connect_keeps: "tls_connect c x net uri host ctx = (res, ctx') \<Longrightarrow> keeps_pin ctx ctx'"
  by (auto simp: tls_connect_def dest!: verify_connection_keeps split: sum.splits prod.splits)

lemma get_inner_keeps: "get_inner c x net path cred h = (res, ctx) \<Longrightarrow> keeps_pin (hc_tls h) ctx"
  by (auto simp: get_inner_def Let_def dest!: tls_connect_keeps split: sum.splits prod.splits if_splits)

lemma http_get_keeps: "http_get c x net path cred t h = (res, h') \<Longrightarrow> http_keeps h h'"
  by (auto simp: http_get_def dest!: get_inner_keeps intro: http_keeps_tls split: prod.splits if_splits)

lemma get_ll_keeps: "get_ll c x net path cred t h = (res, h') \<Longrightarrow> http_keeps h h'"
  by (auto simp: get_ll_def dest: http_get_keeps split: prod.splits)

lemma get_public_key_keeps: "get_public_key c js x net user pw h = (res, h') \<Longrightarrow> http_keeps h h'"
  by (auto simp: get_public_key_def dest: get_ll_keeps split: prod.splits sum.splits)

lemma get_certificate_keeps: "get_certificate c js x net user pw h = (res, h') \<Longrightarrow> http_keeps h h'"
  by (auto simp: get_certificate_def dest: get_ll_keeps split: prod.splits)

lemma bootstrap_pin_keeps: "bootstrap_pin c js x net user pw h = (res, h') \<Longrightarrow> http_keeps h h'"
  by (auto simp: bootstrap_pin_def dest!: get_certificate_keeps adopt_spki_keeps
      intro: http_keeps_trans http_keeps_tls split: prod.splits sum.splits)

lemma api_info_keeps: "api_info c js x net h = (res, h') \<Longrightarrow> http_keeps h h'"
  by (auto simp: api_info_def fetch_api_info_def dest!: get_ll_keeps intro: http_keeps_trans split: prod.splits)

lemmas http_keeping = get_public_key_keeps bootstrap_pin_keeps api_info_keeps

text \<open>
  A TLS connection that comes about in a pinning mode was made to a server that presented the key
  of the pin and signed with it.
\<close>

definition presents_pin :: "crypto \<Rightarrow> 'c x509 \<Rightarrow> network \<Rightarrow> string \<Rightarrow> string \<Rightarrow> TlsContext \<Rightarrow> bool" where
  "presents_pin c x net uri host ctx \<longleftrightarrow>
     (\<exists>der spki. nw_presents net uri host = Inr der \<and> nw_signature net uri host der = Inr () \<and> spki_sha256 c x der = Ok spki \<and> tls_pin ctx = Some spki)"

lemma presents_pin_keeps: "presents_pin c x net uri host ctx \<Longrightarrow> keeps_pin ctx ctx' \<Longrightarrow> presents_pin c x net uri host ctx'"
  by (auto simp: presents_pin_def keeps_pin_def)

lemma tls_connect_pinned:
  assumes "tls_connect c x net uri host ctx = (Ok (), ctx')" "wf_tls ctx" "pins (tls_mode ctx)"
  shows "presents_pin c x net uri host ctx'"
proof -
  obtain der where d: "nw_presents net uri host = Inr der" "verify_connection c x (nw_webpki net) der ctx = (Inr (), ctx')"
    "verify_signature (nw_signature net uri host) der ctx' = Inr ()"
    using assms(1) by (auto simp: tls_connect_def split: sum.splits prod.splits)
  note v = verify_step [OF d(2) assms(2,3)]
  then have "tls_verifier ctx' \<noteq> NoCertVerifier"
    using assms(3) by (cases "tls_mode ctx'") (auto simp: wf_tls_def)
  with v d show ?thesis
    by (auto simp: presents_pin_def verify_signature_def split: verifier.splits)
qed

lemma get_ll_pinned:
  assumes "get_ll c x net path cred t h = (Ok body, h')" "wf_tls (hc_tls h)" "pins (tls_mode (hc_tls h))" "hc_use_tls h"
  shows "presents_pin c x net (''/'' @ path) (hc_host h) (hc_tls h')"
proof -
  obtain res where g: "http_get c x net path cred (from_secs t) h = (Ok res, h')"
    using assms(1) by (cases "http_get c x net path cred (from_secs t) h"; cases "fst (http_get c x net path cred (from_secs t) h)")
      (auto simp: get_ll_def)
  then have "get_inner c x net path cred h = (Ok res, hc_tls h')"
    by (auto simp: http_get_def split: prod.splits if_splits)
  then have "tls_connect c x net (''/'' @ path) (hc_host h) (hc_tls h) = (Ok (), hc_tls h')"
    using assms(4) by (auto simp: get_inner_def Let_def split: sum.splits prod.splits elim!: try_then.elims)
  then show ?thesis
    by (rule tls_connect_pinned) (use assms in auto)
qed

text \<open>Both paths to the Miniserver name it alike.\<close>

lemma http_authority_ws_host: "hc_authority (http_new e ctx) = ws_host_header e"
  by (simp add: http_new_def ws_host_header_def Let_def)

lemma get_public_key_pinned:
  assumes "get_public_key c js x net user pw h = (Some (Ok key), h')" "wf_tls (hc_tls h)" "pins (tls_mode (hc_tls h))"
    and "hc_use_tls h"
  shows "presents_pin c x net (''/'' @ CMD_GET_PUBLIC_KEY) (hc_host h) (hc_tls h')"
proof -
  obtain body where "get_ll c x net CMD_GET_PUBLIC_KEY (Some (user, pw)) TIMEOUT_SECS h = (Ok body, h')"
    using assms(1) by (auto simp: get_public_key_def split: prod.splits sum.splits elim!: try_then.elims)
  then show ?thesis
    by (rule get_ll_pinned) (use assms in auto)
qed

end
