(* ===== verification/Lox_Handshake.thy ===== *)
theory Lox_Handshake
  imports Lox_Writer Lox_Http
begin

text \<open>
  The handshake (\<^verbatim>\<open>src/src/client/handshake.rs\<close>): key exchange, authentication with the token at
  hand or with a fresh one, and the subscription to updates, one request after the other. Its
  state holds the reads still to come, what has gone over the wire, the salt, the guarded handler
  and the shared state; a step answers \<^const>\<open>None\<close> only if a walk over an event table did not end.
\<close>

section \<open>The model\<close>

definition TOKEN_MIN_REMAINING_SECS :: i64 where "TOKEN_MIN_REMAINING_SECS = 300"
definition MAX_INTERLEAVED_FRAMES :: nat where "MAX_INTERLEAVED_FRAMES = 64"

record ('h, 's) Handshake =
  hs_reads :: "(duration \<times> read_event) list"
  hs_wire :: "(OpCode \<times> bytes) list"
  hs_sent :: nat
  hs_salt :: SaltState
  hs_guard :: "'h HandlerGuard"
  hs_shared :: "'s SharedState"

text \<open>
  What does not change. The readings behind the encryption of the n-th frame sent and the error
  its write ends in, if any, are functions of n.
\<close>

record ('h, 'v, 's) hs_env =
  he_zc :: zerocopy
  he_crypto :: crypto
  he_json :: "'v json"
  he_handler :: "'h LoxHandler"
  he_keys :: SessionKeys
  he_cfg :: ConnectConfig
  he_store :: "'s store_api"
  he_now :: "u64 option"
  he_readings :: "nat \<Rightarrow> readings"
  he_write :: "nat \<Rightarrow> string option"

type_synonym ('a, 'h, 's) hs_step = "('h, 's) Handshake \<Rightarrow> ('a result \<times> ('h, 's) Handshake) option"

definition hs_bind :: "('a, 'h, 's) hs_step \<Rightarrow> ('a \<Rightarrow> ('b, 'h, 's) hs_step) \<Rightarrow> ('b, 'h, 's) hs_step" where
  "hs_bind m f st =
     (case m st of
        None \<Rightarrow> None
      | Some (Inl e, st) \<Rightarrow> Some (Err e, st)
      | Some (Inr a, st) \<Rightarrow> f a st)"

definition hs_lift :: "'a result \<Rightarrow> ('a, 'h, 's) hs_step" where
  "hs_lift r st = Some (r, st)"

definition hs_in_step :: "string \<Rightarrow> ('a, 'h, 's) hs_step \<Rightarrow> ('a, 'h, 's) hs_step" where
  "hs_in_step step m st = map_option (\<lambda>(r, st). (map_err (\<lambda>e. in_step e step) r, st)) (m st)"

definition hs_guarded :: "('h \<Rightarrow> 'a option \<times> 'h) \<Rightarrow> ('a, 'h, 's) hs_step" where
  "hs_guarded f st = (case guard_or_fail f (hs_guard st) of (r, g) \<Rightarrow> Some (r, st\<lparr>hs_guard := g\<rparr>))"

definition hs_set_token :: "('h, 'v, 's) hs_env \<Rightarrow> LxToken \<Rightarrow> (unit, 'h, 's) hs_step" where
  "hs_set_token env tok st = Some (Ok (), st\<lparr>hs_shared := set_token (he_store env) tok (hs_shared st)\<rparr>)"

definition hs_clear_token :: "('h, 'v, 's) hs_env \<Rightarrow> (unit, 'h, 's) hs_step" where
  "hs_clear_token env st = Some (Ok (), st\<lparr>hs_shared := clear_token (he_store env) (hs_shared st)\<rparr>)"

section \<open>Frames\<close>

definition command_timeout :: "('h, 'v, 's) hs_env \<Rightarrow> duration" where
  "command_timeout env = from_secs (cc_command_timeout_secs (he_cfg env))"

definition send_text :: "('h, 'v, 's) hs_env \<Rightarrow> string \<Rightarrow> (unit, 'h, 's) hs_step" where
  "send_text env text st =
     (case he_write env (hs_sent st) of
        Some e \<Rightarrow> Some (Err (WebSocket e), st\<lparr>hs_sent := hs_sent st + 1\<rparr>)
      | None \<Rightarrow>
          Some (Ok (), st\<lparr>hs_sent := hs_sent st + 1, hs_wire := hs_wire st @ [(OpText, as_bytes text)]\<rparr>))"

definition read_frame_bytes :: "duration \<Rightarrow> (bytes, 'h, 's) hs_step" where
  "read_frame_bytes wait st =
     (case hs_reads st of
        [] \<Rightarrow> Some (Err (Timeout ''handshake response''), st)
      | (delay, ev) # reads \<Rightarrow>
          let st = st\<lparr>hs_reads := reads\<rparr>
          in if wait < delay then Some (Err (Timeout ''handshake response''), st)
             else case ev of
               RdError e \<Rightarrow> Some (Err (WebSocket e), st)
             | RdFrame obligated opcode payload \<Rightarrow>
                 if opcode = OpClose then Some (Err (Closed ''closed during handshake''), st)
                 else Some (Ok payload, st))"

definition read_header :: "('h, 'v, 's) hs_env \<Rightarrow> duration \<Rightarrow> (WsBinHdr, 'h, 's) hs_step" where
  "read_header env wait =
     hs_bind (read_frame_bytes wait) (\<lambda>bs.
     hs_bind (hs_lift (parse_header (he_zc env) bs)) (\<lambda>hdr.
     hs_lift (ok_or (Protocol (''expected 8-byte header, got '' @ nat_str (length bs) @ '' bytes'')) hdr)))"

definition hs_dispatch :: "('h, 'v, 's) hs_env \<Rightarrow> u8 \<Rightarrow> bytes \<Rightarrow> (bool, 'h, 's) hs_step" where
  "hs_dispatch env msg_type payload st =
     (case dispatch_event (he_zc env) (he_handler env) msg_type payload
             (on_raw_payload (he_handler env) msg_type payload (guarded (hs_guard st))) of
        None \<Rightarrow> None
      | Some (event, ok, h) \<Rightarrow> hs_guarded (\<lambda>_. (if ok then Some event else None, h)) st)"

fun read_payload_loop :: "nat \<Rightarrow> ('h, 'v, 's) hs_env \<Rightarrow> duration \<Rightarrow> (bytes, 'h, 's) hs_step" where
  "read_payload_loop 0 env wait =
     hs_lift (Err (Protocol ''no handshake answer within the interleaved frame budget''))"
| "read_payload_loop (Suc n) env wait =
     hs_bind (read_header env wait) (\<lambda>hdr.
       if is_estimated hdr then read_payload_loop n env wait
       else if hdr_identifier hdr = message_type_u8 OutOfService then hs_lift (Err (Closed ''out of service''))
       else
         hs_bind (if payload_len hdr = 0 then hs_lift (Ok []) else read_frame_bytes wait) (\<lambda>payload.
           if hdr_identifier hdr = message_type_u8 Text then
             hs_bind (hs_guarded (call (on_raw_payload (he_handler env) (hdr_identifier hdr) payload))) (\<lambda>_.
             hs_lift (Ok payload))
           else
             hs_bind (hs_dispatch env (hdr_identifier hdr) payload) (\<lambda>_. read_payload_loop n env wait)))"

definition read_payload :: "('h, 'v, 's) hs_env \<Rightarrow> duration \<Rightarrow> (bytes, 'h, 's) hs_step" where
  "read_payload env wait = read_payload_loop MAX_INTERLEAVED_FRAMES env wait"

section \<open>Requests\<close>

definition hs_encrypt :: "('h, 'v, 's) hs_env \<Rightarrow> string \<Rightarrow> (string, 'h, 's) hs_step" where
  "hs_encrypt env cmd st =
     (let su = he_readings env (hs_sent st)
      in case encrypt (he_crypto env) (su_random su) (su_check su) (su_stamp su) (he_keys env) cmd (hs_salt st) of
           (r, s) \<Rightarrow> Some (r, st\<lparr>hs_salt := s\<rparr>))"

definition hs_request :: "('h, 'v, 's) hs_env \<Rightarrow> string \<Rightarrow> (bytes, 'h, 's) hs_step" where
  "hs_request env cmd =
     hs_bind (hs_encrypt env cmd) (\<lambda>encrypted.
     hs_bind (send_text env encrypted) (\<lambda>_.
     read_payload env (command_timeout env)))"

definition exchange :: "('h, 'v, 's) hs_env \<Rightarrow> string \<Rightarrow> (unit, 'h, 's) hs_step" where
  "exchange env session_b64 =
     hs_bind (send_text env (CMD_KEY_EXCHANGE @ session_b64)) (\<lambda>_.
     hs_bind (read_payload env (command_timeout env)) (\<lambda>payload.
     hs_bind (hs_lift (parse_json (he_json env) payload)) (\<lambda>root.
     hs_bind (hs_lift (require_ll_ok (he_json env) root)) (\<lambda>_.
     hs_lift (Ok ())))))"

definition key_exchange :: "('h, 'v, 's) hs_env \<Rightarrow> string \<Rightarrow> (unit, 'h, 's) hs_step" where
  "key_exchange env session_b64 = hs_in_step ''keyexchange'' (exchange env session_b64)"

section \<open>Tokens\<close>

datatype LlOutcome = LlOk | TokenRejected string | LlFailed error

definition classify :: "'v json \<Rightarrow> bytes \<Rightarrow> LlOutcome" where
  "classify js payload =
     (case payload_ll_status js payload of
        Some code \<Rightarrow>
          if code = ''200'' then LlOk
          else if ll_status_invalidates_token code then TokenRejected code
          else LlFailed (ll_status_error code)
      | None \<Rightarrow> LlFailed (Protocol ''response is not an LL envelope''))"

definition refused :: "string \<Rightarrow> string \<Rightarrow> LxToken option" where
  "refused step code = None"

definition reuse_token :: "('h, 'v, 's) hs_env \<Rightarrow> LxToken \<Rightarrow> (LxToken option, 'h, 's) hs_step" where
  "reuse_token env tok =
     hs_bind (hs_in_step ''getkey'' (hs_request env CMD_GET_KEY)) (\<lambda>key_resp.
     hs_bind (hs_in_step ''getkey'' (hs_lift (build_token_hash (he_crypto env) (he_json env) key_resp tok))) (\<lambda>hash.
     hs_bind (hs_in_step ''authwithtoken''
               (hs_request env (cmd_auth_with_token hash (cc_username (he_cfg env))))) (\<lambda>auth.
     case classify (he_json env) auth of
       LlOk \<Rightarrow>
         (case apply_valid_until (he_json env) tok auth of
            (Inl e, _) \<Rightarrow> hs_lift (Err (in_step e ''authwithtoken''))
          | (Inr _, tok) \<Rightarrow> hs_lift (Ok (Some tok)))
     | TokenRejected code \<Rightarrow> hs_lift (Ok (refused ''authwithtoken'' code))
     | LlFailed e \<Rightarrow> hs_lift (Err (in_step e ''authwithtoken'')))))"

definition hs_kill_token :: "('h, 'v, 's) hs_env \<Rightarrow> LxToken \<Rightarrow> (unit, 'h, 's) hs_step" where
  "hs_kill_token env tok =
     hs_bind (hs_request env CMD_GET_KEY) (\<lambda>key_resp.
     hs_bind (hs_lift (build_token_hash (he_crypto env) (he_json env) key_resp tok)) (\<lambda>hash.
     hs_bind (hs_request env (cmd_kill_token hash (cc_username (he_cfg env)))) (\<lambda>_.
     hs_lift (Ok ()))))"

text \<open>Killing the displaced token is best effort: its result is dropped, its effects stay.\<close>

definition hs_ignore :: "('a, 'h, 's) hs_step \<Rightarrow> (unit, 'h, 's) hs_step" where
  "hs_ignore m st = map_option (\<lambda>(r, st). (Ok (), st)) (m st)"

definition acquire_token :: "('h, 'v, 's) hs_env \<Rightarrow> LxToken option \<Rightarrow> (LxToken, 'h, 's) hs_step" where
  "acquire_token env displaced =
     hs_bind (case displaced of Some old \<Rightarrow> hs_ignore (hs_kill_token env old) | None \<Rightarrow> hs_lift (Ok ())) (\<lambda>_.
     hs_bind (hs_in_step ''getkey2'' (hs_request env (cmd_getkey2 (cc_username (he_cfg env))))) (\<lambda>getkey2.
     hs_bind (hs_in_step ''getkey2'' (hs_lift
               (build_acquire_token_cmd (he_crypto env) (he_json env) getkey2 (cc_username (he_cfg env))
                  (cc_password (he_cfg env)) (cc_token_permission (he_cfg env)) (cc_client_uuid (he_cfg env))
                  (cc_client_info (he_cfg env))))) (\<lambda>(cmd, alg).
     hs_bind (hs_in_step (cmd_label cmd) (hs_request env cmd)) (\<lambda>payload.
     hs_bind (hs_lift (parse_token_response (he_json env) payload alg)) (\<lambda>tok.
     if token tok = [] then hs_lift (Err (Auth ''acquire_token: empty token'')) else hs_lift (Ok tok))))))"

definition authenticate :: "('h, 'v, 's) hs_env \<Rightarrow> (unit, 'h, 's) hs_step" where
  "authenticate env st =
     (let existing = ss_token (hs_shared st);
          fresh = hs_bind (acquire_token env None) (hs_set_token env)
      in (if \<not> token_is_empty existing then
            if sint (seconds_to_expire (he_now env) existing) < sint TOKEN_MIN_REMAINING_SECS then
              hs_bind (acquire_token env (Some existing)) (hs_set_token env)
            else
              hs_bind (reuse_token env existing) (\<lambda>r.
                case r of
                  Some tok \<Rightarrow> hs_set_token env tok
                | None \<Rightarrow> hs_bind (hs_clear_token env) (\<lambda>_. fresh))
          else fresh) st)"

definition enable_updates :: "('h, 'v, 's) hs_env \<Rightarrow> (unit, 'h, 's) hs_step" where
  "enable_updates env =
     hs_bind (hs_request env CMD_ENABLE_UPDATES) (\<lambda>payload.
     case payload_ll_status (he_json env) payload of
       Some code \<Rightarrow>
         if code \<noteq> ''200'' then hs_lift (Err (in_step (ll_status_error code) ''enablebinstatusupdate''))
         else hs_lift (Ok ())
     | None \<Rightarrow> hs_lift (Ok ()))"

section \<open>What a step can change\<close>

text \<open>A step that ends and moves along a relation of states.\<close>

definition moves :: "(('h, 's) Handshake \<Rightarrow> ('h, 's) Handshake \<Rightarrow> bool) \<Rightarrow> ('a, 'h, 's) hs_step \<Rightarrow> bool" where
  "moves R m \<longleftrightarrow> (\<forall>st. \<exists>r st'. m st = Some (r, st') \<and> R st st')"

text \<open>What the client relies on of its environment: the crates keep their promises, the keys are keys.\<close>

definition env_ok :: "('h, 'v, 's) hs_env \<Rightarrow> bool" where
  "env_ok env \<longleftrightarrow> zerocopy_ok (he_zc env) \<and> crypto_ok (he_crypto env) \<and> wf_keys (he_crypto env) (he_keys env)"

lemma movesD: "moves R m \<Longrightarrow> m st = Some (r, st') \<Longrightarrow> R st st'"
  unfolding moves_def by (metis option.inject prod.inject)

lemma moves_total: "moves R m \<Longrightarrow> \<exists>r st'. m st = Some (r, st')"
  unfolding moves_def by blast

lemma encrypt_marked:
  assumes "env_ok env"
    and "encrypt (he_crypto env) rnd t1 t2 (he_keys env) cmd sl = (r, s)"
  shows "\<exists>t. r = Ok t \<and> starts_with t CMD_ENCRYPT"
  using encrypt_ok [of "he_crypto env" "he_keys env" rnd t1 t2 cmd sl] assms
  by (metis env_ok_def fst_conv starts_with_append)

text \<open>
  Relations that hold over everything a request does: reading, calling the handler, rotating the
  salt, and putting an encrypted frame on the wire.
\<close>

locale request_relation =
  fixes R :: "('h, 's) Handshake \<Rightarrow> ('h, 's) Handshake \<Rightarrow> bool"
  assumes R_refl: "R st st"
    and R_trans: "R st st' \<Longrightarrow> R st' st'' \<Longrightarrow> R st st''"
    and R_reads: "R st (st\<lparr>hs_reads := xs\<rparr>)"
    and R_guard: "R st (st\<lparr>hs_guard := g\<rparr>)"
    and R_salt: "R st (st\<lparr>hs_salt := s\<rparr>)"
    and R_sent: "R st (st\<lparr>hs_sent := n\<rparr>)"
    and R_wire: "starts_with t CMD_ENCRYPT \<Longrightarrow> R st (st\<lparr>hs_wire := hs_wire st @ [(OpText, as_bytes t)]\<rparr>)"
begin

lemma moves_bind:
  assumes "moves R m" and "\<And>a. moves R (f a)"
  shows "moves R (hs_bind m f)"
  unfolding moves_def
proof
  fix st
  obtain r st1 where m: "m st = Some (r, st1)" "R st st1"
    using assms(1) unfolding moves_def by blast
  show "\<exists>r st'. hs_bind m f st = Some (r, st') \<and> R st st'"
  proof (cases r)
    case (Inr a)
    obtain r' st2 where "f a st1 = Some (r', st2)" "R st1 st2"
      using assms(2) [of a] unfolding moves_def by blast
    with m Inr show ?thesis
      by (auto simp: hs_bind_def intro: R_trans)
  qed (use m in \<open>simp add: hs_bind_def\<close>)
qed

lemma moves_lift: "moves R (hs_lift r)"
  by (simp add: moves_def hs_lift_def R_refl)

lemma moves_in_step: "moves R m \<Longrightarrow> moves R (hs_in_step step m)"
  by (fastforce simp: moves_def hs_in_step_def)

lemma moves_ignore: "moves R m \<Longrightarrow> moves R (hs_ignore m)"
  by (fastforce simp: moves_def hs_ignore_def)

lemma moves_guarded: "moves R (hs_guarded f)"
  by (simp add: moves_def hs_guarded_def R_guard split: prod.split)

lemma moves_read_frame: "moves R (read_frame_bytes wait)"
  by (auto simp: moves_def read_frame_bytes_def Let_def R_refl R_reads split: list.split read_event.split)

lemma moves_dispatch:
  assumes "env_ok env"
  shows "moves R (hs_dispatch env t p)"
  unfolding moves_def
proof
  fix st :: "('h, 's) Handshake"
  let ?h = "on_raw_payload (he_handler env) t p (guarded (hs_guard st))"
  obtain ok h where "fold chain (event_calls (he_handler env) t p) ?h = (ok, h)"
    by fastforce
  then have "dispatch_event (he_zc env) (he_handler env) t p ?h = Some (is_event_type t, ok, h)"
    using assms by (simp add: env_ok_def dispatch_event_calls)
  then show "\<exists>r st'. hs_dispatch env t p st = Some (r, st') \<and> R st st'"
    by (simp add: hs_dispatch_def hs_guarded_def R_guard split: prod.split)
qed

lemma moves_header: "moves R (read_header env wait)"
  unfolding read_header_def by (intro moves_bind moves_read_frame moves_lift)

lemma moves_read_payload_loop:
  assumes "env_ok env"
  shows "moves R (read_payload_loop n env wait)"
proof (induction n)
  case (Suc n)
  then show ?case
    by (auto intro!: moves_bind moves_header moves_lift moves_read_frame moves_guarded moves_dispatch assms)
qed (simp add: moves_lift)

lemma moves_read_payload: "env_ok env \<Longrightarrow> moves R (read_payload env wait)"
  by (simp add: read_payload_def moves_read_payload_loop)

lemma moves_encrypt_send:
  assumes "env_ok env" and f: "\<And>u. moves R (f u)"
  shows "moves R (hs_bind (hs_encrypt env cmd) (\<lambda>t. hs_bind (send_text env t) f))"
  unfolding moves_def
proof
  fix st :: "('h, 's) Handshake"
  let ?su = "he_readings env (hs_sent st)"
  obtain r s where e: "encrypt (he_crypto env) (su_random ?su) (su_check ?su) (su_stamp ?su) (he_keys env) cmd
      (hs_salt st) = (r, s)"
    by fastforce
  then obtain t where t: "r = Ok t" "starts_with t CMD_ENCRYPT"
    using encrypt_marked [OF assms(1)] by blast
  let ?s1 = "st\<lparr>hs_salt := s, hs_sent := hs_sent st + 1\<rparr>"
  let ?s2 = "?s1\<lparr>hs_wire := hs_wire st @ [(OpText, as_bytes t)]\<rparr>"
  have s1: "R st ?s1"
    using R_trans [OF R_salt R_sent] by simp
  moreover have "R ?s1 ?s2"
    using R_wire [OF t(2), of ?s1] by simp
  ultimately have s2: "R st ?s2"
    by (rule R_trans)
  obtain r' st' where "f () ?s2 = Some (r', st')" "R ?s2 st'"
    using f unfolding moves_def by blast
  then show "\<exists>r st'. hs_bind (hs_encrypt env cmd) (\<lambda>t. hs_bind (send_text env t) f) st = Some (r, st') \<and> R st st'"
    using e t s1 s2 R_trans
    by (cases "he_write env (hs_sent st)") (auto simp: hs_bind_def hs_encrypt_def send_text_def Let_def)
qed

lemma moves_request: "env_ok env \<Longrightarrow> moves R (hs_request env cmd)"
  unfolding hs_request_def by (intro moves_encrypt_send moves_read_payload)

lemmas moves_rules = moves_bind moves_lift moves_in_step moves_ignore moves_request

lemma moves_reuse: "env_ok env \<Longrightarrow> moves R (reuse_token env tok)"
  by (auto simp: reuse_token_def intro!: moves_rules split: LlOutcome.split sum.split prod.split)

lemma moves_kill: "env_ok env \<Longrightarrow> moves R (hs_kill_token env tok)"
  by (auto simp: hs_kill_token_def intro!: moves_rules)

lemma moves_acquire: "env_ok env \<Longrightarrow> moves R (acquire_token env displaced)"
  by (auto simp: acquire_token_def intro!: moves_rules moves_kill split: option.split)

lemma moves_enable: "env_ok env \<Longrightarrow> moves R (enable_updates env)"
  by (auto simp: enable_updates_def intro!: moves_rules split: option.split)

end

text \<open>Relations that do not mind the token either hold over the whole authentication.\<close>

locale login_relation = request_relation +
  assumes R_shared: "R st (st\<lparr>hs_shared := s\<rparr>)"
begin

lemma moves_set_token: "moves R (hs_set_token env tok)"
  by (simp add: moves_def hs_set_token_def R_shared)

lemma moves_clear_token: "moves R (hs_clear_token env)"
  by (simp add: moves_def hs_clear_token_def R_shared)

lemma moves_authenticate:
  assumes "env_ok env"
  shows "moves R (authenticate env)"
proof -
  have f: "moves R (hs_bind (acquire_token env d) (hs_set_token env))" for d
    by (intro moves_bind moves_acquire moves_set_token assms)
  have "moves R (hs_bind (reuse_token env tok) (\<lambda>r. case r of Some t \<Rightarrow> hs_set_token env t
      | None \<Rightarrow> hs_bind (hs_clear_token env) (\<lambda>_. hs_bind (acquire_token env None) (hs_set_token env))))" for tok
    by (auto intro!: moves_bind moves_reuse assms moves_set_token moves_clear_token moves_acquire split: option.split)
  with f show ?thesis
    unfolding moves_def authenticate_def Let_def by auto
qed

end

text \<open>The two relations: nothing but the token functions touches the shared state, and only encrypted frames go out.\<close>

definition keeps_shared :: "('h, 's) Handshake \<Rightarrow> ('h, 's) Handshake \<Rightarrow> bool" where
  "keeps_shared st st' \<longleftrightarrow> hs_shared st' = hs_shared st"

definition sends_encrypted :: "('h, 's) Handshake \<Rightarrow> ('h, 's) Handshake \<Rightarrow> bool" where
  "sends_encrypted st st' \<longleftrightarrow>
     (\<exists>ts. hs_wire st' = hs_wire st @ map (\<lambda>t. (OpText, as_bytes t)) ts \<and> list_all (\<lambda>t. starts_with t CMD_ENCRYPT) ts)"

interpretation keeps: request_relation keeps_shared
  by unfold_locales (simp_all add: keeps_shared_def)

lemma sends_encrypted_trans:
  assumes "sends_encrypted st st'" "sends_encrypted st' st''"
  shows "sends_encrypted st st''"
proof -
  obtain ts ts' where
    "hs_wire st' = hs_wire st @ map (\<lambda>t. (OpText, as_bytes t)) ts" "list_all (\<lambda>t. starts_with t CMD_ENCRYPT) ts"
    "hs_wire st'' = hs_wire st' @ map (\<lambda>t. (OpText, as_bytes t)) ts'" "list_all (\<lambda>t. starts_with t CMD_ENCRYPT) ts'"
    using assms unfolding sends_encrypted_def by blast
  then show ?thesis
    unfolding sends_encrypted_def by (intro exI [of _ "ts @ ts'"]) simp
qed

lemma sends_encrypted_same: "hs_wire st' = hs_wire st \<Longrightarrow> sends_encrypted st st'"
  unfolding sends_encrypted_def by (intro exI [of _ "[]"]) simp

interpretation secret: login_relation sends_encrypted
proof unfold_locales
  show "sends_encrypted st (st\<lparr>hs_wire := hs_wire st @ [(OpText, as_bytes t)]\<rparr>)" if "starts_with t CMD_ENCRYPT"
    for t and st :: "('a, 'b) Handshake"
    unfolding sends_encrypted_def using that by (intro exI [of _ "[t]"]) simp
qed (auto intro: sends_encrypted_same sends_encrypted_trans)

section \<open>Authentication\<close>

lemma apply_valid_until_nonempty:
  "apply_valid_until js tok p = (Ok (), tok') \<Longrightarrow> token tok \<noteq> [] \<Longrightarrow> token tok' \<noteq> []"
  by (auto simp: apply_valid_until_def Let_def split: sum.splits prod.splits option.splits if_splits)

lemma hs_bind_Ok:
  assumes "hs_bind m f st = Some (Ok b, st')"
  obtains a st1 where "m st = Some (Ok a, st1)" "f a st1 = Some (Ok b, st')"
  using assms by (auto simp: hs_bind_def split: option.splits prod.splits sum.splits)

lemma hs_bind_Err:
  assumes "hs_bind m f st = Some (Err e, st')"
  obtains "m st = Some (Err e, st')" | a st1 where "m st = Some (Ok a, st1)" "f a st1 = Some (Err e, st')"
  using assms by (auto simp: hs_bind_def split: option.splits prod.splits sum.splits)

lemma hs_lift_Some [simp]: "hs_lift r st = Some (r', st') \<longleftrightarrow> r = r' \<and> st = st'"
  by (auto simp: hs_lift_def)

lemma hs_token_Some [simp]:
  "hs_set_token env tok st = Some (r', st') \<longleftrightarrow>
     r' = Ok () \<and> st' = st\<lparr>hs_shared := set_token (he_store env) tok (hs_shared st)\<rparr>"
  "hs_clear_token env st = Some (r', st') \<longleftrightarrow>
     r' = Ok () \<and> st' = st\<lparr>hs_shared := clear_token (he_store env) (hs_shared st)\<rparr>"
  by (auto simp: hs_set_token_def hs_clear_token_def)

lemma ss_token_set_token [simp]: "ss_token (set_token api tok s) = tok"
  by (simp add: set_token_def Let_def split: option.split)

lemma reuse_token_nonempty:
  assumes "reuse_token env tok st = Some (Ok (Some tok'), st')" "\<not> token_is_empty tok"
  shows "\<not> token_is_empty tok'"
  using assms
  by (auto simp: reuse_token_def refused_def token_is_empty_def elim!: hs_bind_Ok
      split: LlOutcome.splits sum.splits prod.splits dest: apply_valid_until_nonempty)

lemma acquire_token_nonempty:
  assumes "acquire_token env d st = Some (Ok tok, st')"
  shows "\<not> token_is_empty tok"
  using assms
  by (auto simp: acquire_token_def token_is_empty_def elim!: hs_bind_Ok split: prod.splits if_splits)

lemma fresh_token:
  assumes "env_ok env" and "hs_bind (acquire_token env d) (hs_set_token env) st = Some (r, st')"
  shows "case r of
      Inr _ \<Rightarrow> \<not> token_is_empty (ss_token (hs_shared st'))
    | Inl e \<Rightarrow> hs_shared st' = hs_shared st"
proof (cases r)
  case (Inl e)
  then have "acquire_token env d st = Some (Err e, st')"
    using assms(2) by (auto elim: hs_bind_Err)
  then show ?thesis
    using movesD [OF keeps.moves_acquire [OF assms(1)]] Inl by (auto simp: keeps_shared_def)
next
  case (Inr u)
  with assms(2) show ?thesis
    by (auto elim!: hs_bind_Ok dest: acquire_token_nonempty)
qed

section \<open>Answers among event tables\<close>

text \<open>The rounds of the read loop a message takes, and the tables handed to the handler on the way.\<close>

definition rounds :: "wire_msg \<Rightarrow> nat" where
  "rounds m = length (wm_estimates m) + 1"

fun hs_deliver :: "('h, 'v, 's) hs_env \<Rightarrow> wire_msg list \<Rightarrow> (unit, 'h, 's) hs_step" where
  "hs_deliver env [] = hs_lift (Ok ())"
| "hs_deliver env (m # ms) =
     hs_bind (hs_dispatch env (hdr_identifier (wm_header m)) (wm_payload m)) (\<lambda>_. hs_deliver env ms)"

lemma read_frame_timely:
  "timely wait fr \<Longrightarrow> read_frame_bytes wait (st\<lparr>hs_reads := fr p # rest\<rparr>) = Some (Ok p, st\<lparr>hs_reads := rest\<rparr>)"
proof -
  assume "timely wait fr"
  then obtain d op where "fr p = (d, RdFrame [] op p)" "d \<le> wait" "op \<in> {OpText, OpBinary}"
    unfolding timely_def by blast
  then show ?thesis
    by (auto simp: read_frame_bytes_def)
qed

lemma read_header_timely:
  assumes "timely wait fr" "zerocopy_ok (he_zc env)" "wf_hdr h" "hdr_bin_type h = MAGIC"
  shows "read_header env wait (st\<lparr>hs_reads := fr (hdr_bytes h) # rest\<rparr>) = Some (Ok h, st\<lparr>hs_reads := rest\<rparr>)"
proof -
  have "parse_header (he_zc env) (hdr_bytes h) = Ok (Some h)"
    using assms by (simp add: parse_header_Some)
  then show ?thesis
    by (simp add: read_header_def hs_bind_def hs_lift_def read_frame_timely [OF assms(1)] ok_or_def)
qed

lemma loop_estimates:
  assumes "timely wait fr" "zerocopy_ok (he_zc env)"
    and "list_all (\<lambda>h. wf_hdr h \<and> hdr_bin_type h = MAGIC \<and> is_estimated h) hs"
  shows "read_payload_loop (length hs + n) env wait (st\<lparr>hs_reads := map fr (map hdr_bytes hs) @ rest\<rparr>) =
    read_payload_loop n env wait (st\<lparr>hs_reads := rest\<rparr>)"
  using assms(3)
proof (induction hs)
  case (Cons h hs)
  then show ?case
    by (simp add: hs_bind_def read_header_timely [OF assms(1,2)])
qed simp

lemma loop_message:
  assumes "timely wait fr" "zerocopy_ok (he_zc env)" "wf_wire m"
  shows "read_payload_loop (rounds m + n) env wait (st\<lparr>hs_reads := map fr (wire_frames m) @ rest\<rparr>) =
    (if hdr_identifier (wm_header m) = message_type_u8 Text then
       hs_bind (hs_guarded (call (on_raw_payload (he_handler env) (hdr_identifier (wm_header m)) (wm_payload m))))
         (\<lambda>_. hs_lift (Ok (wm_payload m)))
     else
       hs_bind (hs_dispatch env (hdr_identifier (wm_header m)) (wm_payload m)) (\<lambda>_. read_payload_loop n env wait))
    (st\<lparr>hs_reads := rest\<rparr>)"
proof -
  note z = wf_wire_empty [OF assms(3)]
  have e: "read_payload_loop (rounds m + n) env wait (st\<lparr>hs_reads := map fr (wire_frames m) @ rest\<rparr>) =
      read_payload_loop (Suc n) env wait (st\<lparr>hs_reads := map fr (hdr_bytes (wm_header m) #
        (if wm_payload m = [] then [] else [wm_payload m])) @ rest\<rparr>)"
    using loop_estimates [OF assms(1,2), of "wm_estimates m" "Suc n"] assms(3)
    by (simp add: wf_wire_def wire_frames_def rounds_def)
  have h: "read_header env wait (st\<lparr>hs_reads := fr (hdr_bytes (wm_header m)) # xs\<rparr>) =
      Some (Ok (wm_header m), st\<lparr>hs_reads := xs\<rparr>)" for xs
    using assms by (simp add: wf_wire_def read_header_timely)
  show ?thesis
    unfolding e using assms(3) z
    by (auto simp: wf_wire_def h hs_bind_def [of "read_header env wait"] hs_bind_def [of "hs_lift _"]
        hs_bind_def [of "read_frame_bytes wait"] hs_lift_def read_frame_timely [OF assms(1)])
qed

lemma hs_dispatch_reads:
  "hs_dispatch env t p (st\<lparr>hs_reads := xs\<rparr>) =
     map_option (\<lambda>(r, s). (r, s\<lparr>hs_reads := xs\<rparr>)) (hs_dispatch env t p st)"
  by (auto simp: hs_dispatch_def hs_guarded_def split: option.split prod.split)

lemma loop_messages:
  assumes "timely wait fr" "zerocopy_ok (he_zc env)"
    and "list_all (\<lambda>m. wf_wire m \<and> hdr_identifier (wm_header m) \<noteq> message_type_u8 Text) ms"
    and "hs_deliver env ms st = Some (Ok (), st1)"
  shows "read_payload_loop (sum_list (map rounds ms) + n) env wait
      (st\<lparr>hs_reads := map fr (concat (map wire_frames ms)) @ rest\<rparr>) =
    read_payload_loop n env wait (st1\<lparr>hs_reads := rest\<rparr>)"
  using assms(3,4)
proof (induction ms arbitrary: st)
  case (Cons m ms)
  then obtain b st2 where d: "hs_dispatch env (hdr_identifier (wm_header m)) (wm_payload m) st = Some (Ok b, st2)"
    "hs_deliver env ms st2 = Some (Ok (), st1)"
    by (auto elim!: hs_bind_Ok)
  have w: "wf_wire m" "hdr_identifier (wm_header m) \<noteq> message_type_u8 Text"
    using Cons.prems(1) by simp_all
  have "read_payload_loop (sum_list (map rounds (m # ms)) + n) env wait
      (st\<lparr>hs_reads := map fr (concat (map wire_frames (m # ms))) @ rest\<rparr>) =
    read_payload_loop (sum_list (map rounds ms) + n) env wait
      (st2\<lparr>hs_reads := map fr (concat (map wire_frames ms)) @ rest\<rparr>)"
    using loop_message [OF assms(1,2) w(1), where n = "sum_list (map rounds ms) + n" and st = st] w(2) d(1)
    by (simp add: add.assoc hs_bind_def hs_dispatch_reads)
  with Cons.IH [OF _ d(2)] Cons.prems(1) show ?case by simp
qed simp

lemma loop_more_rounds:
  "hdr_identifier (wm_header a) = message_type_u8 Text \<Longrightarrow> rounds a \<le> k \<Longrightarrow> timely wait fr \<Longrightarrow>
   zerocopy_ok (he_zc env) \<Longrightarrow> wf_wire a \<Longrightarrow>
   read_payload_loop k env wait (st\<lparr>hs_reads := map fr (wire_frames a) @ rest\<rparr>) =
     hs_bind (hs_guarded (call (on_raw_payload (he_handler env) (hdr_identifier (wm_header a)) (wm_payload a))))
         (\<lambda>_. hs_lift (Ok (wm_payload a))) (st\<lparr>hs_reads := rest\<rparr>)"
  using loop_message [of wait fr env a, where n = "k - rounds a" and st = st and rest = rest] by simp

section \<open>Properties\<close>

text \<open>An environment and a state at the start of a handshake, for the witnesses.\<close>

definition demo_env :: "(nat, jvalue, nat) hs_env" where
  "demo_env = \<lparr>he_zc = zc_layout, he_crypto = crypto_std, he_json = json_table [], he_handler = default_handler,
     he_keys = from_key_iv crypto_std (replicate 32 7) (replicate 16 9),
     he_cfg = connect_config_new ''ms.local'' ''admin'' ''pw'',
     he_store = \<lparr>st_load = \<lambda>s b. None, st_save = \<lambda>s b t. s + 1, st_clear = \<lambda>s b. 0\<rparr>,
     he_now = Some 1700000000, he_readings = (\<lambda>_. demo_readings), he_write = (\<lambda>_. None)\<rparr>"

definition demo_hs :: "(nat, nat) Handshake" where
  "demo_hs = \<lparr>hs_reads = [], hs_wire = [], hs_sent = 0, hs_salt = salt_new, hs_guard = guard_new 0,
     hs_shared = shared_new 0\<rparr>"

lemma demo_env_ok: "env_ok demo_env"
  by (simp add: env_ok_def demo_env_def AES_KEY_SIZE_def IV_BYTES_def)



text \<open>
  C37: No event table is lost to the handshake: tables that overtake an answer go to the handler in
  their order, headers that only estimate are passed over, and the answer is the payload of the
  first text message, provided they fit the budget of interleaved frames.
\<close>

theorem handshake_answer_in_order:
  assumes "zerocopy_ok (he_zc env)" and "timely wait fr"
    and "list_all (\<lambda>m. wf_wire m \<and> hdr_identifier (wm_header m) \<noteq> message_type_u8 Text) ms"
    and "wf_wire a" "hdr_identifier (wm_header a) = message_type_u8 Text"
    and "sum_list (map rounds (ms @ [a])) \<le> MAX_INTERLEAVED_FRAMES"
    and "hs_deliver env ms st = Some (Ok (), st')"
  shows "read_payload env wait (st\<lparr>hs_reads := map fr (concat (map wire_frames (ms @ [a]))) @ rest\<rparr>) =
    hs_bind (hs_guarded (call (on_raw_payload (he_handler env) (message_type_u8 Text) (wm_payload a))))
      (\<lambda>_. hs_lift (Ok (wm_payload a))) (st'\<lparr>hs_reads := rest\<rparr>)"
proof -
  define k where "k = MAX_INTERLEAVED_FRAMES - sum_list (map rounds ms)"
  have k: "MAX_INTERLEAVED_FRAMES = sum_list (map rounds ms) + k" "rounds a \<le> k"
    using assms(6) by (simp_all add: k_def)
  show ?thesis
    using loop_messages [OF assms(2,1,3,7), of k "map fr (wire_frames a) @ rest"]
      loop_more_rounds [OF assms(5) k(2) assms(2,1,4)] assms(5)
    by (simp add: read_payload_def k(1))
qed

theorem handshake_answer_in_order_witness:
  "\<exists>st'. read_payload demo_env (from_secs 30)
     (demo_hs\<lparr>hs_reads := [(0, RdFrame [] OpBinary [3, 6, 0, 0, 0, 0, 0, 0]), (0, RdFrame [] OpBinary [3, 0, 0, 0, 1, 0, 0, 0]),
        (0, RdFrame [] OpBinary [65])]\<rparr>) = Some (Ok [65], st')"
proof -
  define k where "k = \<lparr>hdr_bin_type = 3, hdr_identifier = 6, hdr_info = 0, hdr_reserved = 0, hdr_len = [0, 0, 0, 0]\<rparr>"
  define h where "h = \<lparr>hdr_bin_type = 3, hdr_identifier = 0, hdr_info = 0, hdr_reserved = 0, hdr_len = [1, 0, 0, 0]\<rparr>"
  let ?k = "\<lparr>wm_estimates = [], wm_header = k, wm_payload = []\<rparr>"
  let ?a = "\<lparr>wm_estimates = [], wm_header = h, wm_payload = [65]\<rparr>"
  let ?fr = "\<lambda>p. (0, RdFrame [] OpBinary p)"
  have w: "zerocopy_ok (he_zc demo_env)" "timely (from_secs 30) ?fr"
    "list_all (\<lambda>m. wf_wire m \<and> hdr_identifier (wm_header m) \<noteq> message_type_u8 Text) [?k]"
    "wf_wire ?a" "hdr_identifier (wm_header ?a) = message_type_u8 Text"
    "sum_list (map rounds ([?k] @ [?a])) \<le> MAX_INTERLEAVED_FRAMES"
    by (simp_all add: demo_env_def timely_def wf_wire_def h_def k_def wf_hdr_def MAGIC_def is_estimated_def
        INFO_ESTIMATED_def payload_len_def rounds_def MAX_INTERLEAVED_FRAMES_def)
  have "hs_deliver demo_env [?k] demo_hs = Some (Ok (), demo_hs)"
    by (simp add: hs_bind_def hs_dispatch_def dispatch_event_def from_u8_def k_def demo_env_def demo_hs_def
        default_handler_def quiet_def hs_guarded_def guard_or_fail_def guard_def guard_new_def ok_or_def hs_lift_def)
  from handshake_answer_in_order [OF w this, of "[]"] show ?thesis
    by (simp add: wire_frames_def hdr_bytes_def h_def k_def hs_bind_def hs_guarded_def guard_or_fail_def guard_def
        demo_hs_def guard_new_def demo_env_def default_handler_def quiet_def call_def ok_or_def hs_lift_def)
qed

end
