(* ===== verification/Lox_Refresh.thy ===== *)
theory Lox_Refresh
  imports Lox_Writer
begin

text \<open>
  The token refresher (\<^verbatim>\<open>src/src/client/refresh.rs\<close>). A round of its loop takes the clock reading
  behind the schedule, what the other tasks do to the shared state while it sleeps and while its
  commands are in flight, and the outcome of the two commands it sends through the writer.
\<close>

section \<open>The model\<close>

definition MAX_REFRESH_ATTEMPTS :: u32 where "MAX_REFRESH_ATTEMPTS = 3"

text \<open>The command channel is closed, the waiter is dropped, or the answer arrives.\<close>

datatype chan_outcome = ChanClosed | ChanDropped | ChanAnswer "bytes result"

definition rf_send :: "chan_outcome \<times> waiter \<Rightarrow> string \<Rightarrow> bytes result \<times> IoCommand list" where
  "rf_send ch cmd =
     (case fst ch of
        ChanClosed \<Rightarrow> (Err ChannelClosed, [])
      | ChanDropped \<Rightarrow> (Err ChannelClosed, [IoEncrypted cmd (snd ch)])
      | ChanAnswer res \<Rightarrow> (res, [IoEncrypted cmd (snd ch)]))"

record 's refresh_in =
  rf_clock :: "u64 option"
  rf_sleep :: "'s SharedState \<Rightarrow> 's SharedState"
  rf_key :: "chan_outcome \<times> waiter"
  rf_resp :: "chan_outcome \<times> waiter"
  rf_flight :: "'s SharedState \<Rightarrow> 's SharedState"

definition next_refresh_delay :: "u64 option \<Rightarrow> 's SharedState \<Rightarrow> duration" where
  "next_refresh_delay now shared =
     (let secs =
        (case token_valid_until shared of
           None \<Rightarrow> TOKEN_REFRESH_DEFAULT_SECONDS
         | Some _ \<Rightarrow>
             let d = seconds_to_expire now (ss_token shared) - TOKEN_REFRESH_SECONDS_BEFORE_EXPIRY
             in if sint d < sint TOKEN_REFRESH_MIN_DELAY_SECS then TOKEN_REFRESH_MIN_DELAY_SECS else d)
      in from_secs (unat (if sint secs < 0 then 0 else secs)))"

definition refresh_once ::
  "crypto \<Rightarrow> 'v json \<Rightarrow> 's store_api \<Rightarrow> string \<Rightarrow> 's refresh_in \<Rightarrow> 's SharedState \<Rightarrow>
     bool result \<times> IoCommand list \<times> 's SharedState" where
  "refresh_once c js api username x shared =
     (let tok = ss_token shared
      in if token_is_empty tok then (Ok False, [], shared)
         else case rf_send (rf_key x) CMD_GET_KEY of
           (Inl e, out) \<Rightarrow> (Err e, out, rf_flight x shared)
         | (Inr key_resp, out) \<Rightarrow>
             (case build_token_hash c js key_resp tok of
                Inl e \<Rightarrow> (Err e, out, rf_flight x shared)
              | Inr hash \<Rightarrow>
                  (case rf_send (rf_resp x) (cmd_refresh_token hash username) of
                     (Inl e, out') \<Rightarrow> (Err e, out @ out', rf_flight x shared)
                   | (Inr payload, out') \<Rightarrow>
                       let shared = rf_flight x shared; current = ss_token shared
                       in if token_is_empty current \<or> token current \<noteq> token tok
                          then (Ok False, out @ out', shared)
                          else (case apply_valid_until js current payload of
                            (Inl e, _) \<Rightarrow> (Err e, out @ out', shared)
                          | (Inr _, current) \<Rightarrow> (Ok True, out @ out', set_token api current shared)))))"

text \<open>
  The loop over the given rounds: whether the task has returned, the delay and the result of each
  attempt, the commands it sent, and the shared state.
\<close>

fun run_refresher ::
  "crypto \<Rightarrow> 'v json \<Rightarrow> 's store_api \<Rightarrow> string \<Rightarrow> u32 \<Rightarrow> 's refresh_in list \<Rightarrow> 's SharedState \<Rightarrow>
     bool \<times> (duration \<times> bool result) list \<times> IoCommand list \<times> 's SharedState" where
  "run_refresher c js api username failures [] shared = (False, [], [], shared)"
| "run_refresher c js api username failures (x # xs) shared =
     (let delay = (if failures = 0 then next_refresh_delay (rf_clock x) shared
                   else from_secs (unat TOKEN_REFRESH_MIN_DELAY_SECS))
      in case refresh_once c js api username x (rf_sleep x shared) of
           (Inr b, out, shared) \<Rightarrow>
             (case run_refresher c js api username 0 xs shared of
                (ended, log, outs, shared) \<Rightarrow> (ended, (delay, Ok b) # log, out @ outs, shared))
         | (Inl e, out, shared) \<Rightarrow>
             let failures = failures + 1
             in if failures \<ge> MAX_REFRESH_ATTEMPTS
                then (True, [(delay, Err e)], out @ [IoDropSession], shared)
                else case run_refresher c js api username failures xs shared of
                  (ended, log, outs, shared) \<Rightarrow> (ended, (delay, Err e) # log, out @ outs, shared))"

section \<open>Lemmas\<close>

text \<open>The number of failures in a row after a list of results.\<close>

fun streak :: "nat \<Rightarrow> bool result list \<Rightarrow> nat" where
  "streak n [] = n"
| "streak n (Inl e # rs) = streak (n + 1) rs"
| "streak n (Inr b # rs) = streak 0 rs"

lemma unat_sint: "0 \<le> sint (d :: i64) \<Longrightarrow> unat d = nat (sint d)"
proof -
  assume "0 \<le> sint d"
  moreover have "sint d < 2 ^ 64"
    using sint_lt [of d] by simp
  ultimately have "uint d = sint d"
    by (simp add: uint_sint take_bit_int_eq_self)
  then show ?thesis
    by (simp add: unat_eq_nat_uint)
qed

lemma next_refresh_delay_min: "from_secs 15 \<le> next_refresh_delay now shared"
proof -
  have "15 \<le> unat d" if "\<not> sint d < 15" for d :: i64
    using that unat_sint [of d] by simp
  then show ?thesis
    by (auto simp: next_refresh_delay_def from_secs_def Let_def TOKEN_REFRESH_MIN_DELAY_SECS_def
        TOKEN_REFRESH_DEFAULT_SECONDS_def split: option.splits)
qed

lemma next_refresh_delay_exact:
  assumes "\<not> token_is_empty (ss_token shared)"
    and "v = sint (seconds_to_expire now (ss_token shared)) - 86400" and "15 \<le> v"
  shows "next_refresh_delay now shared = from_secs (nat v)"
proof -
  let ?d = "seconds_to_expire now (ss_token shared) - TOKEN_REFRESH_SECONDS_BEFORE_EXPIRY"
  have "?d = word_of_int v"
    by (simp add: assms(2) TOKEN_REFRESH_SECONDS_BEFORE_EXPIRY_def)
  moreover have "v < 2 ^ 63"
    using assms(2) sint_lt [of "seconds_to_expire now (ss_token shared)"] by simp
  ultimately have "sint ?d = v"
    using assms(3) by (simp add: sint_sbintrunc' signed_take_bit_int_eq_self)
  then show ?thesis
    using assms(1,3) unat_sint [of ?d]
    by (simp add: next_refresh_delay_def token_valid_until_def TOKEN_REFRESH_MIN_DELAY_SECS_def Let_def)
qed

lemma refresher_streak:
  assumes "run_refresher c js api username f xs s = (ended, log, out, s')" and "unat f < 3"
  shows "(ended \<longleftrightarrow> streak (unat f) (map snd log) = 3) \<and>
    (\<forall>pre post. map snd log = pre @ post \<longrightarrow> post \<noteq> [] \<longrightarrow> streak (unat f) pre < 3) \<and>
    (\<forall>(d, r)\<in>set log. from_secs 15 \<le> d) \<and> (\<not> ended \<longrightarrow> length log = length xs)"
  using assms
proof (induction xs arbitrary: f s ended log out s')
  case (Cons x xs)
  let ?d = "if f = 0 then next_refresh_delay (rf_clock x) s else from_secs (unat TOKEN_REFRESH_MIN_DELAY_SECS)"
  have d: "from_secs 15 \<le> ?d"
    using next_refresh_delay_min [of "rf_clock x" s] by (simp add: TOKEN_REFRESH_MIN_DELAY_SECS_def)
  obtain res o1 s1 where r: "refresh_once c js api username x (rf_sleep x s) = (res, o1, s1)"
    by (metis prod_cases3)
  have suc: "unat (f + 1) = unat f + 1"
    using Cons.prems(2) by (simp add: unat_word_ariths)
  show ?case
  proof (cases res)
    case (Inr b)
    obtain e l o' s2 where t: "run_refresher c js api username 0 xs s1 = (e, l, o', s2)"
      by (metis prod_cases4)
    show ?thesis
      using Cons.prems(1) r Inr t Cons.IH [OF t] d Cons.prems(2)
      by (auto simp: Cons_eq_append_conv Let_def)
  next
    case (Inl e)
    show ?thesis
    proof (cases "f + 1 \<ge> MAX_REFRESH_ATTEMPTS")
      case True
      then have "unat f = 2"
        using suc Cons.prems(2) by (simp add: MAX_REFRESH_ATTEMPTS_def word_le_nat_alt)
      with True show ?thesis
        using Cons.prems(1) r Inl d by (auto simp: Cons_eq_append_conv Let_def)
    next
      case False
      then have f: "unat (f + 1) < 3"
        by (simp add: MAX_REFRESH_ATTEMPTS_def word_le_nat_alt)
      obtain en l o' s2 where t: "run_refresher c js api username (f + 1) xs s1 = (en, l, o', s2)"
        by (metis prod_cases4)
      show ?thesis
        using Cons.prems r Inl t Cons.IH [OF t f] d False suc
        by (auto simp: Cons_eq_append_conv Let_def)
    qed
  qed
qed simp

section \<open>Properties\<close>



end
