(* ===== verification/Lox_Live.thy ===== *)
theory Lox_Live
  imports Lox_Handshake Lox_Refresh
begin

text \<open>
  A live session (\<^verbatim>\<open>session_once\<close> of \<^verbatim>\<open>src/src/client/io.rs\<close>, from the start of the tasks on): the
  reader loop and the writer task as two processes that share the queue of waiters, the secured
  command, the keepalive bookkeeping and the client's state, with the two channels into the
  writer. A step is a read of the reader, a turn of the writer, a client (or the refresher) that
  hands in a command or asks to stop, or the refresher that stores a token; any interleaving of
  them is a run. A turn takes what the biased
  \<^verbatim>\<open>select!\<close> takes: a message of the reader before a command, a command before the timers.
\<close>

section \<open>The model\<close>

record ('h, 's) Live =
  lv_reader :: "('h, 's) Reader"
  lv_expect :: FrameExpect
  lv_outcome :: "ReadOutcome option"
  lv_writer :: "'s Writer"
  lv_ended :: bool
  lv_chan :: "WriterMsg list"
  lv_cmds :: "IoCommand list"

text \<open>The shared parts, written by one side and seen by the other.\<close>

definition share_w :: "('h, 's) Live \<Rightarrow> ('h, 's) Live" where
  "share_w lv =
     (let r = lv_reader lv
      in lv\<lparr>lv_writer := (lv_writer lv)\<lparr>wr_pending := rd_pending r, wr_visu := rd_visu r,
              wr_shared := rd_shared r, wr_liveness := rd_liveness r\<rparr>\<rparr>)"

definition share_r :: "('h, 's) Live \<Rightarrow> ('h, 's) Live" where
  "share_r lv =
     (let w = lv_writer lv
      in lv\<lparr>lv_reader := (lv_reader lv)\<lparr>rd_pending := wr_pending w, rd_visu := wr_visu w,
              rd_shared := wr_shared w, rd_liveness := wr_liveness w, rd_writer_gone := lv_ended lv\<rparr>\<rparr>)"

definition session_reader :: "'s SharedState \<Rightarrow> 'h HandlerGuard \<Rightarrow> ('h, 's) Reader" where
  "session_reader shared g =
     \<lparr>rd_shared = shared, rd_pending = queue_new, rd_visu = visu_new, rd_liveness = liveness_new, rd_out = [],
      rd_writer_gone = False, rd_answers = [], rd_guard = g\<rparr>"

definition writer_config :: "ConnectConfig \<Rightarrow> WriterConfig" where
  "writer_config cfg =
     \<lparr>wc_username = cc_username cfg, wc_keepalive_period = from_secs (cc_keepalive_secs cfg),
      wc_command_timeout = from_secs (cc_command_timeout_secs cfg),
      wc_max_missed_keepalives = cc_max_missed_keepalives cfg, wc_max_pending = cc_max_pending_commands cfg,
      wc_kill_token_on_stop = cc_kill_token_on_stop cfg\<rparr>"

definition live_new ::
  "ConnectConfig \<Rightarrow> SessionKeys \<Rightarrow> SaltState \<Rightarrow> 's SharedState \<Rightarrow> bool \<Rightarrow> 'h HandlerGuard \<Rightarrow> IoCommand list \<Rightarrow>
     ('h, 's) Live" where
  "live_new cfg keys st shared stopped g cmds =
     \<lparr>lv_reader = session_reader shared g, lv_expect = START, lv_outcome = None,
      lv_writer = session_writer keys st shared stopped (writer_config cfg), lv_ended = False,
      lv_chan = [], lv_cmds = cmds\<rparr>"

text \<open>One pass of the read loop: the outcome if it ends there.\<close>

definition reader_step ::
  "('h, 'v) reader_env \<Rightarrow> FrameExpect \<Rightarrow> duration \<times> read_event \<Rightarrow> ('h, 's) Reader \<Rightarrow>
     (ReadOutcome option \<times> FrameExpect \<times> ('h, 's) Reader) option" where
  "reader_step env expect x r =
     (if read_timeout (re_idle_timeout env) (announced_len expect) < fst x then Some (Some RIdleTimeout, expect, r)
      else case snd x of
        RdError e \<Rightarrow> Some (Some (RFailed (WebSocket e)), expect, r)
      | RdFrame obligated opcode payload \<Rightarrow>
          let r = r\<lparr>rd_out := rd_out r @ map (\<lambda>(op, p). WObligated op p) obligated\<rparr>
          in case opcode of
               OpClose \<Rightarrow> Some (Some (RClosed (parse_close_code payload)), expect, r)
             | OpPing \<Rightarrow> Some (None, expect, r)
             | OpPong \<Rightarrow> Some (None, expect, r)
             | OpContinuation \<Rightarrow> Some (None, expect, r)
             | _ \<Rightarrow>
                 (case on_data_frame env expect payload r of
                    None \<Rightarrow> None
                  | Some (Inl e, ex, r) \<Rightarrow> Some (Some (RFailed e), ex, r)
                  | Some (Inr out, ex, r) \<Rightarrow> Some (out, ex, r)))"

text \<open>
  The reader reads; what it sends goes into the writer's channel. When its loop has returned, the
  supervisor marks the session as over, unless the client is stopping, and sends the shutdown.
\<close>

definition live_read ::
  "('h, 'v) reader_env \<Rightarrow> duration \<times> read_event \<Rightarrow> ('h, 's) Live \<Rightarrow> ('h, 's) Live option" where
  "live_read env x lv =
     (case reader_step env (lv_expect lv) x (lv_reader lv) of
        None \<Rightarrow> None
      | Some (out, ex, r) \<Rightarrow>
          let msgs = rd_out r @ (case out of None \<Rightarrow> [] | Some _ \<Rightarrow> [WShutdown]);
              shared = (case out of
                          None \<Rightarrow> rd_shared r
                        | Some _ \<Rightarrow> if wr_stopped (lv_writer lv) then rd_shared r
                                    else set_state StReconnecting (rd_shared r))
          in Some (share_w (lv\<lparr>lv_reader := r\<lparr>rd_out := [], rd_shared := shared\<rparr>, lv_expect := ex,
                      lv_outcome := out, lv_chan := (if lv_ended lv then [] else lv_chan lv @ msgs)\<rparr>)))"

text \<open>What a turn finds: whether the keepalive is due, and the readings and outcomes of an iteration.\<close>

record turn =
  tn_tick :: bool
  tn_supply :: readings
  tn_write :: write_result
  tn_now :: nat
  tn_kill :: "exchange_in \<times> exchange_in"

definition live_wake :: "bool \<Rightarrow> ('h, 's) Live \<Rightarrow> wake \<times> ('h, 's) Live" where
  "live_wake tick lv =
     (case lv_chan lv of
        msg # msgs \<Rightarrow> (WakeMsg (Some msg), lv\<lparr>lv_chan := msgs\<rparr>)
      | [] \<Rightarrow>
          (case lv_cmds lv of
             cmd # cmds \<Rightarrow> (WakeCommand (Some cmd), lv\<lparr>lv_cmds := cmds\<rparr>)
           | [] \<Rightarrow> (if tick then WakeTick else WakeExpiry, lv)))"

definition live_turn ::
  "crypto \<Rightarrow> 'v json \<Rightarrow> 's store_api \<Rightarrow> turn \<Rightarrow> ('h, 's) Live \<Rightarrow> ('h, 's) Live" where
  "live_turn c js api t lv =
     (case live_wake (tn_tick t) lv of
        (ev, lv) \<Rightarrow>
          (case iterate c js api \<lparr>it_replies = [], it_wake = ev, it_supply = tn_supply t, it_write = tn_write t,
                   it_expire_now = tn_now t, it_kill = tn_kill t\<rparr> (lv_writer lv) of
             (True, w) \<Rightarrow> share_r (lv\<lparr>lv_writer := w\<rparr>)
           | (False, w) \<Rightarrow> share_r (lv\<lparr>lv_writer := writer_finish w, lv_ended := True, lv_chan := []\<rparr>)))"

text \<open>The refresher's answer arrived: the token is replaced in the shared state.\<close>

definition live_set_token :: "'s store_api \<Rightarrow> LxToken \<Rightarrow> ('h, 's) Live \<Rightarrow> ('h, 's) Live" where
  "live_set_token api tok lv =
     share_w (lv\<lparr>lv_reader := (lv_reader lv)\<lparr>rd_shared := set_token api tok (rd_shared (lv_reader lv))\<rparr>\<rparr>)"

datatype live_event =
    LvSubmit IoCommand
  | LvStop
  | LvSetToken LxToken
  | LvTurn turn
  | LvRead "duration \<times> read_event"

text \<open>
  The steps of a session: the reader stops reading once its loop has returned, the writer once
  its own has.
\<close>

inductive live_step ::
  "('h, 'v) reader_env \<Rightarrow> 's store_api \<Rightarrow> live_event \<Rightarrow> ('h, 's) Live \<Rightarrow> ('h, 's) Live \<Rightarrow> bool"
  for env :: "('h, 'v) reader_env" and api :: "'s store_api" where
  live_submit: "live_step env api (LvSubmit cmd) lv (lv\<lparr>lv_cmds := lv_cmds lv @ [cmd]\<rparr>)"
| live_stop: "live_step env api LvStop lv (lv\<lparr>lv_writer := (lv_writer lv)\<lparr>wr_stopped := True\<rparr>\<rparr>)"
| live_token: "live_step env api (LvSetToken tok) lv (live_set_token api tok lv)"
| live_turn: "\<not> lv_ended lv \<Longrightarrow>
    live_step env api (LvTurn t) lv (live_turn (re_crypto env) (re_json env) api t lv)"
| live_read: "lv_outcome lv = None \<Longrightarrow> live_read env x lv = Some lv' \<Longrightarrow> live_step env api (LvRead x) lv lv'"

inductive live_run ::
  "('h, 'v) reader_env \<Rightarrow> 's store_api \<Rightarrow> live_event list \<Rightarrow> ('h, 's) Live \<Rightarrow> ('h, 's) Live \<Rightarrow> bool"
  for env :: "('h, 'v) reader_env" and api :: "'s store_api" where
  live_run_Nil: "live_run env api [] lv lv"
| live_run_Cons: "live_step env api e lv lv1 \<Longrightarrow> live_run env api es lv1 lv2 \<Longrightarrow> live_run env api (e # es) lv lv2"

inductive_cases live_step_cases [elim!]:
  "live_step env api (LvSubmit cmd) lv lv'" "live_step env api LvStop lv lv'"
  "live_step env api (LvSetToken tok) lv lv'" "live_step env api (LvTurn t) lv lv'"
  "live_step env api (LvRead x) lv lv'"

inductive_simps live_run_simps [simp]: "live_run env api [] lv lv'" "live_run env api (e # es) lv lv'"

text \<open>
  The same steps as a function on a given sequence of events; an event whose process has already
  returned changes nothing. \<^const>\<open>None\<close> would be a walk over a table that does not end.
\<close>

fun live_do ::
  "('h, 'v) reader_env \<Rightarrow> 's store_api \<Rightarrow> live_event \<Rightarrow> ('h, 's) Live \<Rightarrow> ('h, 's) Live option" where
  "live_do env api (LvSubmit cmd) lv = Some (lv\<lparr>lv_cmds := lv_cmds lv @ [cmd]\<rparr>)"
| "live_do env api LvStop lv = Some (lv\<lparr>lv_writer := (lv_writer lv)\<lparr>wr_stopped := True\<rparr>\<rparr>)"
| "live_do env api (LvSetToken tok) lv = Some (live_set_token api tok lv)"
| "live_do env api (LvTurn t) lv =
     (if lv_ended lv then Some lv else Some (live_turn (re_crypto env) (re_json env) api t lv))"
| "live_do env api (LvRead x) lv = (if lv_outcome lv \<noteq> None then Some lv else live_read env x lv)"

fun live_exec ::
  "('h, 'v) reader_env \<Rightarrow> 's store_api \<Rightarrow> live_event list \<Rightarrow> ('h, 's) Live \<Rightarrow> ('h, 's) Live option" where
  "live_exec env api [] lv = Some lv"
| "live_exec env api (e # es) lv =
     (case live_do env api e lv of None \<Rightarrow> None | Some lv \<Rightarrow> live_exec env api es lv)"

lemma live_do_step:
  assumes "live_do env api e lv = Some lv'"
  shows "live_step env api e lv lv' \<or> lv' = lv"
  using assms by (cases e) (auto intro: live_step.intros split: if_splits)

lemma live_exec_run:
  "live_exec env api es lv = Some lv' \<Longrightarrow> \<exists>fs. set fs \<subseteq> set es \<and> live_run env api fs lv lv'"
proof (induction es arbitrary: lv)
  case Nil
  then show ?case
    by (intro exI [of _ "[]"]) simp
next
  case (Cons e es)
  then obtain lv1 where d: "live_do env api e lv = Some lv1" "live_exec env api es lv1 = Some lv'"
    by (auto split: option.splits)
  then obtain fs where fs: "set fs \<subseteq> set es" "live_run env api fs lv1 lv'"
    using Cons.IH by blast
  show ?case
    using live_do_step [OF d(1)]
  proof
    assume "live_step env api e lv lv1"
    from live_run.live_run_Cons [OF this fs(2)] fs(1) show ?thesis
      by (intro exI [of _ "e # fs"]) auto
  next
    assume "lv1 = lv"
    with fs show ?thesis
      by auto
  qed
qed

section \<open>The read loop is its steps\<close>

lemma reader_run_step:
  "reader_run env ex (x # reads) r =
     (case reader_step env ex x r of
        None \<Rightarrow> None
      | Some (Some out, _, r) \<Rightarrow> Some (out, r)
      | Some (None, ex, r) \<Rightarrow> reader_run env ex reads r)"
  by (cases x; cases "snd x")
     (auto simp: reader_step_def Let_def split: OpCode.split option.split sum.split prod.split)

section \<open>Waiters in a session\<close>

text \<open>The reader's own messages to the writer carry no waiter.\<close>

definition no_waiter :: "WriterMsg \<Rightarrow> bool" where
  "no_waiter m \<longleftrightarrow> submitted (WakeMsg (Some m)) = []"

text \<open>What the reader does to answers, queue and channel: a waiter leaves the queue with its answer.\<close>

definition rd_fair :: "('h, 's) Reader \<Rightarrow> ('h, 's) Reader \<Rightarrow> bool" where
  "rd_fair r r' \<longleftrightarrow>
     map fst (rd_answers r') @ waiters (entries (rd_pending r')) = map fst (rd_answers r) @ waiters (entries (rd_pending r)) \<and>
     length (entries (rd_pending r')) \<le> length (entries (rd_pending r)) \<and>
     (list_all no_waiter (rd_out r) \<longrightarrow> list_all no_waiter (rd_out r'))"

text \<open>What a waiter is told does not steer the flush of the visualisation queue.\<close>

lemma flush_items_answers:
  "flush_items env ks xs (rd_answers_update f r) = rd_answers_update f (flush_items env ks xs r)"
proof (induction xs arbitrary: r)
  case (Cons x xs)
  have c: "(rd_answers_update f r)\<lparr>rd_out := out\<rparr> = rd_answers_update f (r\<lparr>rd_out := out\<rparr>)" for out
    by simp
  have "flush_items env ks xs ((rd_answers_update f r)\<lparr>rd_out := out\<rparr>) =
      rd_answers_update f (flush_items env ks xs (r\<lparr>rd_out := out\<rparr>))" for out
    by (simp only: c Cons)
  with Cons [of r] show ?case
    by (simp add: Let_def split: sum.split)
qed simp

lemma flush_visu_answers:
  "flush_visu env p (rd_answers_update f r) = rd_answers_update f (flush_visu env p r)"
proof -
  have c: "(rd_answers_update f r)\<lparr>rd_visu := v\<rparr> = rd_answers_update f (r\<lparr>rd_visu := v\<rparr>)" for v
    by simp
  have "flush_items env ks xs ((rd_answers_update f r)\<lparr>rd_visu := v\<rparr>) =
      rd_answers_update f (flush_items env ks xs (r\<lparr>rd_visu := v\<rparr>))" for ks xs v
    by (simp only: c flush_items_answers)
  then show ?thesis
    by (simp add: flush_visu_def split: prod.split sum.split)
qed

text \<open>
  A relation between a reader before and after, kept by the four things a reader does to the rest
  of the session: nothing, queueing a command nobody waits for, resolving the oldest request with
  its answer, and noting an answer no request waits for. Every step of the reader then keeps it.
\<close>

locale reader_relation =
  fixes rel :: "('h, 's) Reader \<Rightarrow> ('h, 's) Reader \<Rightarrow> bool"
  assumes rel_trans: "rel r r1 \<Longrightarrow> rel r1 r2 \<Longrightarrow> rel r r2"
    and rel_same: "rd_answers r' = rd_answers r \<Longrightarrow> rd_pending r' = rd_pending r \<Longrightarrow> rd_out r' = rd_out r \<Longrightarrow> rel r r'"
    and rel_command: "rel r (r\<lparr>rd_out := rd_out r @ [WCommand cmd None]\<rparr>)"
    and rel_answered: "entries (rd_pending r) = e # es \<Longrightarrow> entries q = es \<Longrightarrow>
      rel r (r\<lparr>rd_pending := q, rd_answers := rd_answers r @ (case resp e of None \<Rightarrow> [] | Some w \<Rightarrow> [(w, Ok p)])\<rparr>)"
    and rel_unsolicited: "entries (rd_pending r) = [] \<Longrightarrow> entries q = [] \<Longrightarrow> rel r (r\<lparr>rd_pending := q\<rparr>)"
begin

lemma rel_metrics: "rel r (rd_metrics f r)"
  by (rule rel_same) (simp_all add: rd_metrics_def)

lemma rel_guarded: "rd_guarded f r = (res, r') \<Longrightarrow> rel r r'"
  by (auto simp: rd_guarded_def intro: rel_same split: prod.splits)

lemma rel_flush_items: "rel r (flush_items env ks xs r)"
proof (induction env ks xs r rule: flush_items.induct)
  case (2 env ks x xs r)
  then show ?case
    by (auto simp: Let_def rel_same intro: rel_trans [OF rel_command] split: sum.split)
qed (simp add: rel_same)

lemma rel_flush_visu: "rel r (flush_visu env p r)"
proof -
  have "rel r (r\<lparr>rd_visu := q\<rparr>)" for q
    by (simp add: rel_same)
  then show ?thesis
    by (auto simp: flush_visu_def intro: rel_trans rel_flush_items rel_same split: prod.split sum.split)
qed

lemma rel_text:
  assumes "on_text_message env p r = (res, r')"
  shows "rel r r'"
proof (cases "entries (rd_pending r)")
  case Nil
  then have "resolve (re_crypto env) (extract_ll_control p) (re_keys env) (rd_pending r) = (None, rd_pending r)"
    by (rule resolve_None)
  moreover have "rel r (rd_metrics f (r\<lparr>rd_pending := note_unsolicited (rd_pending r)\<rparr>))" for f
    using Nil by (intro rel_trans [OF rel_unsolicited rel_metrics]) (simp_all add: note_unsolicited_def)
  ultimately show ?thesis
    using assms by (auto simp: on_text_message_def dest!: rel_guarded intro: rel_trans)
next
  case (Cons e es)
  obtain x q where x: "resolve (re_crypto env) (extract_ll_control p) (re_keys env) (rd_pending r) = (Some x, q)"
    "res_resp x = resp e"
    using resolve_Some [OF Cons, of "re_crypto env" "extract_ll_control p" "re_keys env"]
    by (cases "resolve (re_crypto env) (extract_ll_control p) (re_keys env) (rd_pending r)") auto
  have q: "entries q = es"
    using entries_resolve [of "re_crypto env" "extract_ll_control p" "re_keys env" "rd_pending r"] x Cons by simp
  define a where "a = rd_answers r @ (case resp e of None \<Rightarrow> [] | Some w \<Rightarrow> [(w, Ok p)])"
  define r1 where "r1 = (if \<not> matched x
      then rd_metrics (\<lambda>m. m\<lparr>m_correlation_mismatches := m_correlation_mismatches m + 1\<rparr>) (r\<lparr>rd_pending := q\<rparr>)
      else r\<lparr>rd_pending := q\<rparr>)"
  define r2 where "r2 = (if starts_with (res_plaintext_cmd x) CMD_GET_VISUAL_PASSWD \<and> \<not> visu_is_empty (rd_visu r1)
      then flush_visu env p r1 else r1)"
  have r': "r' = (case resp e of None \<Rightarrow> r2 | Some w \<Rightarrow> r2\<lparr>rd_answers := rd_answers r2 @ [(w, Ok p)]\<rparr>)"
    using assms unfolding on_text_message_def x(1) Let_def r2_def r1_def by (simp add: x(2))
  have "rd_answers r2 = rd_answers r"
    using flush_visu_frame [of env p r1] by (auto simp: r2_def r1_def rd_metrics_def)
  then have "r' = r2\<lparr>rd_answers := a\<rparr>"
    unfolding r' a_def by (cases "resp e") simp_all
  moreover have "rel (r1\<lparr>rd_answers := a\<rparr>) (r2\<lparr>rd_answers := a\<rparr>)"
    using rel_flush_visu [of "r1\<lparr>rd_answers := a\<rparr>" env p] by (simp add: r2_def flush_visu_answers rel_same)
  moreover have "rel r (r\<lparr>rd_pending := q, rd_answers := a\<rparr>)"
    unfolding a_def using Cons q by (rule rel_answered)
  moreover have "rel (r\<lparr>rd_pending := q, rd_answers := a\<rparr>) (r1\<lparr>rd_answers := a\<rparr>)"
    by (rule rel_same) (simp_all add: r1_def rd_metrics_def)
  ultimately show ?thesis
    by (blast intro: rel_trans)
qed

lemma rel_dispatch:
  assumes "rd_dispatch env t p r = Some (res, r')"
  shows "rel r r'"
proof -
  let ?r = "rd_metrics (record_message t) r"
  have k: "rel r (r\<lparr>rd_liveness := l\<rparr>)" "rel r (rd_metrics f (r\<lparr>rd_liveness := l\<rparr>))" for r l f
    by (rule rel_same; simp add: rd_metrics_def)+
  obtain out where "guarded_dispatch env t p (guarded (rd_guard ?r)) = Some out"
    using assms by (auto simp: rd_dispatch_def Let_def split: option.splits)
  moreover obtain g r1 where g: "rd_guarded (\<lambda>_. out) ?r = (g, r1)"
    by fastforce
  ultimately have "rel r1 r'"
    using assms
    by (auto simp: rd_dispatch_def Let_def rel_same split: sum.splits bool.splits option.splits MessageType.splits prod.splits
        dest!: rel_guarded rel_text intro: rel_trans [OF k(1)] rel_trans [OF k(2)])
  then show ?thesis
    using rel_guarded [OF g] by (blast intro: rel_trans rel_metrics)
qed

lemma rel_data_frame:
  "on_data_frame env ex p r = Some (res, ex', r') \<Longrightarrow> rel r r'"
  by (auto simp: on_data_frame_def rel_same split: FrameExpect.splits sum.splits option.splits if_splits prod.splits
      dest: rel_dispatch)

lemma rel_step:
  assumes "reader_step env ex x r = Some (out, ex', r')"
    and obl: "\<And>t obl op p. x = (t, RdFrame obl op p) \<Longrightarrow>
      rel r (r\<lparr>rd_out := rd_out r @ map (\<lambda>(op, p). WObligated op p) obl\<rparr>)"
  shows "rel r r'"
proof (cases x)
  case (Pair t y)
  show ?thesis
  proof (cases y)
    case (RdFrame obl op p)
    with Pair have o: "rel r (r\<lparr>rd_out := rd_out r @ map (\<lambda>(op, p). WObligated op p) obl\<rparr>)"
      by (auto intro: assms(2))
    from assms(1) RdFrame Pair show ?thesis
      by (auto simp: reader_step_def Let_def o rel_same split: if_splits OpCode.splits option.splits sum.splits
          prod.splits dest!: rel_data_frame intro: rel_trans [OF o])
  qed (use assms(1) Pair in \<open>auto simp: reader_step_def rel_same split: if_splits\<close>)
qed

end

interpretation fair: reader_relation rd_fair
  by unfold_locales (auto simp: rd_fair_def no_waiter_def waiters_def split: option.splits)

lemma reader_step_fair:
  assumes "reader_step env ex x r = Some (out, ex', r')"
  shows "rd_fair r r'"
  using assms by (rule fair.rel_step) (auto simp: rd_fair_def no_waiter_def list_all_iff)

text \<open>The session's own invariant: the shared parts agree, and the writer, once gone, leaves no entry.\<close>

definition lv_ok :: "('h, 's) Live \<Rightarrow> bool" where
  "lv_ok lv \<longleftrightarrow>
     rd_pending (lv_reader lv) = wr_pending (lv_writer lv) \<and> rd_out (lv_reader lv) = [] \<and>
     list_all no_waiter (lv_chan lv) \<and> (lv_ended lv \<longrightarrow> entries (rd_pending (lv_reader lv)) = [] \<and> lv_chan lv = [])"

definition lv_answered :: "('h, 's) Live \<Rightarrow> waiter list" where
  "lv_answered lv = map fst (rd_answers (lv_reader lv)) @ map fst (wr_answers (lv_writer lv))"

definition lv_waiting :: "('h, 's) Live \<Rightarrow> waiter list" where
  "lv_waiting lv =
     waiters (entries (rd_pending (lv_reader lv))) @ concat (map (\<lambda>cmd. submitted (WakeCommand (Some cmd))) (lv_cmds lv))"

fun handed_in :: "live_event \<Rightarrow> waiter list" where
  "handed_in (LvSubmit cmd) = submitted (WakeCommand (Some cmd))"
| "handed_in e = []"

fun kill_waiters :: "live_event \<Rightarrow> waiter list" where
  "kill_waiters (LvTurn t) = [ex_waiter (fst (tn_kill t)), ex_waiter (snd (tn_kill t))]"
| "kill_waiters e = []"

lemma lv_ok_new [simp]: "lv_ok (live_new cfg keys st shared stopped g cmds)"
  by (simp add: lv_ok_def live_new_def session_reader_def session_writer_def)

lemma live_read_ok:
  assumes "live_read env x lv = Some lv'" "lv_ok lv"
  shows "lv_ok lv' \<and> mset (lv_answered lv' @ lv_waiting lv') = mset (lv_answered lv @ lv_waiting lv)"
proof -
  obtain out ex r where s: "reader_step env (lv_expect lv) x (lv_reader lv) = Some (out, ex, r)"
    using assms(1) by (auto simp: live_read_def split: option.splits)
  note f = reader_step_fair [OF s]
  have n: "list_all no_waiter (rd_out r @ (case out of None \<Rightarrow> [] | Some _ \<Rightarrow> [WShutdown]))"
    using f assms(2) by (auto simp: rd_fair_def lv_ok_def no_waiter_def split: option.split)
  have e: "lv_ended lv \<Longrightarrow> entries (rd_pending r) = []"
    using f assms(2) by (auto simp: rd_fair_def lv_ok_def)
  have a: "mset (map fst (rd_answers r)) + mset (waiters (entries (rd_pending r))) =
      mset (map fst (rd_answers (lv_reader lv))) + mset (waiters (entries (rd_pending (lv_reader lv))))"
    using f unfolding rd_fair_def by (metis mset_append)
  show ?thesis
    using assms(1) s n e a assms(2)
    by (auto simp: live_read_def Let_def share_w_def lv_ok_def lv_answered_def lv_waiting_def ac_simps simp del: mset_map)
qed

lemma owed_live:
  assumes "lv_ok lv"
  shows "mset (lv_answered lv @ lv_waiting lv) =
    mset (map fst (rd_answers (lv_reader lv))) + owed (lv_writer lv) +
    mset (concat (map (\<lambda>cmd. submitted (WakeCommand (Some cmd))) (lv_cmds lv)))"
  using assms by (simp add: lv_answered_def lv_waiting_def owed_def lv_ok_def ac_simps del: mset_map)

lemma live_turn_ok:
  assumes "lv_ok lv" "\<not> lv_ended lv" "x \<notin> set (kill_waiters (LvTurn t))"
  shows "lv_ok (live_turn c js api t lv) \<and>
    count (mset (lv_answered (live_turn c js api t lv) @ lv_waiting (live_turn c js api t lv))) x =
    count (mset (lv_answered lv @ lv_waiting lv)) x"
proof -
  obtain ev lv1 where w: "live_wake (tn_tick t) lv = (ev, lv1)"
    by fastforce
  let ?it = "\<lparr>it_replies = [], it_wake = ev, it_supply = tn_supply t, it_write = tn_write t,
      it_expire_now = tn_now t, it_kill = tn_kill t\<rparr>"
  obtain go w' where i: "iterate c js api ?it (lv_writer lv1) = (go, w')"
    by fastforce
  have l: "lv_writer lv1 = lv_writer lv" "lv_reader lv1 = lv_reader lv" "list_all no_waiter (lv_chan lv1)" "\<not> lv_ended lv1"
    "mset (concat (map (\<lambda>cmd. submitted (WakeCommand (Some cmd))) (lv_cmds lv))) =
       mset (submitted ev) + mset (concat (map (\<lambda>cmd. submitted (WakeCommand (Some cmd))) (lv_cmds lv1)))"
    using w assms(1,2) by (auto simp: live_wake_def lv_ok_def no_waiter_def split: list.splits)
  have o: "count (owed w') x = count (owed (lv_writer lv) + mset (submitted ev)) x"
    using owed_iterate [OF i, of x] assms(3) l(1) by simp
  define lv2 where "lv2 = live_turn c js api t lv"
  have lv2: "lv2 = (if go then share_r (lv1\<lparr>lv_writer := w'\<rparr>)
      else share_r (lv1\<lparr>lv_writer := writer_finish w', lv_ended := True, lv_chan := []\<rparr>))"
    using w i by (simp add: lv2_def live_turn_def)
  have ok: "lv_ok lv2"
    using assms(1) l by (auto simp: lv2 lv_ok_def share_r_def Let_def owed_finish)
  have "owed (lv_writer lv2) = owed w'" "lv_cmds lv2 = lv_cmds lv1" "rd_answers (lv_reader lv2) = rd_answers (lv_reader lv)"
    using l by (auto simp: lv2 share_r_def Let_def owed_finish)
  with ok o l(5) show ?thesis
    unfolding owed_live [OF assms(1)] lv2_def [symmetric] owed_live [OF ok] by (simp del: mset_map)
qed

lemma live_step_ok:
  assumes "live_step env api e lv lv'" "lv_ok lv" "x \<notin> set (kill_waiters e)"
  shows "lv_ok lv' \<and> count (mset (lv_answered lv' @ lv_waiting lv')) x =
    count (mset (lv_answered lv @ lv_waiting lv @ handed_in e)) x"
proof (cases e)
  case (LvSubmit cmd)
  then have "lv' = lv\<lparr>lv_cmds := lv_cmds lv @ [cmd]\<rparr>"
    using assms(1) by auto
  then show ?thesis
    using LvSubmit assms(2) by (auto simp: lv_ok_def lv_answered_def lv_waiting_def simp del: mset_map)
next
  case LvStop
  then have "lv' = lv\<lparr>lv_writer := (lv_writer lv)\<lparr>wr_stopped := True\<rparr>\<rparr>"
    using assms(1) by auto
  then show ?thesis
    using LvStop assms(2) by (auto simp: lv_ok_def lv_answered_def lv_waiting_def simp del: mset_map)
next
  case (LvSetToken tok)
  then have "lv' = live_set_token api tok lv"
    using assms(1) by auto
  then show ?thesis
    using LvSetToken assms(2)
    by (auto simp: live_set_token_def share_w_def Let_def lv_ok_def lv_answered_def lv_waiting_def simp del: mset_map)
next
  case (LvTurn t)
  then have "\<not> lv_ended lv" "lv' = live_turn (re_crypto env) (re_json env) api t lv"
    using assms(1) by auto
  then show ?thesis
    using live_turn_ok [OF assms(2)] assms(3) LvTurn by simp
next
  case (LvRead y)
  then have "live_read env y lv = Some lv'"
    using assms(1) by auto
  from live_read_ok [OF this assms(2)] show ?thesis
    using LvRead by (simp only: handed_in.simps append_Nil2)
qed

lemma live_run_ok:
  assumes "live_run env api es lv lv'" "lv_ok lv" "\<forall>e\<in>set es. x \<notin> set (kill_waiters e)"
  shows "lv_ok lv' \<and> count (mset (lv_answered lv' @ lv_waiting lv')) x =
    count (mset (lv_answered lv @ lv_waiting lv @ concat (map handed_in es))) x"
  using assms
proof (induction es arbitrary: lv)
  case (Cons e es)
  then obtain lv1 where "live_step env api e lv lv1" "live_run env api es lv1 lv'"
    by auto
  with Cons live_step_ok [of env api e lv lv1 x] show ?case
    by (simp del: mset_map)
qed simp

section \<open>Commands and their answers\<close>

text \<open>A writer ready for commands: nothing ahead of them in its channel, room in the queue, sound keys.\<close>

definition lv_ready :: "('h, 'v) reader_env \<Rightarrow> nat \<Rightarrow> ('h, 's) Live \<Rightarrow> bool" where
  "lv_ready env room lv \<longleftrightarrow>
     lv_ok lv \<and> \<not> lv_ended lv \<and> lv_outcome lv = None \<and> lv_expect lv = START \<and> lv_chan lv = [] \<and>
     crypto_ok (re_crypto env) \<and> wf_keys (re_crypto env) (wr_keys (lv_writer lv)) \<and> re_keys env = wr_keys (lv_writer lv) \<and>
     wf_salt (wr_salt (lv_writer lv)) \<and>
     queue_len (wr_pending (lv_writer lv)) + room \<le> wc_max_pending (wr_cfg (lv_writer lv))"

text \<open>A turn that writes, before any of the given deadlines.\<close>

definition good_turn :: "duration \<Rightarrow> nat \<Rightarrow> turn \<Rightarrow> bool" where
  "good_turn timeout now t \<longleftrightarrow>
     tn_write t = WrOk \<and> su_random (tn_supply t) \<noteq> [] \<and> tn_now t < now + timeout \<and> now \<le> su_now (tn_supply t)"

lemma expire_none:
  assumes "\<forall>e\<in>set (entries q). now < deadline e"
  shows "expire now q = (0, [], q)"
proof -
  have "takeWhile (\<lambda>e. deadline e \<le> now) (entries q) = []" "dropWhile (\<lambda>e. deadline e \<le> now) (entries q) = entries q"
    using assms by (cases "entries q"; simp)+
  then show ?thesis
    by (simp add: expire_def expire_loop_eq expired_entries_def deliveries_def)
qed

lemma turn_command:
  assumes "lv_ready env (Suc room) lv" "lv_cmds lv = IoEncrypted cmd x # cmds" "wf_command cmd"
    and "good_turn (wc_command_timeout (wr_cfg (lv_writer lv))) now t"
    and "\<forall>e\<in>set (entries (wr_pending (lv_writer lv))). now + wc_command_timeout (wr_cfg (lv_writer lv)) \<le> deadline e"
  obtains lv' e where "live_turn (re_crypto env) (re_json env) api t lv = lv'" "lv_ready env room lv'"
    "lv_cmds lv' = cmds" "wr_cfg (lv_writer lv') = wr_cfg (lv_writer lv)"
    "wr_wire (lv_writer lv') = wr_wire (lv_writer lv) @ [(OpText, as_bytes (wire_cmd e))]"
    "wr_pending (lv_writer lv') = (wr_pending (lv_writer lv))\<lparr>entries := entries (wr_pending (lv_writer lv)) @ [e]\<rparr>"
    "resp e = Some x" "decode_control (re_crypto env) (wire_cmd e) (re_keys env) = Some cmd"
    "now + wc_command_timeout (wr_cfg (lv_writer lv)) \<le> deadline e"
    "rd_answers (lv_reader lv') = rd_answers (lv_reader lv)" "rd_guard (lv_reader lv') = rd_guard (lv_reader lv)"
proof -
  let ?w = "lv_writer lv" and ?c = "re_crypto env"
  let ?w1 = "wr_metrics (\<lambda>m. m\<lparr>m_commands_sent := m_commands_sent m + 1\<rparr>) ?w"
  have r: "crypto_ok ?c" "wf_keys ?c (wr_keys ?w1)" "wf_salt (wr_salt ?w1)" "\<not> wc_max_pending (wr_cfg ?w1) \<le> queue_len (wr_pending ?w1)"
    using assms(1) by (simp_all add: lv_ready_def wr_metrics_def)
  have su: "su_random (tn_supply t) \<noteq> []"
    using assms(4) by (simp add: good_turn_def)
  obtain tx st where p: "prepare_command ?c (tn_supply t) cmd (Some x) ?w1 =
      (OutText tx, ?w1\<lparr>wr_salt := st, wr_pending := push cmd tx (Some x)
         (su_now (tn_supply t) + wc_command_timeout (wr_cfg ?w1)) (wr_pending ?w1)\<rparr>)"
    "wf_salt st" "starts_with tx CMD_ENCRYPT" "decode_control ?c tx (wr_keys ?w1) = Some cmd"
    by (rule prepare_ok [OF r(1-3) assms(3) su])
  define e where "e = \<lparr>plaintext_cmd = cmd, wire_cmd = tx, resp = Some x,
      deadline = su_now (tn_supply t) + wc_command_timeout (wr_cfg ?w)\<rparr>"
  define w2 where "w2 = ?w1\<lparr>wr_salt := st, wr_pending := (wr_pending ?w)\<lparr>entries := entries (wr_pending ?w) @ [e]\<rparr>,
      wr_wire := wr_wire ?w @ [(OpText, as_bytes tx)]\<rparr>"
  have ex: "expire (tn_now t) (wr_pending w2) = (0, [], wr_pending w2)"
    using assms(4,5) by (intro expire_none) (auto simp: w2_def e_def good_turn_def)
  have "expire_pending (tn_now t) w2 = w2"
    by (simp add: expire_pending_def ex)
  then have t: "live_turn ?c (re_json env) api t lv = share_r (lv\<lparr>lv_cmds := cmds, lv_writer := w2\<rparr>)"
    using assms(1,2,4) p r(4)
    by (simp add: live_turn_def live_wake_def lv_ready_def iterate_def decide_def on_io_command_def Let_def
        good_turn_def write_text_def write_frame_def w2_def e_def push_def wr_metrics_def)
  have w2: "wr_keys w2 = wr_keys ?w" "wr_cfg w2 = wr_cfg ?w" "wr_salt w2 = st"
    "wr_pending w2 = (wr_pending ?w)\<lparr>entries := entries (wr_pending ?w) @ [e]\<rparr>"
    "wr_wire w2 = wr_wire ?w @ [(OpText, as_bytes (wire_cmd e))]"
    by (simp_all add: w2_def wr_metrics_def e_def)
  have e: "resp e = Some x" "decode_control ?c (wire_cmd e) (re_keys env) = Some cmd"
    "now + wc_command_timeout (wr_cfg ?w) \<le> deadline e"
    using assms(1,4) p(4) by (simp_all add: e_def lv_ready_def good_turn_def wr_metrics_def)
  have rdy: "lv_ready env room (share_r (lv\<lparr>lv_cmds := cmds, lv_writer := w2\<rparr>))"
    using assms(1) p(2) w2 by (simp add: lv_ready_def lv_ok_def share_r_def Let_def queue_len_def)
  show ?thesis
    by (rule that [OF t rdy _ _ _ _ e]) (simp_all add: share_r_def Let_def w2)
qed

text \<open>A session whose reader waits for the next message, and a handler that does not panic on payloads.\<close>

definition lv_reading :: "('h, 's) Live \<Rightarrow> bool" where
  "lv_reading lv \<longleftrightarrow>
     lv_ok lv \<and> lv_outcome lv = None \<and> lv_expect lv = START \<and> \<not> panicked (rd_guard (lv_reader lv))"

definition calm :: "'h LoxHandler \<Rightarrow> bool" where
  "calm hnd \<longleftrightarrow> (\<forall>t p h. fst (on_raw_payload hnd t p h))"

text \<open>The answer to a frame: a text message of one header and its payload, whose control echoes the frame.\<close>

definition answers_frame :: "string \<Rightarrow> wire_msg \<Rightarrow> bool" where
  "answers_frame wire m \<longleftrightarrow>
     wf_wire m \<and> wm_estimates m = [] \<and> hdr_identifier (wm_header m) = message_type_u8 Text \<and> wm_payload m \<noteq> [] \<and>
     (\<exists>ctrl. extract_ll_control (wm_payload m) = Some ctrl \<and> canonical ctrl = canonical wire)"

lemma live_read_quiet:
  assumes "timely (re_idle_timeout env) fr" "lv_ok lv"
    and "on_data_frame env (lv_expect lv) p (lv_reader lv) = Some (Ok None, ex, r)"
  shows "\<exists>lv'. live_read env (fr p) lv = Some lv' \<and> lv_expect lv' = ex \<and> lv_outcome lv' = None \<and>
    lv_reader lv' = r\<lparr>rd_out := []\<rparr> \<and> wr_pending (lv_writer lv') = rd_pending r"
proof -
  obtain d op where fr: "fr p = (d, RdFrame [] op p)" "d \<le> re_idle_timeout env" "op \<in> {OpText, OpBinary}"
    using assms(1) unfolding timely_def by blast
  have "\<not> read_timeout (re_idle_timeout env) (announced_len (lv_expect lv)) < d"
    using read_timeout_ge [of "re_idle_timeout env" "announced_len (lv_expect lv)"] fr(2) by simp
  moreover have "(lv_reader lv)\<lparr>rd_out := rd_out (lv_reader lv)\<rparr> = lv_reader lv"
    by simp
  ultimately have "reader_step env (lv_expect lv) (fr p) (lv_reader lv) = Some (None, ex, r)"
    using fr(1,3) assms(3) by (auto simp: reader_step_def)
  then show ?thesis
    by (simp add: live_read_def share_w_def Let_def)
qed

lemma dispatch_answer:
  assumes "zerocopy_ok (re_zc env)" "calm (re_handler env)" "\<not> panicked (rd_guard r)"
    and "entries (rd_pending r) = e # es" "extract_ll_control p = Some ctrl" "canonical ctrl = canonical (wire_cmd e)"
    and "resp e = Some x"
  obtains r' where "rd_dispatch env (message_type_u8 Text) p r = Some (Ok (), r')"
    "rd_answers r' = rd_answers r @ [(x, Ok p)]" "rd_pending r' = (rd_pending r)\<lparr>entries := es\<rparr>"
    "\<not> panicked (rd_guard r')"
proof -
  let ?r = "rd_metrics (record_message (message_type_u8 Text)) r"
  have eq: "rd_guard (rd_metrics f r) = rd_guard r" "rd_pending (rd_metrics f r) = rd_pending r"
    "rd_answers (rd_metrics f r) = rd_answers r" for f
    by (simp_all add: rd_metrics_def)
  obtain h where h: "on_raw_payload (re_handler env) (message_type_u8 Text) p (guarded (rd_guard r)) = (True, h)"
    using assms(2) unfolding calm_def by (metis eq_fst_iff)
  have g: "guarded_dispatch env (message_type_u8 Text) p (guarded (rd_guard ?r)) = Some (Some False, h)"
    using h by (simp add: guarded_dispatch_def dispatch_event_def from_u8_def eq)
  define r1 where "r1 = ?r\<lparr>rd_guard := (rd_guard r)\<lparr>guarded := h\<rparr>\<rparr>"
  have r1: "rd_guarded (\<lambda>_. (Some False, h)) ?r = (Ok False, r1)" "rd_pending r1 = rd_pending r" "rd_answers r1 = rd_answers r"
    "\<not> panicked (rd_guard r1)"
    using assms(3) by (simp_all add: rd_guarded_def guard_or_fail_def guard_def r1_def eq ok_or_def)
  have rs: "\<exists>act. resolve (re_crypto env) (Some ctrl) (re_keys env) (rd_pending r1) =
     (Some \<lparr>res_plaintext_cmd = plaintext_cmd e, res_resp = resp e, matched = True, actual = act\<rparr>, (rd_pending r)\<lparr>entries := es\<rparr>)"
    using assms(4,6) r1(2) by (simp add: resolve_def Let_def)
  define r2 where "r2 = r1\<lparr>rd_pending := (rd_pending r)\<lparr>entries := es\<rparr>\<rparr>"
  define r3 where "r3 = (if starts_with (plaintext_cmd e) CMD_GET_VISUAL_PASSWD \<and> \<not> visu_is_empty (rd_visu r2)
      then flush_visu env p r2 else r2)"
  have r3: "rd_answers r3 = rd_answers r" "rd_pending r3 = (rd_pending r)\<lparr>entries := es\<rparr>" "\<not> panicked (rd_guard r3)"
    using r1 by (simp_all add: r3_def r2_def flush_visu_frame)
  have "on_text_message env p r1 = (Ok (), r3\<lparr>rd_answers := rd_answers r3 @ [(x, Ok p)]\<rparr>)"
    using rs assms(5,7) by (auto simp: on_text_message_def Let_def r3_def r2_def)
  then have "rd_dispatch env (message_type_u8 Text) p r = Some (Ok (), r3\<lparr>rd_answers := rd_answers r3 @ [(x, Ok p)]\<rparr>)"
    using g r1(1) by (simp add: rd_dispatch_def Let_def from_u8_def)
  then show ?thesis
    by (rule that) (simp_all add: r3)
qed

lemma read_answer:
  assumes "zerocopy_ok (re_zc env)" "calm (re_handler env)" "timely (re_idle_timeout env) fr" "lv_reading lv"
    and "entries (rd_pending (lv_reader lv)) = e # es" "resp e = Some x" "answers_frame (wire_cmd e) m"
  shows "\<exists>lv'. live_run env api (map (\<lambda>p. LvRead (fr p)) (wire_frames m)) lv lv' \<and> lv_reading lv' \<and>
    rd_answers (lv_reader lv') = rd_answers (lv_reader lv) @ [(x, Ok (wm_payload m))] \<and>
    rd_pending (lv_reader lv') = (rd_pending (lv_reader lv))\<lparr>entries := es\<rparr>"
proof -
  let ?h = "wm_header m" and ?p = "wm_payload m"
  have m: "wf_wire m" "wm_estimates m = []" "hdr_identifier ?h = message_type_u8 Text" "?p \<noteq> []"
    using assms(7) by (auto simp: answers_frame_def)
  obtain ctrl where ctrl: "extract_ll_control ?p = Some ctrl" "canonical ctrl = canonical (wire_cmd e)"
    using assms(7) by (auto simp: answers_frame_def)
  have st: "lv_ok lv" "lv_expect lv = ExpHeader 0" "lv_outcome lv = None" "\<not> panicked (rd_guard (lv_reader lv))"
    using assms(4) by (simp_all add: lv_reading_def START_def)
  let ?ex = "ExpPayload (message_type_u8 Text) (payload_len ?h)"
  have "on_data_frame env (lv_expect lv) (hdr_bytes ?h) (lv_reader lv) = Some (Ok None, ?ex, lv_reader lv)"
    using m wf_wire_empty [OF m(1)] by (simp add: st(2) on_header_frame [OF assms(1)] wf_wire_def)
  from live_read_quiet [OF assms(3) st(1) this] obtain lv1 where
    l1: "live_read env (fr (hdr_bytes ?h)) lv = Some lv1" "lv_expect lv1 = ?ex" "lv_outcome lv1 = None"
      "lv_reader lv1 = (lv_reader lv)\<lparr>rd_out := []\<rparr>"
    by blast
  have ok1: "lv_ok lv1"
    using live_read_ok [OF l1(1) st(1)] by simp
  have g1: "\<not> panicked (rd_guard (lv_reader lv1))" "entries (rd_pending (lv_reader lv1)) = e # es"
    using st(4) assms(5) l1(4) by simp_all
  obtain r' where r': "rd_dispatch env (message_type_u8 Text) ?p (lv_reader lv1) = Some (Ok (), r')"
    "rd_answers r' = rd_answers (lv_reader lv1) @ [(x, Ok ?p)]" "rd_pending r' = (rd_pending (lv_reader lv1))\<lparr>entries := es\<rparr>"
    "\<not> panicked (rd_guard r')"
    by (rule dispatch_answer [OF assms(1,2) g1 ctrl assms(6)])
  have "on_data_frame env (lv_expect lv1) ?p (lv_reader lv1) = Some (Ok None, START, r')"
    using r'(1) by (simp add: l1(2) on_data_frame_def)
  from live_read_quiet [OF assms(3) ok1 this] obtain lv2 where
    l2: "live_read env (fr ?p) lv1 = Some lv2" "lv_expect lv2 = START" "lv_outcome lv2 = None"
      "lv_reader lv2 = r'\<lparr>rd_out := []\<rparr>"
    by blast
  have "live_run env api (map (\<lambda>p. LvRead (fr p)) (wire_frames m)) lv lv2"
    using l1 l2 st(3) m by (auto simp: wire_frames_def intro: live_step.live_read)
  moreover have "lv_reading lv2"
    using live_read_ok [OF l2(1) ok1] l2 r'(4) by (simp add: lv_reading_def)
  ultimately show ?thesis
    using l1(4) l2(4) r' by auto
qed

lemma run_append:
  "live_run env api (es @ fs) lv lv' \<longleftrightarrow> (\<exists>lv1. live_run env api es lv lv1 \<and> live_run env api fs lv1 lv')"
  by (induction es arbitrary: lv) auto

lemma turns_commands:
  assumes "lv_ready env (length cs) lv" "lv_cmds lv = map (\<lambda>(cmd, x). IoEncrypted cmd x) cs"
    and "list_all (\<lambda>(cmd, x). wf_command cmd) cs" "length ts = length cs"
    and "list_all (good_turn (wc_command_timeout (wr_cfg (lv_writer lv))) now) ts"
    and "\<forall>e\<in>set (entries (wr_pending (lv_writer lv))). now + wc_command_timeout (wr_cfg (lv_writer lv)) \<le> deadline e"
  shows "\<exists>lv' es. live_run env api (map LvTurn ts) lv lv' \<and> lv_ready env 0 lv' \<and>
    wr_wire (lv_writer lv') = wr_wire (lv_writer lv) @ map (\<lambda>e. (OpText, as_bytes (wire_cmd e))) es \<and>
    wr_pending (lv_writer lv') = (wr_pending (lv_writer lv))\<lparr>entries := entries (wr_pending (lv_writer lv)) @ es\<rparr> \<and>
    list_all2 (\<lambda>e (cmd, x). resp e = Some x \<and> decode_control (re_crypto env) (wire_cmd e) (re_keys env) = Some cmd) es cs \<and>
    rd_answers (lv_reader lv') = rd_answers (lv_reader lv) \<and> rd_guard (lv_reader lv') = rd_guard (lv_reader lv)"
  using assms
proof (induction cs arbitrary: lv ts)
  case Nil
  then show ?case
    by (intro exI [of _ lv] exI [of _ "[]"]) simp
next
  case (Cons cx cs)
  obtain cmd x where cx: "cx = (cmd, x)" by fastforce
  obtain t us where ts: "ts = t # us" using Cons.prems(4) by (cases ts) auto
  let ?to = "wc_command_timeout (wr_cfg (lv_writer lv))"
  have p: "lv_ready env (Suc (length cs)) lv" "lv_cmds lv = IoEncrypted cmd x # map (\<lambda>(cmd, x). IoEncrypted cmd x) cs"
    "wf_command cmd" "good_turn ?to now t"
    using Cons.prems cx ts by auto
  obtain lv1 e where l: "live_turn (re_crypto env) (re_json env) api t lv = lv1" "lv_ready env (length cs) lv1"
    "lv_cmds lv1 = map (\<lambda>(cmd, x). IoEncrypted cmd x) cs" "wr_cfg (lv_writer lv1) = wr_cfg (lv_writer lv)"
    "wr_wire (lv_writer lv1) = wr_wire (lv_writer lv) @ [(OpText, as_bytes (wire_cmd e))]"
    "wr_pending (lv_writer lv1) = (wr_pending (lv_writer lv))\<lparr>entries := entries (wr_pending (lv_writer lv)) @ [e]\<rparr>"
    "resp e = Some x" "decode_control (re_crypto env) (wire_cmd e) (re_keys env) = Some cmd"
    "now + ?to \<le> deadline e"
    "rd_answers (lv_reader lv1) = rd_answers (lv_reader lv)" "rd_guard (lv_reader lv1) = rd_guard (lv_reader lv)"
    by (rule turn_command [OF p Cons.prems(6)])
  have "\<exists>lv' es. live_run env api (map LvTurn us) lv1 lv' \<and> lv_ready env 0 lv' \<and>
    wr_wire (lv_writer lv') = wr_wire (lv_writer lv1) @ map (\<lambda>e. (OpText, as_bytes (wire_cmd e))) es \<and>
    wr_pending (lv_writer lv') = (wr_pending (lv_writer lv1))\<lparr>entries := entries (wr_pending (lv_writer lv1)) @ es\<rparr> \<and>
    list_all2 (\<lambda>e (cmd, x). resp e = Some x \<and> decode_control (re_crypto env) (wire_cmd e) (re_keys env) = Some cmd) es cs \<and>
    rd_answers (lv_reader lv') = rd_answers (lv_reader lv1) \<and> rd_guard (lv_reader lv') = rd_guard (lv_reader lv1)"
    using Cons.prems l ts by (intro Cons.IH) auto
  then obtain lv' es where r: "live_run env api (map LvTurn us) lv1 lv'" "lv_ready env 0 lv'"
    "wr_wire (lv_writer lv') = wr_wire (lv_writer lv1) @ map (\<lambda>e. (OpText, as_bytes (wire_cmd e))) es"
    "wr_pending (lv_writer lv') = (wr_pending (lv_writer lv1))\<lparr>entries := entries (wr_pending (lv_writer lv1)) @ es\<rparr>"
    "list_all2 (\<lambda>e (cmd, x). resp e = Some x \<and> decode_control (re_crypto env) (wire_cmd e) (re_keys env) = Some cmd) es cs"
    "rd_answers (lv_reader lv') = rd_answers (lv_reader lv1)" "rd_guard (lv_reader lv') = rd_guard (lv_reader lv1)"
    by blast
  have "live_step env api (LvTurn t) lv lv1"
    using live_step.live_turn [of lv env api t] p(1) l(1) by (simp add: lv_ready_def)
  from live_run.live_run_Cons [OF this r(1)] have "live_run env api (map LvTurn ts) lv lv'"
    by (simp only: ts list.map)
  then show ?case
    using r l cx by (intro exI [of _ lv'] exI [of _ "e # es"]) simp
qed

lemma read_answers:
  assumes "zerocopy_ok (re_zc env)" "calm (re_handler env)" "timely (re_idle_timeout env) fr"
    and "lv_reading lv" "entries (rd_pending (lv_reader lv)) = es @ rest"
    and "list_all2 (\<lambda>e x. resp e = Some x) es xs" "list_all2 (\<lambda>e m. answers_frame (wire_cmd e) m) es ms"
  shows "\<exists>lv'. live_run env api (map (\<lambda>p. LvRead (fr p)) (concat (map wire_frames ms))) lv lv' \<and> lv_reading lv' \<and>
    rd_answers (lv_reader lv') = rd_answers (lv_reader lv) @ zip xs (map (\<lambda>m. Ok (wm_payload m)) ms) \<and>
    rd_pending (lv_reader lv') = (rd_pending (lv_reader lv))\<lparr>entries := rest\<rparr>"
  using assms(4-7)
proof (induction es arbitrary: lv xs ms)
  case Nil
  then show ?case
    by (intro exI [of _ lv]) simp
next
  case (Cons e es)
  obtain x xs' m ms' where x: "xs = x # xs'" "ms = m # ms'" "resp e = Some x" "answers_frame (wire_cmd e) m"
    "list_all2 (\<lambda>e x. resp e = Some x) es xs'" "list_all2 (\<lambda>e m. answers_frame (wire_cmd e) m) es ms'"
    using Cons.prems(3,4) by (auto simp: list_all2_Cons1)
  have "entries (rd_pending (lv_reader lv)) = e # (es @ rest)"
    using Cons.prems(2) by simp
  from read_answer [OF assms(1-3) Cons.prems(1) this x(3,4), of api] obtain lv1 where
    l1: "live_run env api (map (\<lambda>p. LvRead (fr p)) (wire_frames m)) lv lv1" "lv_reading lv1"
    "rd_answers (lv_reader lv1) = rd_answers (lv_reader lv) @ [(x, Ok (wm_payload m))]"
    "rd_pending (lv_reader lv1) = (rd_pending (lv_reader lv))\<lparr>entries := es @ rest\<rparr>"
    by blast
  obtain lv2 where "live_run env api (map (\<lambda>p. LvRead (fr p)) (concat (map wire_frames ms'))) lv1 lv2" "lv_reading lv2"
    "rd_answers (lv_reader lv2) = rd_answers (lv_reader lv1) @ zip xs' (map (\<lambda>m. Ok (wm_payload m)) ms')"
    "rd_pending (lv_reader lv2) = (rd_pending (lv_reader lv1))\<lparr>entries := rest\<rparr>"
    using Cons.IH [OF l1(2) _ x(5,6)] l1(4) by auto
  with l1 x(1,2) show ?case
    by (intro exI [of _ lv2]) (auto simp: run_append)
qed

section \<open>Properties\<close>

text \<open>A session with one command handed in, and a turn that sends it, for the witnesses.\<close>

definition demo_reader_env :: "(nat, jvalue) reader_env" where
  "demo_reader_env = \<lparr>re_zc = zc_layout, re_crypto = crypto_std, re_json = json_table [], re_handler = default_handler,
     re_keys = from_key_iv crypto_std (replicate 32 7) (replicate 16 9), re_rtt = (\<lambda>_. 0), re_idle_timeout = from_secs 150\<rparr>"

definition demo_store :: "nat store_api" where
  "demo_store = \<lparr>st_load = \<lambda>s b. None, st_save = \<lambda>s b t. s + 1, st_clear = \<lambda>s b. 0\<rparr>"

definition demo_live :: "(nat, nat) Live" where
  "demo_live = live_new (connect_config_new ''ms.local'' ''admin'' ''pw'') (re_keys demo_reader_env) salt_new
     (shared_new 0) False (guard_new 0) [IoEncrypted ''jdev/cfg/api'' 7]"

definition demo_turn :: turn where
  "demo_turn = \<lparr>tn_tick = False, tn_supply = demo_readings, tn_write = WrOk, tn_now = 0,
     tn_kill = (\<lparr>ex_supply = demo_readings, ex_write = WrOk, ex_waiter = 0, ex_replies = []\<rparr>,
                \<lparr>ex_supply = demo_readings, ex_write = WrOk, ex_waiter = 1, ex_replies = []\<rparr>)\<rparr>"

text \<open>
  C2: In every interleaving of reader, writer and clients each waiter is answered exactly as often as
  it was handed in, or still waits; and once the writer has ended nobody waits but in the
  command channel, which is handed back.
\<close>

theorem session_answers_once:
  assumes "live_run env api es (live_new cfg keys st shared stopped g cmds) lv"
    and "\<forall>e\<in>set es. x \<notin> set (kill_waiters e)"
  shows "count (mset (lv_answered lv @ lv_waiting lv)) x =
      count (mset (concat (map (\<lambda>cmd. submitted (WakeCommand (Some cmd))) cmds) @ concat (map handed_in es))) x \<and>
    (lv_ended lv \<longrightarrow> lv_waiting lv = concat (map (\<lambda>cmd. submitted (WakeCommand (Some cmd))) (lv_cmds lv)))"
proof -
  let ?lv = "live_new cfg keys st shared stopped g cmds"
  have "lv_answered ?lv @ lv_waiting ?lv = concat (map (\<lambda>cmd. submitted (WakeCommand (Some cmd))) cmds)"
    by (simp add: live_new_def lv_answered_def lv_waiting_def session_reader_def session_writer_def queue_new_def)
  then have "count (mset (lv_answered lv @ lv_waiting lv)) x =
      count (mset (concat (map (\<lambda>cmd. submitted (WakeCommand (Some cmd))) cmds) @ concat (map handed_in es))) x"
    using live_run_ok [OF assms(1) lv_ok_new assms(2)] by (metis append.assoc)
  moreover have "lv_ok lv"
    using live_run_ok [OF assms(1) lv_ok_new assms(2)] by blast
  ultimately show ?thesis
    by (auto simp: lv_ok_def lv_waiting_def)
qed

theorem session_answers_once_witness:
  "\<exists>lv. live_run demo_reader_env demo_store [LvTurn demo_turn, LvSubmit (IoEncrypted ''jdev/cfg/version'' 9)] demo_live lv \<and>
     count (mset (lv_answered lv @ lv_waiting lv)) 7 = 1 \<and> count (mset (lv_answered lv @ lv_waiting lv)) 9 = 1"
proof -
  let ?es = "[LvTurn demo_turn, LvSubmit (IoEncrypted ''jdev/cfg/version'' 9)]"
  have "\<not> lv_ended demo_live"
    by (simp add: demo_live_def live_new_def)
  from live_step.live_turn [OF this] obtain lv1 where "live_step demo_reader_env demo_store (LvTurn demo_turn) demo_live lv1"
    by blast
  moreover obtain lv where "live_run demo_reader_env demo_store [LvSubmit (IoEncrypted ''jdev/cfg/version'' 9)] lv1 lv"
    using live_run.intros live_step.live_submit by blast
  ultimately have r: "live_run demo_reader_env demo_store ?es demo_live lv"
    by (rule live_run.live_run_Cons)
  have "count (mset (lv_answered lv @ lv_waiting lv)) 7 = 1" "count (mset (lv_answered lv @ lv_waiting lv)) 9 = 1"
    using session_answers_once [OF r [unfolded demo_live_def], of 7] session_answers_once [OF r [unfolded demo_live_def], of 9]
    by (simp_all add: demo_turn_def)
  with r show ?thesis
    by blast
qed

text \<open>
  C3: Commands handed in one after the other reach the Miniserver in that order, encrypted, and when
  it answers each frame with a message that echoes it, every caller gets the payload of the
  answer to its own command: no answer is lost, swapped or counted as a mismatch.
\<close>

theorem pipelined_roundtrip:
  assumes "zerocopy_ok (re_zc env)" "calm (re_handler env)" "timely (re_idle_timeout env) fr"
    and "lv_ready env (length cs) lv" "\<not> panicked (rd_guard (lv_reader lv))" "wr_pending (lv_writer lv) = queue_new"
    and "lv_cmds lv = map (\<lambda>(cmd, x). IoEncrypted cmd x) cs" "list_all (\<lambda>(cmd, x). wf_command cmd) cs"
    and "length ts = length cs" "list_all (good_turn (wc_command_timeout (wr_cfg (lv_writer lv))) now) ts"
  shows "\<exists>lv' wires. live_run env api (map LvTurn ts) lv lv' \<and>
    wr_wire (lv_writer lv') = wr_wire (lv_writer lv) @ map (\<lambda>t. (OpText, as_bytes t)) wires \<and>
    list_all2 (\<lambda>t (cmd, x). decode_control (re_crypto env) t (re_keys env) = Some cmd) wires cs \<and>
    (\<forall>ms. list_all2 answers_frame wires ms \<longrightarrow>
       (\<exists>lv''. live_run env api (map (\<lambda>p. LvRead (fr p)) (concat (map wire_frames ms))) lv' lv'' \<and>
          rd_answers (lv_reader lv'') = rd_answers (lv_reader lv) @ zip (map snd cs) (map (\<lambda>m. Ok (wm_payload m)) ms) \<and>
          rd_pending (lv_reader lv'') = queue_new))"
proof -
  have q: "\<forall>e\<in>set (entries (wr_pending (lv_writer lv))). now + wc_command_timeout (wr_cfg (lv_writer lv)) \<le> deadline e"
    by (simp add: assms(6) queue_new_def)
  obtain lv' es where r: "live_run env api (map LvTurn ts) lv lv'" "lv_ready env 0 lv'"
    "wr_wire (lv_writer lv') = wr_wire (lv_writer lv) @ map (\<lambda>e. (OpText, as_bytes (wire_cmd e))) es"
    "wr_pending (lv_writer lv') = (wr_pending (lv_writer lv))\<lparr>entries := entries (wr_pending (lv_writer lv)) @ es\<rparr>"
    "list_all2 (\<lambda>e (cmd, x). resp e = Some x \<and> decode_control (re_crypto env) (wire_cmd e) (re_keys env) = Some cmd) es cs"
    "rd_answers (lv_reader lv') = rd_answers (lv_reader lv)" "rd_guard (lv_reader lv') = rd_guard (lv_reader lv)"
    using turns_commands [OF assms(4,7-10) q, of api] by blast
  have c: "list_all2 (\<lambda>e x. resp e = Some x) es (map snd cs)"
    "list_all2 (\<lambda>t (cmd, x). decode_control (re_crypto env) t (re_keys env) = Some cmd) (map wire_cmd es) cs"
    using r(5) by (auto simp: list_all2_conv_all_nth case_prod_unfold)
  have l: "lv_reading lv'" "rd_pending (lv_reader lv') = queue_new\<lparr>entries := es\<rparr>"
    using r(2,4,7) assms(5,6) by (auto simp: lv_reading_def lv_ready_def lv_ok_def queue_new_def)
  have "\<exists>lv''. live_run env api (map (\<lambda>p. LvRead (fr p)) (concat (map wire_frames ms))) lv' lv'' \<and>
      rd_answers (lv_reader lv'') = rd_answers (lv_reader lv) @ zip (map snd cs) (map (\<lambda>m. Ok (wm_payload m)) ms) \<and>
      rd_pending (lv_reader lv'') = queue_new" if "list_all2 answers_frame (map wire_cmd es) ms" for ms
    using read_answers [OF assms(1-3) l(1) _ c(1), of "[]" ms api] that l(2) r(6)
    by (auto simp: list_all2_map1 queue_new_def)
  then show ?thesis
    using r(1,3) c(2) by (intro exI [of _ lv'] exI [of _ "map wire_cmd es"]) (simp add: comp_def)
qed

theorem pipelined_roundtrip_witness:
  "\<exists>lv wire. live_run demo_reader_env demo_store [LvTurn demo_turn] demo_live lv \<and>
     wr_wire (lv_writer lv) = [(OpText, as_bytes wire)] \<and>
     decode_control crypto_std wire (re_keys demo_reader_env) = Some ''jdev/cfg/api'' \<and>
     (\<forall>m. answers_frame wire m \<longrightarrow>
        (\<exists>lv'. live_run demo_reader_env demo_store (map (\<lambda>p. LvRead (0, RdFrame [] OpBinary p)) (wire_frames m)) lv lv' \<and>
           rd_answers (lv_reader lv') = [(7, Ok (wm_payload m))]))"
proof -
  let ?cs = "[(''jdev/cfg/api'', 7)] :: (string \<times> waiter) list"
  let ?fr = "\<lambda>p. (0, RdFrame [] OpBinary p)"
  have "wf_command ''jdev/cfg/api''"
    unfolding wf_command_def by (rule conjI, rule utf8_valid_ascii_str, simp, simp)
  then have w: "list_all (\<lambda>(cmd, x). wf_command cmd) ?cs"
    by simp
  have d: "zerocopy_ok (re_zc demo_reader_env)" "calm (re_handler demo_reader_env)"
    "timely (re_idle_timeout demo_reader_env) ?fr" "lv_ready demo_reader_env (length ?cs) demo_live"
    "\<not> panicked (rd_guard (lv_reader demo_live))" "wr_pending (lv_writer demo_live) = queue_new"
    "lv_cmds demo_live = map (\<lambda>(cmd, x). IoEncrypted cmd x) ?cs" "length [demo_turn] = length ?cs"
    "list_all (good_turn (wc_command_timeout (wr_cfg (lv_writer demo_live))) 0) [demo_turn]"
    by (simp_all add: demo_reader_env_def calm_def default_handler_def quiet_def timely_def lv_ready_def demo_live_def
        live_new_def session_writer_def session_reader_def guard_new_def queue_new_def queue_len_def AES_KEY_SIZE_def
        IV_BYTES_def writer_config_def connect_config_new_def MAX_PENDING_COMMANDS_def COMMAND_TIMEOUT_SECS_def
        good_turn_def demo_turn_def demo_readings_def from_secs_def lv_ok_def)
  have a: "rd_answers (lv_reader demo_live) = []" "wr_wire (lv_writer demo_live) = []"
    by (simp_all add: demo_live_def live_new_def session_reader_def session_writer_def)
  obtain lv wires where r: "live_run demo_reader_env demo_store (map LvTurn [demo_turn]) demo_live lv"
    "wr_wire (lv_writer lv) = map (\<lambda>t. (OpText, as_bytes t)) wires"
    "list_all2 (\<lambda>t (cmd, x). decode_control (re_crypto demo_reader_env) t (re_keys demo_reader_env) = Some cmd) wires ?cs"
    "\<forall>ms. list_all2 answers_frame wires ms \<longrightarrow>
       (\<exists>lv''. live_run demo_reader_env demo_store (map (\<lambda>p. LvRead (?fr p)) (concat (map wire_frames ms))) lv lv'' \<and>
          rd_answers (lv_reader lv'') = zip (map snd ?cs) (map (\<lambda>m. Ok (wm_payload m)) ms) \<and>
          rd_pending (lv_reader lv'') = queue_new)"
    using pipelined_roundtrip [OF d(1-7) w d(8,9), of demo_store] unfolding a append_Nil by blast
  obtain wire where wire: "wires = [wire]" "decode_control crypto_std wire (re_keys demo_reader_env) = Some ''jdev/cfg/api''"
    using r(3) by (auto simp: list_all2_Cons2 demo_reader_env_def)
  have "\<exists>lv'. live_run demo_reader_env demo_store (map (\<lambda>p. LvRead (?fr p)) (wire_frames m)) lv lv' \<and>
      rd_answers (lv_reader lv') = [(7, Ok (wm_payload m))]" if "answers_frame wire m" for m
    using r(4) [rule_format, of "[m]"] that wire(1) by auto
  then show ?thesis
    using r(1,2) wire by (intro exI [of _ lv] exI [of _ wire]) simp
qed

end
