(* ===== verification/Lox_Sealed.thy ===== *)
theory Lox_Sealed
  imports Lox_Live
begin

text \<open>
  What a live session keeps well formed: the keys and the salt state of the writer, and the frames
  it puts on the wire. Every text frame is an encrypted command or the keepalive. The frame layer
  answers pings and closes by itself; that its answers are not text frames is a hypothesis on the
  reads (\<^verbatim>\<open>fastwebsockets\<close> sends only pongs and closes of its own accord).
\<close>

section \<open>Well-formed writers\<close>

definition sealed :: "OpCode \<times> bytes \<Rightarrow> bool" where
  "sealed f \<longleftrightarrow>
     fst f \<noteq> OpText \<or> snd f = as_bytes ''keepalive'' \<or> (\<exists>t. starts_with t CMD_ENCRYPT \<and> snd f = as_bytes t)"

definition wf_writer :: "crypto \<Rightarrow> 's Writer \<Rightarrow> bool" where
  "wf_writer c w \<longleftrightarrow> wf_keys c (wr_keys w) \<and> wf_salt (wr_salt w) \<and> list_all sealed (wr_wire w)"

text \<open>What may go out next: encrypted or the keepalive if it is text.\<close>

definition wf_outgoing :: "Outgoing \<Rightarrow> bool" where
  "wf_outgoing out \<longleftrightarrow>
     (case out of OutText t \<Rightarrow> sealed (OpText, as_bytes t) | OutControl op p \<Rightarrow> op \<noteq> OpText | _ \<Rightarrow> True)"

lemma sealed_simps [simp]:
  "op \<noteq> OpText \<Longrightarrow> sealed (op, p)" "sealed (op, as_bytes ''keepalive'')"
  "starts_with t CMD_ENCRYPT \<Longrightarrow> sealed (op, as_bytes t)"
  by (auto simp: sealed_def)

lemma wf_writer_same:
  "wr_keys w' = wr_keys w \<Longrightarrow> wr_salt w' = wr_salt w \<Longrightarrow> wr_wire w' = wr_wire w \<Longrightarrow> wf_writer c w' = wf_writer c w"
  by (simp add: wf_writer_def)

lemma wf_writer_frames [simp]:
  "wf_writer c (wr_metrics f w) = wf_writer c w" "wf_writer c (answer x r w) = wf_writer c w"
  "wf_writer c (w\<lparr>wr_liveness := l\<rparr>) = wf_writer c w" "wf_writer c (w\<lparr>wr_visu := v\<rparr>) = wf_writer c w"
  "wf_writer c (w\<lparr>wr_pending := q\<rparr>) = wf_writer c w" "wf_writer c (w\<lparr>wr_shared := s\<rparr>) = wf_writer c w"
  "wf_writer c (w\<lparr>wr_stopped := b\<rparr>) = wf_writer c w"
  by (rule wf_writer_same; simp add: wr_metrics_def answer_def)+

lemma encrypt_sealed:
  assumes "crypto_ok c" "wf_keys c keys" "wf_salt st" "encrypt c raw t1 t2 keys cmd st = (r, st')"
  shows "wf_salt st' \<and> (\<exists>t. r = Ok t \<and> starts_with t CMD_ENCRYPT)"
proof -
  obtain e st1 where e: "encrypt c raw t1 t2 keys cmd st = (Ok (CMD_ENCRYPT @ concat (map pct_char (base64 e))), st1)"
    "salt st1 = salt (fill_salted_plaintext c raw t1 t2 cmd st)"
    "salt_used_count st1 = salt_used_count (fill_salted_plaintext c raw t1 t2 cmd st)"
    using encrypt_ok [OF assms(1,2), of raw t1 t2 cmd st] by metis
  with wf_fill [OF assms(1,3), of raw t1 t2 cmd] assms(4) show ?thesis
    by (auto simp: wf_salt_def starts_with_append)
qed

lemma prepare_wf:
  assumes "crypto_ok c" "wf_writer c w" "prepare_command c su cmd rsp w = (out, w')"
  shows "wf_writer c w' \<and> wf_outgoing out"
proof -
  obtain r st where e: "encrypt c (su_random su) (su_check su) (su_stamp su) (wr_keys w) cmd (wr_salt w) = (r, st)"
    by fastforce
  then obtain t where t: "wf_salt st" "r = Ok t" "starts_with t CMD_ENCRYPT"
    using encrypt_sealed [OF assms(1) _ _ e] assms(2) by (auto simp: wf_writer_def)
  with e assms(2,3) show ?thesis
    by (auto simp: prepare_command_def Let_def wf_writer_def wf_outgoing_def)
qed

text \<open>Messages of the reader that put no text of their own on the wire.\<close>

definition no_text :: "WriterMsg \<Rightarrow> bool" where
  "no_text m \<longleftrightarrow> (case m of WObligated op p \<Rightarrow> op \<noteq> OpText | _ \<Rightarrow> True)"

fun wake_no_text :: "wake \<Rightarrow> bool" where
  "wake_no_text (WakeMsg (Some m)) = no_text m"
| "wake_no_text _ = True"

lemma decide_wf:
  assumes "crypto_ok c" "wf_writer c w" "wake_no_text ev" "decide c su ev w = (out, w')"
  shows "wf_writer c w' \<and> wf_outgoing out"
proof -
  have idle: "wf_outgoing OutIdle" "wf_outgoing OutStop" "wf_outgoing OutClose" "wf_outgoing (OutText ''keepalive'')"
    by (simp_all add: wf_outgoing_def)
  show ?thesis
  proof (cases ev)
    case (WakeMsg m)
    with assms idle show ?thesis
      by (cases m; cases "the m")
         (auto simp: decide_def on_writer_msg_def no_text_def wf_outgoing_def dest: prepare_wf [OF assms(1)])
  next
    case (WakeCommand cmd)
    with assms idle show ?thesis
      by (cases cmd; cases "the cmd")
         (auto simp: decide_def on_io_command_def Let_def dest: prepare_wf [OF assms(1), rotated] split: if_splits)
  next
    case WakeTick
    with assms idle show ?thesis
      by (auto simp: decide_def on_keepalive_tick_def Let_def split: if_splits)
  qed (use assms idle in \<open>simp add: decide_def\<close>)
qed

lemma write_frame_wf:
  assumes "write_frame res op p w = (out, w')" "wf_writer c w" "sealed (op, p)"
  shows "wf_writer c w'"
  using assms by (cases res) (auto simp: write_frame_def wf_writer_def)

lemma replies_wf: "wf_writer c (reader_replies c' rs w) = wf_writer c w"
  by (induction c' rs w rule: reader_replies.induct) (auto split: prod.splits option.splits)

lemma expire_wf [simp]: "wf_writer c (expire_pending now w) = wf_writer c w"
  by (rule wf_writer_same; simp add: expire_pending_def Let_def wr_metrics_def split: prod.split)

lemma request_wf:
  assumes "crypto_ok c" "wf_writer c w" "request c x cmd w = (res, w')"
  shows "wf_writer c w'"
proof -
  obtain out w1 where p: "prepare_command c (ex_supply x) cmd (Some (ex_waiter x)) w = (out, w1)"
    by fastforce
  note o = prepare_wf [OF assms(1,2) p]
  show ?thesis
  proof (cases out)
    case (OutText t)
    obtain r w2 where w: "write_text (ex_write x) t w1 = (r, w2)"
      by fastforce
    have "wf_writer c w2"
      using write_frame_wf [OF w [unfolded write_text_def]] o OutText by (simp add: wf_outgoing_def)
    with assms(3) p OutText w show ?thesis
      by (auto simp: request_def Let_def replies_wf split: sum.splits option.splits)
  qed (use assms(3) p o in \<open>simp_all add: request_def Let_def\<close>)
qed

lemma kill_token_wf:
  assumes "crypto_ok c" "wf_writer c w" "kill_token c js x1 x2 w = (res, w')"
  shows "wf_writer c w'"
proof -
  note r = request_wf [OF assms(1)]
  show ?thesis
    using assms(2,3)
    by (auto simp: kill_token_def Let_def split: if_splits prod.splits sum.splits dest: r; blast dest: r)
qed

lemma graceful_close_wf:
  assumes "crypto_ok c" "wf_writer c w"
  shows "wf_writer c (graceful_close c js api x1 x2 res w)"
proof -
  obtain r w1 where "kill_token c js x1 x2 w = (r, w1)"
    by fastforce
  moreover from kill_token_wf [OF assms this] have "wf_writer c w1" .
  ultimately show ?thesis
    using assms(2) by (auto simp: graceful_close_def Let_def write_frame_def wf_writer_def split: write_result.split)
qed

lemma iterate_wf:
  assumes "crypto_ok c" "wf_writer c w" "wake_no_text (it_wake x)" "iterate c js api x w = (go, w')"
  shows "wf_writer c w'"
proof -
  obtain out w1 where d: "decide c (it_supply x) (it_wake x) (reader_replies c (it_replies x) w) = (out, w1)"
    by fastforce
  note o = decide_wf [OF assms(1) _ assms(3) d, unfolded replies_wf, OF assms(2)]
  show ?thesis
  proof (cases out)
    case (OutText t)
    obtain r w2 where w: "write_text (it_write x) t w1 = (r, w2)" by fastforce
    have "wf_writer c w2"
      using write_frame_wf [OF w [unfolded write_text_def]] o OutText by (simp add: wf_outgoing_def)
    with assms(4) d OutText w show ?thesis
      by (auto simp: iterate_def split: sum.splits)
  next
    case (OutControl op p)
    obtain r w2 where w: "write_control (it_write x) op p w1 = (r, w2)" by fastforce
    have "wf_writer c w2"
      using write_frame_wf [OF w [unfolded write_control_def]] o OutControl by (simp add: wf_outgoing_def)
    with assms(4) d OutControl w show ?thesis
      by (auto simp: iterate_def split: sum.splits)
  next
    case OutClose
    with assms(4) d o show ?thesis
      by (auto simp: iterate_def intro: graceful_close_wf [OF assms(1)])
  qed (use assms(4) d o in \<open>auto simp: iterate_def\<close>)
qed

lemma writer_finish_wf [simp]: "wf_writer c (writer_finish w) = wf_writer c w"
  by (rule wf_writer_same; simp add: writer_finish_def split: prod.split)

section \<open>Well-formed sessions\<close>

definition rd_quiet :: "('h, 's) Reader \<Rightarrow> ('h, 's) Reader \<Rightarrow> bool" where
  "rd_quiet r r' \<longleftrightarrow> (list_all no_text (rd_out r) \<longrightarrow> list_all no_text (rd_out r'))"

interpretation quiet: reader_relation rd_quiet
  by unfold_locales (auto simp: rd_quiet_def no_text_def)


text \<open>A read whose automatic answers are no text frames.\<close>

fun read_no_text :: "live_event \<Rightarrow> bool" where
  "read_no_text (LvRead (_, RdFrame obligated _ _)) = list_all (\<lambda>(op, _). op \<noteq> OpText) obligated"
| "read_no_text _ = True"

lemma reader_step_quiet:
  assumes "reader_step env ex x r = Some (out, ex', r')" "read_no_text (LvRead x)"
  shows "rd_quiet r r'"
  using assms(1)
proof (rule quiet.rel_step)
  fix t obl op p
  assume "x = (t, RdFrame obl op p)"
  with assms(2) show "rd_quiet r (r\<lparr>rd_out := rd_out r @ map (\<lambda>(op, p). WObligated op p) obl\<rparr>)"
    by (auto simp: rd_quiet_def no_text_def list_all_iff)
qed

definition wf_live :: "crypto \<Rightarrow> ('h, 's) Live \<Rightarrow> bool" where
  "wf_live c lv \<longleftrightarrow>
     wf_writer c (lv_writer lv) \<and> list_all no_text (lv_chan lv) \<and> rd_out (lv_reader lv) = []"

lemma wf_live_new:
  "wf_keys c keys \<Longrightarrow> wf_salt st \<Longrightarrow> wf_live c (live_new cfg keys st shared stopped g cmds)"
  by (simp add: wf_live_def live_new_def session_writer_def session_reader_def wf_writer_def)

lemma live_read_wf:
  assumes "live_read env x lv = Some lv'" "wf_live c lv" "read_no_text (LvRead x)"
  shows "wf_live c lv'"
proof -
  obtain out ex r where s: "reader_step env (lv_expect lv) x (lv_reader lv) = Some (out, ex, r)"
    using assms(1) by (auto simp: live_read_def split: option.splits)
  have "list_all no_text (rd_out r @ (case out of None \<Rightarrow> [] | Some _ \<Rightarrow> [WShutdown]))"
    using reader_step_quiet [OF s assms(3)] assms(2)
    by (auto simp: rd_quiet_def wf_live_def no_text_def split: option.split)
  with assms(1,2) s show ?thesis
    by (auto simp: live_read_def Let_def share_w_def wf_live_def)
qed

lemma live_turn_wf:
  assumes "crypto_ok c" "wf_live c lv"
  shows "wf_live c (live_turn c js api t lv)"
proof -
  obtain ev lv1 where w: "live_wake (tn_tick t) lv = (ev, lv1)"
    by fastforce
  have l: "wake_no_text ev" "wf_live c lv1"
    using w assms(2) by (auto simp: live_wake_def wf_live_def split: list.splits)
  let ?it = "\<lparr>it_replies = [], it_wake = ev, it_supply = tn_supply t, it_write = tn_write t,
      it_expire_now = tn_now t, it_kill = tn_kill t\<rparr>"
  obtain go w' where i: "iterate c js api ?it (lv_writer lv1) = (go, w')"
    by fastforce
  have "wf_writer c w'"
    using iterate_wf [OF assms(1) _ _ i] l by (simp add: wf_live_def)
  with w i l(2) show ?thesis
    by (auto simp: live_turn_def wf_live_def share_r_def Let_def split: bool.split)
qed

lemma live_step_wf:
  assumes "live_step env api e lv lv'" "crypto_ok (re_crypto env)" "wf_live (re_crypto env) lv" "read_no_text e"
  shows "wf_live (re_crypto env) lv'"
  using assms
proof (cases rule: live_step.cases)
  case (live_read x)
  with assms live_read_wf show ?thesis by blast
next
  case (live_turn t)
  with assms show ?thesis by (simp add: live_turn_wf)
qed (auto simp: live_set_token_def share_w_def Let_def wf_live_def)

section \<open>Properties\<close>



end
