(* ===== verification/Lox_Connect.thy ===== *)
theory Lox_Connect
  imports Lox_Http
begin

text \<open>
  The WebSocket connection (\<^verbatim>\<open>src/src/client/connect.rs\<close>): the connect with its upgrade request, and
  the read half that another task can force to end. Reading is a sequence of polls; each has the
  answer the inner stream would give.
\<close>

section \<open>Connecting\<close>

definition ws_request :: "string \<Rightarrow> Endpoints \<Rightarrow> http_request" where
  "ws_request key e =
     \<lparr>rq_uri = ''/ws/rfc6455'',
      rq_headers = [(''host'', ws_host_header e), (''upgrade'', ''websocket''), (''connection'', ''Upgrade''),
        (''sec-websocket-key'', key), (''sec-websocket-version'', ''13''),
        (''sec-websocket-protocol'', ''remotecontrol'')]\<rparr>"

text \<open>The random key of the upgrade is an argument.\<close>

definition ws_connect ::
  "crypto \<Rightarrow> 'c x509 \<Rightarrow> network \<Rightarrow> string \<Rightarrow> Endpoints \<Rightarrow> TlsContext \<Rightarrow> unit result \<times> TlsContext" where
  "ws_connect c x net key e ctx =
     (let addr = ep_host e @ '':'' @ nat_str (unat (ep_port e));
          req = ws_request key e;
          upgrade = map_err (\<lambda>e. WebSocket (''WS handshake: '' @ e)) (nw_upgrade net req)
      in case nw_tcp net addr of
           Inl err \<Rightarrow> (Err (WebSocket (''TCP connect '' @ addr @ '': '' @ err)), ctx)
         | Inr _ \<Rightarrow>
             (case nw_build net req of
                Inl err \<Rightarrow> (Err (WebSocket err), ctx)
              | Inr _ \<Rightarrow>
                  if ep_use_tls e then
                    (case nw_server_name net (ep_host e) of
                       Inl err \<Rightarrow> (Err (WebSocket (''invalid server name: '' @ err)), ctx)
                     | Inr _ \<Rightarrow>
                         (case tls_connect c x net (rq_uri req) (ep_host e) ctx of
                            (Inl err, ctx) \<Rightarrow> (Err (Tls (''TLS handshake: '' @ err)), ctx)
                          | (Inr _, ctx) \<Rightarrow> (upgrade, ctx)))
                  else (upgrade, ctx)))"

lemma ws_connect_keeps: "ws_connect c x net key e ctx = (res, ctx') \<Longrightarrow> keeps_pin ctx ctx'"
  by (auto simp: ws_connect_def Let_def dest: tls_connect_keeps split: sum.splits prod.splits if_splits)

lemma ws_connect_pinned:
  assumes "ws_connect c x net key e ctx = (Ok (), ctx')" "wf_tls ctx" "pins (tls_mode ctx)" "ep_use_tls e"
  shows "presents_pin c x net ''/ws/rfc6455'' (ep_host e) ctx'"
proof -
  have "tls_connect c x net ''/ws/rfc6455'' (ep_host e) ctx = (Ok (), ctx')"
    using assms(1,4) by (auto simp: ws_connect_def ws_request_def Let_def split: sum.splits prod.splits)
  then show ?thesis
    by (rule tls_connect_pinned) (use assms in auto)
qed

section \<open>The abortable read half\<close>

datatype 'a poll = PollPending | PollReady 'a

text \<open>
  The receiver of the oneshot: its sender waits, has sent or is gone, or the outcome has been
  taken. Polling it after that panics.
\<close>

datatype oneshot = SenderWaits | SenderDone | OutcomeTaken

definition oneshot_poll :: "oneshot \<Rightarrow> (bool \<times> oneshot) option" where
  "oneshot_poll rx =
     (case rx of
        SenderWaits \<Rightarrow> Some (False, SenderWaits)
      | SenderDone \<Rightarrow> Some (True, OutcomeTaken)
      | OutcomeTaken \<Rightarrow> None)"

record AbortableRead =
  ar_abort :: oneshot
  ar_aborted :: bool

definition abortable_new :: "oneshot \<Rightarrow> AbortableRead" where
  "abortable_new abort = \<lparr>ar_abort = abort, ar_aborted = False\<rparr>"

definition READ_ABORTED :: io_error where
  "READ_ABORTED = IoError ConnectionAborted ''read half aborted by the writer''"

definition poll_read ::
  "(io_error + bytes) poll \<Rightarrow> AbortableRead \<Rightarrow> ((io_error + bytes) poll \<times> AbortableRead) option" where
  "poll_read inner r =
     (case (if ar_aborted r then Some (False, ar_abort r) else oneshot_poll (ar_abort r)) of
        None \<Rightarrow> None
      | Some (is_ready, abort) \<Rightarrow>
          let r = r\<lparr>ar_abort := abort, ar_aborted := ar_aborted r \<or> is_ready\<rparr>
          in if ar_aborted r then Some (PollReady (Inl READ_ABORTED), r) else Some (inner, r))"

text \<open>The read half and the handle \<^verbatim>\<open>split_ws\<close> pairs: the handle is used, or dropped, once.\<close>

definition split_ws :: AbortableRead where
  "split_ws = abortable_new SenderWaits"

definition abort_handle_done :: "AbortableRead \<Rightarrow> AbortableRead" where
  "abort_handle_done r = r\<lparr>ar_abort := (if ar_abort r = SenderWaits then SenderDone else ar_abort r)\<rparr>"

fun poll_reads ::
  "(io_error + bytes) poll list \<Rightarrow> AbortableRead \<Rightarrow> ((io_error + bytes) poll list \<times> AbortableRead) option" where
  "poll_reads [] r = Some ([], r)"
| "poll_reads (inner # polls) r =
     (case poll_read inner r of
        None \<Rightarrow> None
      | Some (res, r) \<Rightarrow>
          (case poll_reads polls r of None \<Rightarrow> None | Some (ress, r) \<Rightarrow> Some (res # ress, r)))"

lemma poll_reads_open:
  "poll_reads polls \<lparr>ar_abort = SenderWaits, ar_aborted = False\<rparr> =
     Some (polls, \<lparr>ar_abort = SenderWaits, ar_aborted = False\<rparr>)"
  by (induction polls) (simp_all add: poll_read_def oneshot_poll_def)

lemma poll_reads_aborted:
  "poll_reads polls \<lparr>ar_abort = OutcomeTaken, ar_aborted = True\<rparr> =
     Some (replicate (length polls) (PollReady (Inl READ_ABORTED)), \<lparr>ar_abort = OutcomeTaken, ar_aborted = True\<rparr>)"
  by (induction polls) (simp_all add: poll_read_def)

section \<open>Properties\<close>

text \<open>
  C15: Aborting ends reading for good and without a panic: the polls before it give what the stream
  gives, and every poll after it fails with the abort, however often the frame parser polls again
  and whatever the stream still holds.
\<close>

theorem abort_ends_reading:
  "\<exists>r1 r2. poll_reads before split_ws = Some (before, r1) \<and>
     poll_reads after (abort_handle_done r1) =
       Some (replicate (length after) (PollReady (Inl READ_ABORTED)), r2)"
proof -
  have "\<exists>r2. poll_reads after \<lparr>ar_abort = SenderDone, ar_aborted = False\<rparr> =
      Some (replicate (length after) (PollReady (Inl READ_ABORTED)), r2)"
    by (cases after) (simp_all add: poll_read_def oneshot_poll_def poll_reads_aborted)
  then show ?thesis
    by (simp add: split_ws_def abortable_new_def poll_reads_open abort_handle_done_def)
qed

end
