(* ===== verification/Lox_Supervisor.thy ===== *)
theory Lox_Supervisor
  imports Lox_Live Lox_Connect
begin

text \<open>
  The supervisor (\<^verbatim>\<open>src/src/client/io.rs\<close>): set up, connect, run a session, wait, connect again. A
  session takes its inputs from the outside: random bytes and clock readings, the outcome of the
  WebSocket connect, the reads of the handshake, the events of the live session, and the polls of
  the wait after it. The task may panic, still be running at the end of its inputs, or be done.
\<close>

section \<open>The model\<close>

definition WRITER_CHANNEL_DEPTH :: nat where "WRITER_CHANNEL_DEPTH = 16"

datatype 'a task = Panics | Running | Done 'a

datatype SessionOutcome = OStopped | ODisconnected "u16 option" | OFailed error

record SessionResult =
  sr_outcome :: SessionOutcome
  sr_cmd_rx :: "IoCommand list option"
  sr_connected_for :: "duration option"

text \<open>The oneshot behind \<^verbatim>\<open>connect\<close>: not sent yet, or what was sent.\<close>

datatype ready = Unsent | Sent "unit result"

text \<open>
  What outlives a session: the client's state, the stop flag, the guarded handler, the ready
  channel, and a log of the lifecycle events. The HTTP client, with the TLS context all connections
  share, is passed along with it.
\<close>

record ('h, 's) SessionCtx =
  cx_shared :: "'s SharedState"
  cx_stopped :: bool
  cx_guard :: "'h HandlerGuard"
  cx_ready :: ready
  cx_events :: "ClientEvent list"

record ('h, 'v, 'c, 's) sup_env =
  se_zc :: zerocopy
  se_crypto :: crypto
  se_json :: "'v json"
  se_x509 :: "'c x509"
  se_handler :: "'h LoxHandler"
  se_store :: "'s store_api"
  se_cfg :: ConnectConfig
  se_rtt :: "nat \<Rightarrow> f64"

record session_in =
  si_random_key :: bytes
  si_random_iv :: bytes
  si_rng :: bytes
  si_net :: network
  si_ws_key :: string
  si_reads :: "(duration \<times> read_event) list"
  si_readings :: "nat \<Rightarrow> readings"
  si_write :: "nat \<Rightarrow> string option"
  si_now :: "u64 option"
  si_cmds :: "IoCommand list"
  si_stop :: bool
  si_connected :: "nat \<times> f64"
  si_events :: "live_event list"
  si_elapsed :: duration
  si_asleep :: nat
  si_polls :: "(bool \<times> nat) list"
  si_stop_then :: bool

definition cx_lifecycle :: "('h, 'v, 'c, 's) sup_env \<Rightarrow> ClientEvent \<Rightarrow> ('h, 's) SessionCtx \<Rightarrow> ('h, 's) SessionCtx" where
  "cx_lifecycle env ev cx =
     cx\<lparr>cx_guard := lifecycle (se_handler env) ev (cx_guard cx), cx_events := cx_events cx @ [ev]\<rparr>"

definition cx_metrics :: "(MetricsState \<Rightarrow> MetricsState) \<Rightarrow> ('h, 's) SessionCtx \<Rightarrow> ('h, 's) SessionCtx" where
  "cx_metrics f cx = cx\<lparr>cx_shared := (cx_shared cx)\<lparr>ss_metrics := f (ss_metrics (cx_shared cx))\<rparr>\<rparr>"

definition cx_state :: "ConnState \<Rightarrow> ('h, 's) SessionCtx \<Rightarrow> ('h, 's) SessionCtx" where
  "cx_state st cx = cx\<lparr>cx_shared := set_state st (cx_shared cx)\<rparr>"

definition ready_send :: "unit result \<Rightarrow> ready \<Rightarrow> ready" where
  "ready_send r rd = (case rd of Unsent \<Rightarrow> Sent r | Sent r' \<Rightarrow> Sent r')"

definition sup_finish ::
  "('h, 'v, 'c, 's) sup_env \<Rightarrow> error option \<Rightarrow> ('h, 's) SessionCtx \<Rightarrow> ('h, 's) SessionCtx" where
  "sup_finish env err cx =
     (let cx = cx_state StClosed cx;
          cx = cx\<lparr>cx_ready := ready_send (Err (case err of Some e \<Rightarrow> e | None \<Rightarrow> Stopped)) (cx_ready cx)\<rparr>
      in cx_lifecycle env EvClosed cx)"

text \<open>A poll of the sleep: the stop flag it sees, and the clock.\<close>

fun sleep_unless_stopped :: "nat \<Rightarrow> (bool \<times> nat) list \<Rightarrow> bool task" where
  "sleep_unless_stopped until [] = Running"
| "sleep_unless_stopped until ((stop, now) # polls) =
     (if stop then Done False
      else if until \<le> now then Done True
      else sleep_unless_stopped until polls)"

text \<open>Whether to try again, with the attempt counter and the context after the wait.\<close>

definition wait_reconnect ::
  "('h, 'v, 'c, 's) sup_env \<Rightarrow> session_in \<Rightarrow> Backoff \<Rightarrow> u32 \<Rightarrow> ('h, 's) SessionCtx \<Rightarrow>
     (bool \<times> u32 \<times> ('h, 's) SessionCtx) task" where
  "wait_reconnect env x backoff attempt cx =
     (if \<not> should_continue attempt (cc_max_reconnect_attempts (se_cfg env)) then
        Done (False, attempt, cx_lifecycle env EvClosed (cx_state StClosed cx))
      else
        let attempt = attempt + 1;
            cx = cx_metrics (\<lambda>m. m\<lparr>m_reconnect_attempts := m_reconnect_attempts m + 1\<rparr>) cx;
            delay = (case backoff of Normal \<Rightarrow> cc_connect_delay_secs (se_cfg env)
                                   | Long \<Rightarrow> cc_long_backoff_secs (se_cfg env));
            cx = cx_state StReconnecting cx
        in case sleep_unless_stopped (si_asleep x + from_secs delay) (si_polls x) of
             Panics \<Rightarrow> Panics
           | Running \<Rightarrow> Running
           | Done False \<Rightarrow>
               Done (False, attempt, cx_lifecycle env EvClosed (cx_state StClosed (cx\<lparr>cx_stopped := True\<rparr>)))
           | Done True \<Rightarrow> Done (True, attempt, cx\<lparr>cx_stopped := si_stop_then x\<rparr>))"

definition preflight ::
  "('h, 'v, 'c, 's) sup_env \<Rightarrow> network \<Rightarrow> HttpClient \<Rightarrow> unit result \<times> HttpClient" where
  "preflight env net http =
     (let cfg = se_cfg env
      in if \<not> cc_receive_updates cfg \<and> \<not> cc_local_only cfg then (Ok (), http)
         else case api_info (se_crypto env) (se_json env) (se_x509 env) net http of
           (Inl e, http) \<Rightarrow> (Ok (), http)
         | (Inr info, http) \<Rightarrow>
             if cc_local_only cfg \<and> ai_local info = Some False then (Err NotLocal, http)
             else if cc_receive_updates cfg \<and> ai_has_event_slots info = Some False then (Err NoEventSlots, http)
             else (Ok (), http))"

section \<open>A session\<close>

definition hs_env_of :: "('h, 'v, 'c, 's) sup_env \<Rightarrow> session_in \<Rightarrow> SessionKeys \<Rightarrow> ('h, 'v, 's) hs_env" where
  "hs_env_of env x keys =
     \<lparr>he_zc = se_zc env, he_crypto = se_crypto env, he_json = se_json env, he_handler = se_handler env,
      he_keys = keys, he_cfg = se_cfg env, he_store = se_store env, he_now = si_now x,
      he_readings = si_readings x, he_write = si_write x\<rparr>"

definition reader_env_of :: "('h, 'v, 'c, 's) sup_env \<Rightarrow> SessionKeys \<Rightarrow> ('h, 'v) reader_env" where
  "reader_env_of env keys =
     \<lparr>re_zc = se_zc env, re_crypto = se_crypto env, re_json = se_json env, re_handler = se_handler env,
      re_keys = keys, re_rtt = se_rtt env, re_idle_timeout = from_secs (cc_read_idle_timeout_secs (se_cfg env))\<rparr>"

text \<open>From the preflight to the open WebSocket: the keys and the wrapped session key.\<close>

definition pin_mismatch :: "'a result \<Rightarrow> error option" where
  "pin_mismatch r = (case r of Inl (TlsPinMismatch a b) \<Rightarrow> Some (TlsPinMismatch a b) | _ \<Rightarrow> None)"

definition session_open ::
  "('h, 'v, 'c, 's) sup_env \<Rightarrow> session_in \<Rightarrow> Endpoints \<Rightarrow> HttpClient \<Rightarrow>
     ((SessionKeys \<times> string) result \<times> HttpClient) task" where
  "session_open env x e http =
     (let c = se_crypto env; js = se_json env; net = si_net x; user = cc_username (se_cfg env);
          pw = cc_password (se_cfg env)
      in case preflight env net http of
           (Inl err, http) \<Rightarrow> Done (Err err, http)
         | (Inr _, http) \<Rightarrow>
             (case (if needs_pin_bootstrap (hc_tls http) then bootstrap_pin c js (se_x509 env) net user pw http
                    else (Ok [], http)) of
                (pin, http) \<Rightarrow>
                  (case pin_mismatch pin of
                     Some err \<Rightarrow> Done (Err err, http)
                   | None \<Rightarrow>
                       let keys = generate c (si_random_key x) (si_random_iv x)
                       in case get_public_key c js (se_x509 env) net user pw http of
                            (None, http) \<Rightarrow> Panics
                          | (Some (Inl err), http) \<Rightarrow> Done (Err err, http)
                          | (Some (Inr public_key), http) \<Rightarrow>
                              (case wrap_session_key c (si_rng x) public_key (session_payload c keys) of
                                 None \<Rightarrow> Panics
                               | Some (Inl err) \<Rightarrow> Done (Err err, http)
                               | Some (Inr session_b64) \<Rightarrow>
                                   (case ws_connect c (se_x509 env) net (si_ws_key x) e (hc_tls http) of
                                      (res, ctx) \<Rightarrow>
                                        Done (try_then res (\<lambda>_. Ok (keys, session_b64)), http\<lparr>hc_tls := ctx\<rparr>))))))"

definition session_handshake :: "('h, 'v, 's) hs_env \<Rightarrow> string \<Rightarrow> (unit, 'h, 's) hs_step" where
  "session_handshake he session_b64 =
     hs_bind (key_exchange he session_b64) (\<lambda>_.
     hs_bind (authenticate he) (\<lambda>_.
     if cc_receive_updates (he_cfg he) then enable_updates he else hs_lift (Ok ())))"

definition session_connected ::
  "('h, 'v, 'c, 's) sup_env \<Rightarrow> session_in \<Rightarrow> bool \<Rightarrow> ('h, 's) SessionCtx \<Rightarrow> ('h, 's) SessionCtx" where
  "session_connected env x is_reconnect cx =
     (let cx = cx_state StConnected cx;
          cx = cx_metrics (mark_connected (fst (si_connected x)) (snd (si_connected x))) cx;
          cx = (if is_reconnect
                then cx_lifecycle env EvReconnected (cx_metrics (\<lambda>m. m\<lparr>m_reconnects := m_reconnects m + 1\<rparr>) cx)
                else cx_lifecycle env EvConnected (cx_metrics (\<lambda>m. m\<lparr>m_connects := m_connects m + 1\<rparr>) cx))
      in cx\<lparr>cx_ready := ready_send (Ok ()) (cx_ready cx)\<rparr>)"

definition session_outcome :: "bool \<Rightarrow> ReadOutcome \<Rightarrow> SessionOutcome" where
  "session_outcome stopped read_outcome =
     (if stopped then OStopped
      else case read_outcome of
        RClosed close_code \<Rightarrow> ODisconnected close_code
      | RIdleTimeout \<Rightarrow> OFailed (Timeout ''no frame within the reader idle window'')
      | RFailed e \<Rightarrow> OFailed e)"

text \<open>
  The live session, until the read loop has returned and the writer has ended or run out of time;
  then the command channel is lost with it.
\<close>

definition session_live ::
  "('h, 'v, 'c, 's) sup_env \<Rightarrow> session_in \<Rightarrow> SessionKeys \<Rightarrow> SaltState \<Rightarrow> IoCommand list \<Rightarrow> ('h, 's) SessionCtx \<Rightarrow>
     (SessionResult \<times> ('h, 's) SessionCtx) task" where
  "session_live env x keys sl cmds cx =
     (case live_exec (reader_env_of env keys) (se_store env) (si_events x)
             (live_new (se_cfg env) keys sl (cx_shared cx) (cx_stopped cx) (cx_guard cx) cmds) of
        None \<Rightarrow> Running
      | Some lv \<Rightarrow>
          (case lv_outcome lv of
             None \<Rightarrow> Running
           | Some read_outcome \<Rightarrow>
               let stopped = wr_stopped (lv_writer lv)
               in Done (\<lparr>sr_outcome = session_outcome stopped read_outcome,
                         sr_cmd_rx = (if lv_ended lv then Some (lv_cmds lv) else None),
                         sr_connected_for = Some (si_elapsed x)\<rparr>,
                        cx\<lparr>cx_shared := rd_shared (lv_reader lv), cx_stopped := stopped,
                           cx_guard := rd_guard (lv_reader lv)\<rparr>)))"

definition bail :: "error \<Rightarrow> IoCommand list \<Rightarrow> SessionResult" where
  "bail e cmds = \<lparr>sr_outcome = OFailed e, sr_cmd_rx = Some cmds, sr_connected_for = None\<rparr>"

definition session_once ::
  "('h, 'v, 'c, 's) sup_env \<Rightarrow> session_in \<Rightarrow> Endpoints \<Rightarrow> bool \<Rightarrow> IoCommand list \<Rightarrow>
     HttpClient \<times> ('h, 's) SessionCtx \<Rightarrow> (SessionResult \<times> HttpClient \<times> ('h, 's) SessionCtx) task" where
  "session_once env x e is_reconnect cmds hcx =
     (let http = fst hcx; cx = snd hcx; cmds = cmds @ si_cmds x; cx = cx\<lparr>cx_stopped := cx_stopped cx \<or> si_stop x\<rparr>
      in case session_open env x e http of
           Panics \<Rightarrow> Panics
         | Running \<Rightarrow> Running
         | Done (Inl err, http) \<Rightarrow> Done (bail err cmds, http, cx)
         | Done (Inr (keys, session_b64), http) \<Rightarrow>
             (case session_handshake (hs_env_of env x keys) session_b64
                     \<lparr>hs_reads = si_reads x, hs_wire = [], hs_sent = 0, hs_salt = salt_new,
                      hs_guard = cx_guard cx, hs_shared = cx_shared cx\<rparr> of
                None \<Rightarrow> Running
              | Some (res, hs) \<Rightarrow>
                  let cx = cx\<lparr>cx_guard := hs_guard hs, cx_shared := hs_shared hs\<rparr>
                  in case res of
                       Inl err \<Rightarrow> Done (bail err cmds, http, cx)
                     | Inr _ \<Rightarrow>
                         (case session_live env x keys (hs_salt hs) cmds (session_connected env x is_reconnect cx) of
                            Panics \<Rightarrow> Panics
                          | Running \<Rightarrow> Running
                          | Done (res, cx) \<Rightarrow> Done (res, http, cx))))"

section \<open>The loop\<close>

text \<open>What a session's result leads to: the end, or another round with its attempt counter.\<close>

definition after_session ::
  "('h, 'v, 'c, 's) sup_env \<Rightarrow> session_in \<Rightarrow> SessionResult \<Rightarrow> u32 \<Rightarrow> bool \<Rightarrow> ('h, 's) SessionCtx \<Rightarrow>
     (bool \<times> u32 \<times> ('h, 's) SessionCtx) task" where
  "after_session env x res attempt ever cx =
     (case sr_outcome res of
        OStopped \<Rightarrow> Done (False, attempt, sup_finish env (Some Stopped) cx)
      | ODisconnected close_code \<Rightarrow>
          let cx = cx_metrics (mark_disconnected close_code) cx;
              cx = cx_lifecycle env (EvConnectionClosed close_code) cx;
              cx = (if \<not> token_survives_close close_code
                    then cx\<lparr>cx_shared := clear_token (se_store env) (cx_shared cx)\<rparr> else cx)
          in (case terminal_close close_code of
                Some e \<Rightarrow> Done (False, attempt, sup_finish env (Some e) cx)
              | None \<Rightarrow> wait_reconnect env x (backoff_for_close close_code) attempt cx)
      | OFailed e \<Rightarrow>
          let cx = cx_metrics (\<lambda>m. m\<lparr>m_reconnect_failures := m_reconnect_failures m + 1\<rparr>) cx
          in if is_terminal e \<or> \<not> ever then Done (False, attempt, sup_finish env (Some e) cx)
             else wait_reconnect env x (if needs_long_backoff e then Long else Normal) attempt cx)"

text \<open>A session that did real work clears the budget of attempts.\<close>

definition counted_attempt :: "SessionResult \<Rightarrow> u32 \<Rightarrow> u32" where
  "counted_attempt res attempt =
     (case sr_connected_for res of
        Some len \<Rightarrow> if from_secs PRODUCTIVE_SESSION_SECS \<le> len then 0 else attempt
      | None \<Rightarrow> attempt)"

fun supervise ::
  "('h, 'v, 'c, 's) sup_env \<Rightarrow> Endpoints \<Rightarrow> session_in list \<Rightarrow> IoCommand list option \<Rightarrow> u32 \<Rightarrow> bool \<Rightarrow>
     HttpClient \<Rightarrow> ('h, 's) SessionCtx \<Rightarrow> ('h, 's) SessionCtx task" where
  "supervise env e ins cmd_rx attempt ever http cx =
     (if cx_stopped cx then Done (sup_finish env (Some Stopped) cx)
      else if panicked (cx_guard cx) then Done (sup_finish env (Some HandlerPanic) cx)
      else
        let cx = cx_state (if ever then StReconnecting else StConnecting) cx
        in case cmd_rx of
             None \<Rightarrow> Done (sup_finish env None cx)
           | Some cmds \<Rightarrow>
               (case ins of
                  [] \<Rightarrow> Running
                | x # ins \<Rightarrow>
                    (case session_once env x e ever cmds (http, cx) of
                       Panics \<Rightarrow> Panics
                     | Running \<Rightarrow> Running
                     | Done (res, http, cx) \<Rightarrow>
                         let ever = (ever \<or> sr_connected_for res \<noteq> None);
                             attempt = counted_attempt res attempt
                         in case after_session env x res attempt ever cx of
                              Panics \<Rightarrow> Panics
                            | Running \<Rightarrow> Running
                            | Done (again, attempt, cx) \<Rightarrow>
                                if again then supervise env e ins (sr_cmd_rx res) attempt ever http cx else Done cx)))"

declare supervise.simps [simp del]

text \<open>The whole task, from the handler, the state and the stop flag \<^verbatim>\<open>connect\<close> hands over.\<close>

definition ctx_new :: "'s SharedState \<Rightarrow> bool \<Rightarrow> 'h \<Rightarrow> ('h, 's) SessionCtx" where
  "ctx_new shared stopped h =
     \<lparr>cx_shared = shared, cx_stopped = stopped, cx_guard = guard_new h, cx_ready = Unsent, cx_events = []\<rparr>"

definition run_supervisor ::
  "('h, 'v, 'c, 's) sup_env \<Rightarrow> 'u url_api \<Rightarrow> string + unit \<Rightarrow> session_in list \<Rightarrow> IoCommand list \<Rightarrow>
     's SharedState \<Rightarrow> bool \<Rightarrow> 'h \<Rightarrow> ('h, 's) SessionCtx task" where
  "run_supervisor env U versions ins cmds shared stopped h =
     (let cx = ctx_new shared stopped h;
          setup = try_then (from_loxone_url U (cc_loxone_url (se_cfg env))) (\<lambda>e.
                  try_then (tls_new versions (cc_tls (se_cfg env))) (\<lambda>tls. Ok (tls, e)))
      in case setup of
           Inl err \<Rightarrow> Done (sup_finish env (Some err) cx)
         | Inr (tls, e) \<Rightarrow> supervise env e ins (Some cmds) 0 False (http_new e tls) cx)"

section \<open>What the consumer sees\<close>

text \<open>
  Between sessions: before the first one nothing has been reported; afterwards \<^verbatim>\<open>connect\<close> has its
  answer, and the events are one \<^const>\<open>EvConnected\<close> and then reconnects and closed connections.
\<close>

definition session_event :: "ClientEvent \<Rightarrow> bool" where
  "session_event ev \<longleftrightarrow> (case ev of EvReconnected \<Rightarrow> True | EvConnectionClosed _ \<Rightarrow> True | _ \<Rightarrow> False)"

definition reported :: "bool \<Rightarrow> ready \<Rightarrow> ClientEvent list \<Rightarrow> bool" where
  "reported ever rd evs \<longleftrightarrow>
     (if ever then rd = Sent (Ok ()) \<and> evs \<noteq> [] \<and> hd evs = EvConnected \<and> list_all session_event (tl evs)
      else rd = Unsent \<and> evs = [])"

text \<open>At the end: the state is closed, one last \<^const>\<open>EvClosed\<close>, and \<^verbatim>\<open>connect\<close> has its answer.\<close>

definition ended :: "('h, 's) SessionCtx \<Rightarrow> bool" where
  "ended cx \<longleftrightarrow>
     get_state (cx_shared cx) = StClosed \<and> cx_events cx \<noteq> [] \<and> last (cx_events cx) = EvClosed \<and>
     (reported True (cx_ready cx) (butlast (cx_events cx)) \<or>
      (\<exists>e. cx_ready cx = Sent (Err e)) \<and> butlast (cx_events cx) = [])"

lemma cx_frames [simp]:
  "cx_ready (cx_state st cx) = cx_ready cx" "cx_events (cx_state st cx) = cx_events cx"
  "cx_ready (cx_metrics f cx) = cx_ready cx" "cx_events (cx_metrics f cx) = cx_events cx"
  "cx_ready (cx_lifecycle env ev cx) = cx_ready cx" "cx_events (cx_lifecycle env ev cx) = cx_events cx @ [ev]"
  "cx_shared (cx_lifecycle env ev cx) = cx_shared cx" "cx_shared (cx_state st cx) = set_state st (cx_shared cx)"
  "cx_stopped (cx_state st cx) = cx_stopped cx" "cx_guard (cx_state st cx) = cx_guard cx"
  by (simp_all add: cx_state_def cx_metrics_def cx_lifecycle_def)

lemma sup_finish_ended: "reported ever (cx_ready cx) (cx_events cx) \<Longrightarrow> ended (sup_finish env err cx)"
  by (cases ever) (auto simp: sup_finish_def ended_def reported_def ready_send_def split: option.split)

lemma session_connected_reported:
  "reported is_reconnect (cx_ready cx) (cx_events cx) \<Longrightarrow>
   reported True (cx_ready (session_connected env x is_reconnect cx)) (cx_events (session_connected env x is_reconnect cx))"
  by (auto simp: session_connected_def Let_def reported_def ready_send_def session_event_def
      split: if_splits option.split)

lemma session_live_frame:
  assumes "session_live env x keys sl cmds cx = Done (res, cx')"
  shows "cx_ready cx' = cx_ready cx \<and> cx_events cx' = cx_events cx \<and> sr_connected_for res = Some (si_elapsed x)"
  using assms by (auto simp: session_live_def Let_def split: option.splits)

text \<open>A session ends before the connection or after it; only the latter can end by a close or a stop.\<close>

lemma session_once_cases:
  assumes "session_once env x e ever cmds (http, cx) = Done (res, http', cx')"
  obtains err where "res = bail err (cmds @ si_cmds x)" "cx_ready cx' = cx_ready cx" "cx_events cx' = cx_events cx"
  | cx1 where "cx_ready cx1 = cx_ready cx" "cx_events cx1 = cx_events cx"
      "cx_ready cx' = cx_ready (session_connected env x ever cx1)"
      "cx_events cx' = cx_events (session_connected env x ever cx1)" "sr_connected_for res = Some (si_elapsed x)"
proof -
  let ?cx = "cx\<lparr>cx_stopped := cx_stopped cx \<or> si_stop x\<rparr>"
  let ?hs = "\<lparr>hs_reads = si_reads x, hs_wire = [], hs_sent = 0, hs_salt = salt_new, hs_guard = cx_guard cx, hs_shared = cx_shared cx\<rparr>"
  obtain o1 h1 where o1: "session_open env x e http = Done (o1, h1)"
    using assms by (auto simp: session_once_def Let_def split: task.splits)
  show thesis
  proof (cases o1)
    case (Inl err)
    with assms o1 that(1) show ?thesis
      by (auto simp: session_once_def Let_def)
  next
    case (Inr ks)
    obtain keys b64 where ks: "ks = (keys, b64)" by fastforce
    obtain r hs where hs: "session_handshake (hs_env_of env x keys) b64 ?hs = Some (r, hs)"
      using assms o1 Inr ks by (auto simp: session_once_def Let_def split: option.splits)
    show ?thesis
    proof (cases r)
      case (Inl err)
      with assms o1 \<open>o1 = Inr ks\<close> ks hs that(1) show ?thesis
        by (auto simp: session_once_def Let_def)
    next
      case (Inr u)
      define cx1 where "cx1 = ?cx\<lparr>cx_guard := hs_guard hs, cx_shared := hs_shared hs\<rparr>"
      have "session_live env x keys (hs_salt hs) (cmds @ si_cmds x) (session_connected env x ever cx1) = Done (res, cx')"
        using assms o1 \<open>o1 = Inr ks\<close> ks hs Inr
        by (auto simp: session_once_def Let_def cx1_def split: task.splits)
      from session_live_frame [OF this] that(2) [of cx1] show ?thesis
        by (simp add: cx1_def)
    qed
  qed
qed

lemma session_once_reported:
  assumes "session_once env x e ever cmds (http, cx) = Done (res, http', cx')" "reported ever (cx_ready cx) (cx_events cx)"
  shows "reported (ever \<or> sr_connected_for res \<noteq> None) (cx_ready cx') (cx_events cx') \<and>
    (sr_connected_for res = None \<longrightarrow> (\<exists>err. sr_outcome res = OFailed err))"
  using assms(1)
proof (cases rule: session_once_cases)
  case (2 cx1)
  with assms(2) session_connected_reported [of ever cx1 env x] show ?thesis
    by simp
qed (use assms(2) in \<open>simp add: bail_def\<close>)

lemma wait_reconnect_reported:
  assumes "wait_reconnect env x b a cx = Done (again, a', cx')" "reported True (cx_ready cx) (cx_events cx)"
  shows "if again then reported True (cx_ready cx') (cx_events cx') else ended cx'"
  using assms
  by (auto simp: wait_reconnect_def Let_def reported_def ended_def split: if_splits task.splits bool.splits)

lemma after_session_reported:
  assumes "after_session env x res a ever cx = Done (again, a', cx')" "reported ever (cx_ready cx) (cx_events cx)"
    and "\<not> ever \<Longrightarrow> \<exists>err. sr_outcome res = OFailed err"
  shows "if again then reported ever (cx_ready cx') (cx_events cx') else ended cx'"
proof (cases "sr_outcome res")
  case OStopped
  with assms show ?thesis
    by (auto simp: after_session_def intro: sup_finish_ended)
next
  case (ODisconnected code)
  then have ever using assms(3) by auto
  define cx1 where "cx1 = cx_lifecycle env (EvConnectionClosed code) (cx_metrics (mark_disconnected code) cx)"
  define cx2 where "cx2 = (if \<not> token_survives_close code
    then cx1\<lparr>cx_shared := clear_token (se_store env) (cx_shared cx1)\<rparr> else cx1)"
  have r: "reported True (cx_ready cx2) (cx_events cx2)"
    using assms(2) \<open>ever\<close> by (auto simp: cx2_def cx1_def reported_def session_event_def)
  have "(case terminal_close code of
       Some e \<Rightarrow> Done (False, a, sup_finish env (Some e) cx2)
     | None \<Rightarrow> wait_reconnect env x (backoff_for_close code) a cx2) = Done (again, a', cx')"
    using assms(1) ODisconnected unfolding after_session_def Let_def cx2_def cx1_def by simp
  with r \<open>ever\<close> show ?thesis
    by (cases "terminal_close code") (auto dest: wait_reconnect_reported intro: sup_finish_ended)
next
  case (OFailed err)
  define cx1 where "cx1 = cx_metrics (\<lambda>m. m\<lparr>m_reconnect_failures := m_reconnect_failures m + 1\<rparr>) cx"
  have r: "reported ever (cx_ready cx1) (cx_events cx1)"
    using assms(2) by (simp add: cx1_def)
  have "(if is_terminal err \<or> \<not> ever then Done (False, a, sup_finish env (Some err) cx1)
      else wait_reconnect env x (if needs_long_backoff err then Long else Normal) a cx1) = Done (again, a', cx')"
    using assms(1) OFailed unfolding after_session_def Let_def cx1_def by simp
  with r show ?thesis
    by (auto dest: wait_reconnect_reported intro: sup_finish_ended split: if_splits)
qed

text \<open>One round of the loop, at its head and after it.\<close>

lemma supervise_head:
  assumes "cx_stopped cx \<or> panicked (cx_guard cx) \<or> rx = None"
  obtains err cx1 where "supervise env e ins rx a ever http cx = Done (sup_finish env err cx1)"
    "cx_ready cx1 = cx_ready cx" "cx_events cx1 = cx_events cx"
proof -
  let ?st = "if ever then StReconnecting else StConnecting"
  consider "cx_stopped cx" | "\<not> cx_stopped cx" "panicked (cx_guard cx)"
    | "\<not> cx_stopped cx" "\<not> panicked (cx_guard cx)" "rx = None"
    using assms by blast
  then show thesis
  proof cases
    case 1 then show ?thesis by (intro that [of "Some Stopped" cx]) (simp_all add: supervise.simps [of env e ins])
  next
    case 2 then show ?thesis by (intro that [of "Some HandlerPanic" cx]) (simp_all add: supervise.simps [of env e ins])
  next
    case 3 then show ?thesis
      by (intro that [of None "cx_state ?st cx"]) (simp_all add: supervise.simps [of env e ins] Let_def)
  qed
qed

lemma supervise_round:
  assumes "\<not> (cx_stopped cx \<or> panicked (cx_guard cx) \<or> rx = None)"
  shows "supervise env e (x # ins) rx a ever http cx =
    (case session_once env x e ever (the rx) (http, cx_state (if ever then StReconnecting else StConnecting) cx) of
       Panics \<Rightarrow> Panics
     | Running \<Rightarrow> Running
     | Done (res, http, cx) \<Rightarrow>
         (case after_session env x res (counted_attempt res a) (ever \<or> sr_connected_for res \<noteq> None) cx of
            Panics \<Rightarrow> Panics
          | Running \<Rightarrow> Running
          | Done (again, a, cx) \<Rightarrow>
              if again then supervise env e ins (sr_cmd_rx res) a (ever \<or> sr_connected_for res \<noteq> None) http cx
              else Done cx))"
  using assms by (subst supervise.simps) (auto simp: Let_def split: task.split)

lemma supervise_Nil:
  "\<not> (cx_stopped cx \<or> panicked (cx_guard cx) \<or> rx = None) \<Longrightarrow> supervise env e [] rx a ever http cx = Running"
  by (subst supervise.simps) (auto simp: Let_def)

lemma supervise_ended:
  assumes "supervise env e ins rx a ever http cx = Done cx'" "reported ever (cx_ready cx) (cx_events cx)"
  shows "ended cx'"
  using assms
proof (induction ins arbitrary: rx a ever http cx)
  case Nil
  then have "cx_stopped cx \<or> panicked (cx_guard cx) \<or> rx = None"
    using supervise_Nil [of cx rx env e a ever http] by fastforce
  then show ?case
    by (rule supervise_head [of cx rx env e "[]" a ever http]) (use Nil in \<open>auto intro: sup_finish_ended\<close>)
next
  case (Cons x ins)
  show ?case
  proof (cases "cx_stopped cx \<or> panicked (cx_guard cx) \<or> rx = None")
    case True
    then show ?thesis
      by (rule supervise_head [of cx rx env e "x # ins" a ever http])
         (use Cons.prems in \<open>auto intro: sup_finish_ended\<close>)
  next
    case False
    note d = Cons.prems(1) [unfolded supervise_round [OF False]]
    then obtain res h1 cx1 where o: "session_once env x e ever (the rx)
        (http, cx_state (if ever then StReconnecting else StConnecting) cx) = Done (res, h1, cx1)"
      by (auto split: task.splits)
    let ?ever = "ever \<or> sr_connected_for res \<noteq> None"
    obtain again a2 cx2 where s: "after_session env x res (counted_attempt res a) ?ever cx1 = Done (again, a2, cx2)"
      using d o by (auto split: task.splits)
    have r1: "reported ?ever (cx_ready cx1) (cx_events cx1)" "\<not> ?ever \<Longrightarrow> \<exists>err. sr_outcome res = OFailed err"
      using session_once_reported [OF o] Cons.prems(2) by auto
    note r2 = after_session_reported [OF s r1]
    have "(if again then supervise env e ins (sr_cmd_rx res) a2 ?ever h1 cx2 else Done cx2) = Done cx'"
      using d o s by simp
    with r2 Cons.IH show ?thesis
      by (auto split: if_splits)
  qed
qed

lemma run_supervisor_ended:
  assumes "run_supervisor env U versions ins cmds shared stopped h = Done cx"
  shows "ended cx"
proof -
  have r: "reported False (cx_ready (ctx_new shared stopped h)) (cx_events (ctx_new shared stopped h))"
    by (simp add: ctx_new_def reported_def)
  show ?thesis
    using assms supervise_ended [OF _ r] sup_finish_ended [OF r]
    by (auto simp: run_supervisor_def Let_def split: sum.splits)
qed

section \<open>The budget of attempts\<close>

lemma wait_reconnect_again:
  assumes "wait_reconnect env x b a cx = Done (True, a', cx')"
  shows "a' = a + 1 \<and> should_continue a (cc_max_reconnect_attempts (se_cfg env))"
  using assms by (auto simp: wait_reconnect_def Let_def split: if_splits task.splits bool.splits)

lemma after_session_again:
  assumes "after_session env x res a ever cx = Done (True, a', cx')"
  shows "a' = a + 1 \<and> should_continue a (cc_max_reconnect_attempts (se_cfg env))"
  using assms
  by (auto simp: after_session_def Let_def dest!: wait_reconnect_again
      split: SessionOutcome.splits option.splits if_splits)

lemma session_once_unproductive:
  assumes "session_once env x e ever cmds (http, cx) = Done (res, http', cx')"
    and "si_elapsed x < from_secs PRODUCTIVE_SESSION_SECS"
  shows "counted_attempt res a = a"
  using assms(1) by (cases rule: session_once_cases) (use assms(2) in \<open>simp_all add: counted_attempt_def bail_def\<close>)

lemma unat_succ_attempt:
  fixes a m :: u32
  assumes "a < m"
  shows "unat (a + 1) = Suc (unat a) \<and> Suc (unat a) \<le> unat m"
proof -
  have "unat a < unat m" "unat m < 2 ^ 32"
    using assms unsigned_less [of m, where ?'a = nat] by (simp_all add: word_less_nat_alt)
  then show ?thesis
    by (simp add: unat_word_ariths)
qed

lemma supervise_bounded:
  assumes "\<forall>x\<in>set ins. si_elapsed x < from_secs PRODUCTIVE_SESSION_SECS"
    and "cc_max_reconnect_attempts (se_cfg env) = m" "0 < m" "a \<le> m"
  shows "supervise env e ins rx a ever http cx =
    supervise env e (take (Suc (unat m - unat a)) ins) rx a ever http cx"
  using assms
proof (induction ins arbitrary: rx a ever http cx)
  case (Cons x ins)
  show ?case
  proof (cases "cx_stopped cx \<or> panicked (cx_guard cx) \<or> rx = None")
    case True
    then show ?thesis
      by (subst (1 2) supervise.simps) (auto simp: Let_def)
  next
    case False
    have step: "supervise env e ins rx' a' ever' h cx' = supervise env e (take (unat m - unat a) ins) rx' a' ever' h cx'"
      if o: "session_once env x e ever (the rx)
          (http, cx_state (if ever then StReconnecting else StConnecting) cx) = Done (res, h, cx1)"
        and s: "after_session env x res (counted_attempt res a) ever' cx1 = Done (True, a', cx')"
      for res h cx1 ever' a' cx' rx'
    proof -
      have "counted_attempt res a = a"
        using session_once_unproductive [OF o] Cons.prems(1) by simp
      then have a': "a' = a + 1" "a < m"
        using after_session_again [OF s] Cons.prems(2,3) by (auto simp: should_continue_def)
      have m: "unat (a + 1) = Suc (unat a)" "Suc (unat a) \<le> unat m"
        using unat_succ_attempt [OF a'(2)] by auto
      then have "a + 1 \<le> m" "Suc (unat m - unat (a + 1)) = unat m - unat a"
        by (simp_all add: word_le_nat_alt)
      with Cons.IH [of "a + 1" rx' ever' h cx'] Cons.prems a' show ?thesis
        by simp
    qed
    show ?thesis
      unfolding take_Suc_Cons supervise_round [OF False]
      by (auto split: task.splits simp: step)
  qed
qed simp

text \<open>
  An input that lets a session and the wait after it come to an end, whatever the state.
\<close>

definition conclusive :: "('h, 'v, 'c, 's) sup_env \<Rightarrow> Endpoints \<Rightarrow> session_in \<Rightarrow> bool" where
  "conclusive env e x \<longleftrightarrow>
     (\<forall>ever cmds http cx. \<exists>out. session_once env x e ever cmds (http, cx) = Done out) \<and>
     (\<forall>delay\<in>{cc_connect_delay_secs (se_cfg env), cc_long_backoff_secs (se_cfg env)}.
        \<exists>(stop, now)\<in>set (si_polls x). stop \<or> si_asleep x + from_secs delay \<le> now)"

lemma sleep_ends:
  "\<exists>(stop, now)\<in>set polls. stop \<or> until \<le> now \<Longrightarrow> \<exists>b. sleep_unless_stopped until polls = Done b"
  by (induction until polls rule: sleep_unless_stopped.induct) auto

lemma wait_reconnect_ends:
  assumes "conclusive env e x"
  shows "\<exists>out. wait_reconnect env x b a cx = Done out"
proof -
  let ?delay = "case b of Normal \<Rightarrow> cc_connect_delay_secs (se_cfg env) | Long \<Rightarrow> cc_long_backoff_secs (se_cfg env)"
  have "\<exists>(stop, now)\<in>set (si_polls x). stop \<or> si_asleep x + from_secs ?delay \<le> now"
    using assms by (cases b) (simp_all add: conclusive_def)
  from sleep_ends [OF this] show ?thesis
    by (auto simp: wait_reconnect_def Let_def split: bool.split)
qed

lemma after_session_ends:
  assumes "conclusive env e x"
  shows "\<exists>out. after_session env x res a ever cx = Done out"
  using wait_reconnect_ends [OF assms]
  by (cases "sr_outcome res") (auto simp: after_session_def Let_def split: option.split)

lemma supervise_ends:
  assumes "\<forall>x\<in>set ins. si_elapsed x < from_secs PRODUCTIVE_SESSION_SECS \<and> conclusive env e x"
    and "cc_max_reconnect_attempts (se_cfg env) = m" "0 < m" "a \<le> m" "unat m - unat a < length ins"
  shows "\<exists>cx'. supervise env e ins rx a ever http cx = Done cx'"
  using assms
proof (induction ins arbitrary: rx a ever http cx)
  case (Cons x ins)
  show ?case
  proof (cases "cx_stopped cx \<or> panicked (cx_guard cx) \<or> rx = None")
    case True
    then show ?thesis
      by (rule supervise_head [of cx rx env e "x # ins" a ever http]) auto
  next
    case False
    have c: "conclusive env e x" "si_elapsed x < from_secs PRODUCTIVE_SESSION_SECS"
      using Cons.prems(1) by auto
    obtain res h cx1 where o: "session_once env x e ever (the rx)
        (http, cx_state (if ever then StReconnecting else StConnecting) cx) = Done (res, h, cx1)"
      using c(1) unfolding conclusive_def by (metis prod_cases3)
    let ?ever = "ever \<or> sr_connected_for res \<noteq> None"
    have ca: "counted_attempt res a = a"
      by (rule session_once_unproductive [OF o c(2)])
    obtain again a' cx2 where s: "after_session env x res a ?ever cx1 = Done (again, a', cx2)"
      using after_session_ends [OF c(1)] by (metis prod_cases3)
    show ?thesis
    proof (cases again)
      case True
      then have a': "a' = a + 1" "a < m"
        using after_session_again [of env x res a ?ever cx1] s Cons.prems(2,3) by (auto simp: should_continue_def)
      then have "a + 1 \<le> m" "unat m - unat (a + 1) < length ins"
        using unat_succ_attempt [OF a'(2)] Cons.prems(5) by (auto simp: word_le_nat_alt)
      then have "\<exists>cx'. supervise env e ins (sr_cmd_rx res) (a + 1) ?ever h cx2 = Done cx'"
        using Cons.prems(1-3) by (intro Cons.IH) auto
      with True o s ca a' show ?thesis
        by (simp add: supervise_round [OF False])
    qed (use o s ca in \<open>simp add: supervise_round [OF False]\<close>)
  qed
qed simp

section \<open>The key of the server\<close>

lemma preflight_keeps: "preflight env net http = (r, http') \<Longrightarrow> http_keeps http http'"
  by (auto simp: preflight_def Let_def dest!: api_info_keeps split: if_splits prod.splits sum.splits)

text \<open>The pieces of a successful opening: the public key and then the WebSocket.\<close>

lemma session_open_parts:
  assumes "session_open env x e http = Done (Ok (keys, b64), http')"
  obtains h1 h2 key ctx where "http_keeps http h1"
    "get_public_key (se_crypto env) (se_json env) (se_x509 env) (si_net x) (cc_username (se_cfg env))
       (cc_password (se_cfg env)) h1 = (Some (Ok key), h2)"
    "ws_connect (se_crypto env) (se_x509 env) (si_net x) (si_ws_key x) e (hc_tls h2) = (Ok (), ctx)"
    "http' = h2\<lparr>hc_tls := ctx\<rparr>"
proof -
  obtain u h0 where p: "preflight env (si_net x) http = (Inr u, h0)"
    using assms by (auto simp: session_open_def Let_def split: prod.splits sum.splits)
  obtain pin h1 where b: "(if needs_pin_bootstrap (hc_tls h0)
      then bootstrap_pin (se_crypto env) (se_json env) (se_x509 env) (si_net x) (cc_username (se_cfg env))
        (cc_password (se_cfg env)) h0 else (Ok [], h0)) = (pin, h1)"
    by fastforce
  have k: "http_keeps http h1"
    using preflight_keeps [OF p] b by (auto dest: bootstrap_pin_keeps intro: http_keeps_trans split: if_splits)
  note d = assms [unfolded session_open_def Let_def p prod.case sum.case b]
  then have "pin_mismatch pin = None"
    by (auto split: option.splits)
  with d obtain key h2 where g: "get_public_key (se_crypto env) (se_json env) (se_x509 env) (si_net x)
      (cc_username (se_cfg env)) (cc_password (se_cfg env)) h1 = (Some (Ok key), h2)"
    by (auto split: prod.splits option.splits sum.splits)
  obtain res ctx where w: "ws_connect (se_crypto env) (se_x509 env) (si_net x) (si_ws_key x) e (hc_tls h2) = (res, ctx)"
    by fastforce
  have "res = Ok () \<and> http' = h2\<lparr>hc_tls := ctx\<rparr>"
    using d \<open>pin_mismatch pin = None\<close> g w by (auto split: option.splits sum.splits elim!: try_then.elims)
  with k g w that show thesis
    by blast
qed

lemma session_open_keeps:
  assumes "session_open env x e http = Done (r, http')"
  shows "http_keeps http http'"
proof -
  obtain r0 h0 where p: "preflight env (si_net x) http = (r0, h0)"
    by fastforce
  obtain pin h1 where b: "(if needs_pin_bootstrap (hc_tls h0)
      then bootstrap_pin (se_crypto env) (se_json env) (se_x509 env) (si_net x) (cc_username (se_cfg env))
        (cc_password (se_cfg env)) h0 else (Ok [], h0)) = (pin, h1)"
    by fastforce
  obtain g h2 where g: "get_public_key (se_crypto env) (se_json env) (se_x509 env) (si_net x)
      (cc_username (se_cfg env)) (cc_password (se_cfg env)) h1 = (g, h2)"
    by fastforce
  obtain res ctx where w: "ws_connect (se_crypto env) (se_x509 env) (si_net x) (si_ws_key x) e (hc_tls h2) = (res, ctx)"
    by fastforce
  have "http_keeps h0 h1"
    using b by (auto dest: bootstrap_pin_keeps split: if_splits)
  with preflight_keeps [OF p] have k: "http_keeps http h0" "http_keeps http h1"
    by (blast intro: http_keeps_trans)+
  from http_keeps_trans [OF k(2) get_public_key_keeps [OF g]] have k2: "http_keeps http h2" .
  from http_keeps_trans [OF this http_keeps_tls [OF ws_connect_keeps [OF w]]]
  have k3: "http_keeps http (h2\<lparr>hc_tls := ctx\<rparr>)" .
  have "http' \<in> {h0, h1, h2, h2\<lparr>hc_tls := ctx\<rparr>}"
    using assms unfolding session_open_def Let_def p prod.case b g w
    by (auto split: sum.splits option.splits prod.splits)
  with k k2 k3 show ?thesis
    by auto
qed

section \<open>Instances\<close>

definition demo_url :: "string url_api" where
  "demo_url = \<lparr>url_parse = Inr, url_host_str = (\<lambda>u. Some ''ms.local''),
     url_scheme = (\<lambda>u. if starts_with u ''https'' then ''https'' else ''http''), url_port = (\<lambda>u. None),
     url_set_path = (\<lambda>p u. u), url_set_query = (\<lambda>q u. u), url_set_fragment = (\<lambda>f u. u), url_to_string = (\<lambda>u. u)\<rparr>"

text \<open>A network on which the Miniserver answers, and one on which it cannot be reached.\<close>

definition demo_net :: network where
  "demo_net = \<lparr>nw_tcp = (\<lambda>_. Inr ()), nw_server_name = (\<lambda>_. Inr ()), nw_presents = (\<lambda>_ _. Inr [1]),
     nw_webpki = (\<lambda>_. Inr ()), nw_signature = (\<lambda>_ _ _. Inr ()), nw_rejects = (\<lambda>_. ''refused''), nw_finishes = (\<lambda>_. Inr ()), nw_http = Inr (),
     nw_build = (\<lambda>_. Inr ()), nw_answer = (\<lambda>_. Inr (200, as_bytes ''key'')), nw_upgrade = (\<lambda>_. Inr ()),
     nw_verified_at = (\<lambda>_. 0), nw_done_at = (\<lambda>_. 1)\<rparr>"

definition demo_net_down :: network where
  "demo_net_down = demo_net\<lparr>nw_tcp := (\<lambda>_. Inl ''refused'')\<rparr>"

definition demo_sup :: "(nat, jvalue, bytes, nat) sup_env" where
  "demo_sup = \<lparr>se_zc = zc_layout, se_crypto = crypto_std,
     se_json = json_table [(''key'', JObj [(''LL'', JObj [(''value'', JStr (pem_of ''A''))])])],
     se_x509 = \<lparr>cert_from_der = Inr, load_pem_chain = (\<lambda>p. Inr [p]), spki_to_der = Inr\<rparr>,
     se_handler = default_handler, se_store = demo_store,
     se_cfg = (connect_config_new ''https://ms.local'' ''admin'' ''pw'')
       \<lparr>cc_tls := Pinned [1], cc_receive_updates := False, cc_max_reconnect_attempts := 2\<rparr>,
     se_rtt = (\<lambda>_. 0)\<rparr>"

definition demo_session :: "network \<Rightarrow> session_in" where
  "demo_session net = \<lparr>si_random_key = replicate 32 7, si_random_iv = replicate 16 9, si_rng = [], si_net = net,
     si_ws_key = ''key'', si_reads = [], si_readings = (\<lambda>_. demo_readings), si_write = (\<lambda>_. None),
     si_now = Some 1700000000, si_cmds = [], si_stop = False, si_connected = (0, 0), si_events = [], si_elapsed = 0,
     si_asleep = 0, si_polls = [(True, 0)], si_stop_then = False\<rparr>"

definition demo_endpoints :: Endpoints where
  "demo_endpoints = \<lparr>ep_http_base = ''https://ms.local'', ep_ws_url = ''wss://ms.local:443/ws/rfc6455'',
     ep_host = ''ms.local'', ep_port = 443, ep_use_tls = True\<rparr>"

definition demo_tls :: TlsContext where
  "demo_tls = \<lparr>tls_mode = Pinned [1], tls_pin = Some [1], tls_verifier = SpkiPinVerifier False\<rparr>"

lemma demo_tls_new: "tls_new (Inr ()) (Pinned [1]) = Ok demo_tls"
  by (simp add: tls_new_def demo_tls_def)

lemma demo_from_url: "from_loxone_url demo_url (cc_loxone_url (se_cfg demo_sup)) = Ok demo_endpoints"
  by code_simp

lemma demo_open_down: "\<exists>err http'. session_open demo_sup (demo_session demo_net_down) e http = Done (Err err, http')"
  by (simp add: session_open_def preflight_def demo_sup_def demo_session_def demo_net_down_def demo_net_def api_info_def
      fetch_api_info_def get_ll_def http_get_def get_inner_def get_public_key_def bootstrap_pin_def get_certificate_def
      pin_mismatch_def Let_def)

lemma demo_key: "normalize_public_key_pem (pem_of ''A'') = Some (pem_of ''A'')" "pem_of ''A'' \<noteq> []"
proof -
  have w: "wrapped_body [CHR 0x0A, CHR ''A'', CHR 0x0A]" "filter body_char [CHR 0x0A, CHR ''A'', CHR 0x0A] = ''A''"
    by (simp_all add: wrapped_body_def body_char_def line_break_def ascii_graphic_def)
  have p: "pem_of ''A'' = PEM_BEGIN @ [CHR 0x0A, CHR ''A'', CHR 0x0A] @ PEM_END @ [CHR 0x0A]"
    by (simp add: pem_of_def chunks_of.simps)
  from normalize_markers [OF w(1), of "[CHR 0x0A]" PEM_BEGIN PEM_END] w(2) p
  show "normalize_public_key_pem (pem_of ''A'') = Some (pem_of ''A'')"
    by (simp add: line_break_def)
  show "pem_of ''A'' \<noteq> []"
    by (simp add: p)
qed

lemma demo_public_key:
  "hc_tls h = demo_tls \<Longrightarrow> hc_use_tls h \<Longrightarrow>
   get_public_key crypto_std (se_json demo_sup) (se_x509 demo_sup) demo_net user pw h = (Some (Ok (pem_of ''A'')), h)"
  by (auto simp: get_public_key_def get_ll_def http_get_def get_inner_def tls_connect_def verify_connection_def
      pin_verify_server_cert_def spki_sha256_def spki_sha256_of_def verify_signature_def demo_net_def demo_sup_def demo_tls_def demo_key
      json_table_def str_member_def crypto_std_def Let_def ok_or_def from_secs_def TIMEOUT_SECS_def)

lemma demo_wrap: "\<exists>b64. wrap_session_key crypto_std rng (pem_of ''A'') payload = Some (Ok b64)"
  by (simp add: wrap_session_key_def import_public_key_def demo_key crypto_std_def)

lemma demo_ws: "ws_connect crypto_std (se_x509 demo_sup) demo_net key demo_endpoints demo_tls = (Ok (), demo_tls)"
  by (simp add: ws_connect_def tls_connect_def verify_connection_def pin_verify_server_cert_def spki_sha256_def
      spki_sha256_of_def verify_signature_def demo_net_def demo_sup_def demo_tls_def demo_endpoints_def crypto_std_def Let_def)

lemma demo_open:
  "\<exists>keys b64 http'. session_open demo_sup (demo_session demo_net) demo_endpoints (http_new demo_endpoints demo_tls) =
    Done (Ok (keys, b64), http')"
proof -
  let ?h = "http_new demo_endpoints demo_tls"
  have h: "hc_tls ?h = demo_tls" "hc_use_tls ?h"
    by (simp_all add: http_new_def demo_endpoints_def)
  obtain b64 where "wrap_session_key crypto_std [] (pem_of ''A'')
      (session_payload crypto_std (generate crypto_std (replicate 32 7) (replicate 16 9))) = Some (Ok b64)"
    using demo_wrap by blast
  moreover have "se_crypto demo_sup = crypto_std" "\<not> needs_pin_bootstrap demo_tls"
    "preflight demo_sup net http = (Ok (), http)" for net http
    by (simp_all add: demo_sup_def needs_pin_bootstrap_def pinned_spki_def demo_tls_def preflight_def
        connect_config_new_def Let_def)
  ultimately show ?thesis
    using demo_public_key [OF h] demo_ws
    by (simp add: session_open_def Let_def demo_session_def h pin_mismatch_def)
qed

lemma demo_down_conclusive: "conclusive demo_sup e (demo_session demo_net_down)"
proof -
  have "\<exists>out. session_once demo_sup (demo_session demo_net_down) e ever cmds (http, cx) = Done out" for ever cmds http cx
    using demo_open_down [of e http] by (auto simp: session_once_def Let_def)
  then show ?thesis
    by (simp add: conclusive_def demo_session_def)
qed

section \<open>Properties\<close>

text \<open>
  C6: The task ends in one way: the state is closed, the last event is \<^verbatim>\<open>Closed\<close> and the only one of
  its kind, and the caller of \<^verbatim>\<open>connect\<close> has an answer. If that is success, the first event was
  \<^verbatim>\<open>Connected\<close>, raised once; otherwise nothing but \<^verbatim>\<open>Closed\<close> was ever raised.
\<close>

theorem supervisor_reports_end:
  assumes "run_supervisor env U versions ins cmds shared stopped h = Done cx"
  shows "get_state (cx_shared cx) = StClosed \<and>
    (cx_ready cx = Sent (Ok ()) \<and>
       (\<exists>evs. cx_events cx = EvConnected # evs @ [EvClosed] \<and> EvConnected \<notin> set evs \<and> EvClosed \<notin> set evs) \<or>
     (\<exists>e. cx_ready cx = Sent (Err e)) \<and> cx_events cx = [EvClosed])"
proof -
  have "ended cx"
    by (rule run_supervisor_ended [OF assms])
  moreover have "EvConnected \<notin> set evs \<and> EvClosed \<notin> set evs" if "list_all session_event evs" for evs
    using that by (auto simp: list_all_iff session_event_def)
  moreover have "\<exists>a evs. cx_events cx = a # evs @ [EvClosed] \<and> butlast (cx_events cx) = a # evs"
    if "butlast (cx_events cx) \<noteq> []" "last (cx_events cx) = EvClosed"
    using that by (metis append_butlast_last_id append_Cons butlast.simps(1) list.exhaust)
  moreover have "cx_events cx = [EvClosed]" if "butlast (cx_events cx) = []" "cx_events cx \<noteq> []" "last (cx_events cx) = EvClosed"
    using that by (metis append_butlast_last_id append_Nil)
  ultimately show ?thesis
    unfolding ended_def reported_def by force
qed

theorem supervisor_reports_end_witness:
  "\<exists>cx. run_supervisor demo_sup demo_url (Inr ()) [] [] (shared_new 0) True 0 = Done cx \<and>
     get_state (cx_shared cx) = StClosed"
proof -
  obtain cx where cx: "run_supervisor demo_sup demo_url (Inr ()) [] [] (shared_new 0) True 0 = Done cx"
    using demo_from_url demo_tls_new
    by (simp add: run_supervisor_def demo_sup_def supervise.simps ctx_new_def)
  from supervisor_reports_end [OF cx] cx show ?thesis
    by blast
qed

text \<open>
  C7: With a bound on the reconnects, the client does not go on for ever on a Miniserver it cannot
  work with: if no session lasts long enough to be productive, no input after the first
  max + 1 sessions matters, and if these sessions and the waits after them end, the task ends.
\<close>

theorem reconnects_bounded:
  assumes "\<forall>x\<in>set ins. si_elapsed x < from_secs PRODUCTIVE_SESSION_SECS"
    and "cc_max_reconnect_attempts (se_cfg env) = m" and "0 < m"
  shows "run_supervisor env U versions ins cmds shared stopped h =
      run_supervisor env U versions (take (unat m + 1) ins) cmds shared stopped h \<and>
    (unat m < length ins \<and> (\<forall>e. \<forall>x\<in>set ins. conclusive env e x) \<longrightarrow>
      (\<exists>cx. run_supervisor env U versions ins cmds shared stopped h = Done cx))"
proof -
  let ?cx = "ctx_new shared stopped h"
  have b: "supervise env e ins rx 0 ever http ?cx = supervise env e (take (unat m + 1) ins) rx 0 ever http ?cx"
    for e rx ever http
    using supervise_bounded [OF assms, of 0] by simp
  have "\<exists>cx'. supervise env e ins rx 0 ever http ?cx = Done cx'"
    if "unat m < length ins" "\<forall>e. \<forall>x\<in>set ins. conclusive env e x" for e rx ever http
    using that assms by (intro supervise_ends [where m = m]) auto
  then show ?thesis
    unfolding run_supervisor_def Let_def b by (auto split: sum.split prod.split)
qed

theorem reconnects_bounded_witness:
  "\<exists>cx. run_supervisor demo_sup demo_url (Inr ()) (replicate 4 (demo_session demo_net_down)) [] (shared_new 0) False 0 = Done cx"
proof -
  have "si_elapsed (demo_session demo_net_down) = 0" "cc_max_reconnect_attempts (se_cfg demo_sup) = 2"
    by (simp_all add: demo_session_def demo_sup_def)
  then show ?thesis
    using demo_down_conclusive
    by (intro conjunct2 [OF reconnects_bounded [where m = 2], THEN mp])
       (auto simp: from_secs_def PRODUCTIVE_SESSION_SECS_def)
qed

text \<open>
  C5: In a pinning mode over TLS a session talks to one server: if its keys were wrapped and the
  WebSocket is open, the server that handed out the public key and the server at the other end of
  the WebSocket presented the same key, the pinned one, and signed with it, whatever connections the client made
  before.
\<close>

theorem session_server_pinned:
  assumes "tls_new versions md = Ok tls" and "pins md" and "ep_use_tls e"
    and "http_keeps (http_new e tls) http"
    and "session_open env x e http = Done (Ok (keys, session_b64), http')"
  shows "\<exists>pin. tls_pin (hc_tls http') = Some pin \<and> (tls_pin (hc_tls http) \<noteq> None \<longrightarrow> tls_pin (hc_tls http) = Some pin) \<and>
    (\<forall>p. md = Pinned p \<longrightarrow> pin = p) \<and>
    (\<forall>uri\<in>{''/'' @ CMD_GET_PUBLIC_KEY, ''/ws/rfc6455''}. \<exists>der.
       nw_presents (si_net x) uri (ep_host e) = Inr der \<and> nw_signature (si_net x) uri (ep_host e) der = Inr () \<and>
       spki_sha256 (se_crypto env) (se_x509 env) der = Ok pin)"
proof -
  obtain h1 h2 key ctx where p: "http_keeps http h1"
    "get_public_key (se_crypto env) (se_json env) (se_x509 env) (si_net x) (cc_username (se_cfg env))
       (cc_password (se_cfg env)) h1 = (Some (Ok key), h2)"
    "ws_connect (se_crypto env) (se_x509 env) (si_net x) (si_ws_key x) e (hc_tls h2) = (Ok (), ctx)"
    "http' = h2\<lparr>hc_tls := ctx\<rparr>"
    using assms(5) by (rule session_open_parts)
  have k: "http_keeps (http_new e tls) h1" "http_keeps h1 h2" "keeps_pin (hc_tls h2) ctx"
    using assms(4) p(1) get_public_key_keeps [OF p(2)] ws_connect_keeps [OF p(3)] by (auto intro: http_keeps_trans)
  have h: "hc_tls (http_new e tls) = tls" "hc_use_tls h1" "hc_host h1 = ep_host e"
    using k(1) assms(3) by (auto simp: http_keeps_def http_new_def Let_def)
  have w: "wf_tls tls" "tls_mode tls = md"
    using wf_tls_new [OF assms(1)] by auto
  have w1: "wf_tls (hc_tls h1)" "pins (tls_mode (hc_tls h1))" "wf_tls (hc_tls h2)" "pins (tls_mode (hc_tls h2))"
    "wf_tls ctx" "tls_mode ctx = md"
    using k h(1) w assms(2) by (auto simp: http_keeps_def keeps_pin_def)
  have a: "presents_pin (se_crypto env) (se_x509 env) (si_net x) (''/'' @ CMD_GET_PUBLIC_KEY) (ep_host e) ctx"
    using presents_pin_keeps [OF get_public_key_pinned [OF p(2) w1(1,2) h(2)] k(3)] h(3) by simp
  have b: "presents_pin (se_crypto env) (se_x509 env) (si_net x) ''/ws/rfc6455'' (ep_host e) ctx"
    by (rule ws_connect_pinned [OF p(3) w1(3,4) assms(3)])
  have c: "tls_pin ctx = tls_pin (hc_tls http)" if "tls_pin (hc_tls http) \<noteq> None"
    using p(1) k(2,3) that unfolding http_keeps_def keeps_pin_def by metis
  have d: "tls_pin ctx = Some q" if "md = Pinned q" for q
    using w1(5,6) that by (simp add: wf_tls_def)
  from a b c d show ?thesis
    by (auto simp: presents_pin_def p(4))
qed

theorem session_server_pinned_witness:
  "\<exists>out pin. session_open demo_sup (demo_session demo_net) demo_endpoints (http_new demo_endpoints demo_tls) = Done out \<and>
     tls_pin (hc_tls (snd out)) = Some pin \<and> pin = [1]"
proof -
  obtain keys b64 h where o: "session_open demo_sup (demo_session demo_net) demo_endpoints
      (http_new demo_endpoints demo_tls) = Done (Ok (keys, b64), h)"
    using demo_open by blast
  have "ep_use_tls demo_endpoints"
    by (simp add: demo_endpoints_def)
  from session_server_pinned [OF demo_tls_new _ this http_keeps_refl o] o show ?thesis
    by auto
qed



text \<open>
  C40: An established session that ends without a close frame is not reported: no \<^verbatim>\<open>ConnectionClosed\<close> is
  raised, the disconnect is not counted, and the metrics keep the time of the connect. After a
  close frame all three happen.
\<close>

theorem failed_session_silent:
  assumes "after_session env x res a True cx = Done (True, a', cx')"
  shows "(\<forall>err. sr_outcome res = OFailed err \<longrightarrow>
      cx_events cx' = cx_events cx \<and>
      m_disconnects (ss_metrics (cx_shared cx')) = m_disconnects (ss_metrics (cx_shared cx)) \<and>
      connected_since (ss_metrics (cx_shared cx')) = connected_since (ss_metrics (cx_shared cx))) \<and>
    (\<forall>code. sr_outcome res = ODisconnected code \<longrightarrow>
      cx_events cx' = cx_events cx @ [EvConnectionClosed code] \<and>
      m_disconnects (ss_metrics (cx_shared cx')) = m_disconnects (ss_metrics (cx_shared cx)) + 1 \<and>
      connected_since (ss_metrics (cx_shared cx')) = (None, None))"
proof -
  have w: "cx_events cx2 = cx_events cx1 \<and>
      m_disconnects (ss_metrics (cx_shared cx2)) = m_disconnects (ss_metrics (cx_shared cx1)) \<and>
      connected_since (ss_metrics (cx_shared cx2)) = connected_since (ss_metrics (cx_shared cx1))"
    if "wait_reconnect env x b a cx1 = Done (True, a', cx2)" for b cx1 cx2
    using that by (auto simp: wait_reconnect_def Let_def cx_metrics_def cx_state_def set_state_def
        split: if_splits task.splits bool.splits)
  show ?thesis
    using assms
    by (auto simp: after_session_def Let_def cx_metrics_def cx_lifecycle_def mark_disconnected_def clear_token_def
        dest!: w split: if_splits option.splits)
qed

theorem failed_session_silent_witness:
  "\<exists>a cx. after_session demo_sup ((demo_session demo_net)\<lparr>si_polls := [(False, from_secs 15)]\<rparr>)
       \<lparr>sr_outcome = OFailed (Timeout ''idle''), sr_cmd_rx = Some [], sr_connected_for = Some 0\<rparr> 0 True
       (ctx_new (shared_new 0) False 0) = Done (True, a, cx) \<and> cx_events cx = []"
proof -
  let ?x = "(demo_session demo_net)\<lparr>si_polls := [(False, from_secs 15)]\<rparr>"
  let ?res = "\<lparr>sr_outcome = OFailed (Timeout ''idle''), sr_cmd_rx = Some [], sr_connected_for = Some 0\<rparr>"
  let ?cx = "ctx_new (shared_new 0) False 0 :: (nat, nat) SessionCtx"
  have "cc_max_reconnect_attempts (se_cfg demo_sup) = 2" "cc_connect_delay_secs (se_cfg demo_sup) = 15" "si_asleep ?x = 0"
    by (simp_all add: demo_sup_def connect_config_new_def CONNECT_DELAY_SECS_def demo_session_def)
  then obtain a cx where r: "after_session demo_sup ?x ?res 0 True ?cx = Done (True, a, cx)"
    by (simp add: after_session_def wait_reconnect_def should_continue_def is_terminal_iff needs_long_backoff_iff Let_def)
  from failed_session_silent [OF r] have "cx_events cx = []"
    by (simp add: ctx_new_def)
  with r show ?thesis
    by blast
qed

end
