(* ===== verification/Lox_Client.thy ===== *)
theory Lox_Client
  imports Lox_Supervisor
begin

text \<open>
  The client itself (\<^verbatim>\<open>LoxClient\<close> of \<^verbatim>\<open>src/src/client/mod.rs\<close>): connecting, sending commands and
  controls into the bounded command channel, asking for the token's validity, stopping and being
  dropped. What happens on the other side is an argument: the answer on a oneshot (\<^const>\<open>None\<close>: its
  sender is gone), the outcome of joining the task. A send that waits for room is \<^const>\<open>Running\<close>.
\<close>

section \<open>The command channel\<close>

record mpsc =
  mc_queue :: "IoCommand list"
  mc_depth :: nat
  mc_closed :: bool

definition mpsc_channel :: "nat \<Rightarrow> mpsc" where
  "mpsc_channel depth = \<lparr>mc_queue = [], mc_depth = depth, mc_closed = False\<rparr>"

datatype try_send_error = ChannelFull | ChannelGone

definition mpsc_try_send :: "IoCommand \<Rightarrow> mpsc \<Rightarrow> (try_send_error + unit) \<times> mpsc" where
  "mpsc_try_send cmd ch =
     (if mc_closed ch then (Inl ChannelGone, ch)
      else if length (mc_queue ch) < mc_depth ch then (Inr (), ch\<lparr>mc_queue := mc_queue ch @ [cmd]\<rparr>)
      else (Inl ChannelFull, ch))"

definition mpsc_send :: "IoCommand \<Rightarrow> mpsc \<Rightarrow> ((unit + unit) \<times> mpsc) task" where
  "mpsc_send cmd ch =
     (case mpsc_try_send cmd ch of
        (Inr _, ch) \<Rightarrow> Done (Inr (), ch)
      | (Inl ChannelGone, ch) \<Rightarrow> Done (Inl (), ch)
      | (Inl ChannelFull, ch) \<Rightarrow> Running)"

section \<open>The client\<close>

record 's LoxClient =
  lc_cmd_tx :: mpsc
  lc_shared :: "'s SharedState"
  lc_stopped :: bool
  lc_username :: string
  lc_join :: bool

text \<open>The state a client starts with, restored from its token store if there is one.\<close>

definition connect_shared ::
  "crypto \<Rightarrow> 's store_api \<Rightarrow> u64 option \<Rightarrow> ConnectConfig \<Rightarrow> 's \<Rightarrow> 's SharedState" where
  "connect_shared c api now cfg store =
     (if cc_token_store cfg then
        let binding = token_binding c (cc_loxone_url cfg) (cc_username cfg) (cc_client_uuid cfg)
        in restore_token api now (with_token_store store binding)
      else shared_new store)"

text \<open>
  What \<^verbatim>\<open>connect\<close> returns, and the stop flag it leaves behind, for the answer on the ready channel.
  The channel and the state are those the task shares by then.
\<close>

definition connect_answer ::
  "ConnectConfig \<Rightarrow> unit result option \<Rightarrow> mpsc \<Rightarrow> 's SharedState \<Rightarrow> 's LoxClient result \<times> bool" where
  "connect_answer cfg ready cmd_tx shared =
     (case ready of
        Some (Inr _) \<Rightarrow>
          (Ok \<lparr>lc_cmd_tx = cmd_tx, lc_shared = shared, lc_stopped = False, lc_username = cc_username cfg,
               lc_join = True\<rparr>, False)
      | Some (Inl e) \<Rightarrow> (Err e, True)
      | None \<Rightarrow> (Err (WebSocket ''IO task exited before ready''), True))"

text \<open>The whole of \<^verbatim>\<open>connect\<close> where its task has ended by the time the answer is read.\<close>

definition connect ::
  "('h, 'v, 'c, 's) sup_env \<Rightarrow> 'u url_api \<Rightarrow> string + unit \<Rightarrow> session_in list \<Rightarrow> u64 option \<Rightarrow> 's \<Rightarrow> 'h \<Rightarrow>
     ('s LoxClient result \<times> bool) task" where
  "connect env U versions ins now store h =
     (let cfg = se_cfg env;
          shared = connect_shared (se_crypto env) (se_store env) now cfg store;
          ch = mpsc_channel (max (cc_command_channel_depth cfg) 1)
      in case run_supervisor env U versions ins [] shared False h of
           Panics \<Rightarrow> Done (connect_answer cfg None (ch\<lparr>mc_closed := True\<rparr>) shared)
         | Running \<Rightarrow> Running
         | Done cx \<Rightarrow>
             Done (connect_answer cfg (case cx_ready cx of Unsent \<Rightarrow> None | Sent r \<Rightarrow> Some r)
                     (ch\<lparr>mc_closed := True\<rparr>) (cx_shared cx)))"

definition client_state :: "'s LoxClient \<Rightarrow> ConnState" where
  "client_state cl = get_state (lc_shared cl)"

definition live :: "'s LoxClient \<Rightarrow> bool" where
  "live cl \<longleftrightarrow> client_state cl = StConnected"

definition client_count :: "(MetricsState \<Rightarrow> MetricsState) \<Rightarrow> 's LoxClient \<Rightarrow> 's LoxClient" where
  "client_count f cl = cl\<lparr>lc_shared := (lc_shared cl)\<lparr>ss_metrics := f (ss_metrics (lc_shared cl))\<rparr>\<rparr>"

definition require_live :: "'s LoxClient \<Rightarrow> unit result \<times> 's LoxClient" where
  "require_live cl =
     (if live cl then (Ok (), cl)
      else (Err NotConnected,
            client_count (\<lambda>m. m\<lparr>m_controls_rejected_offline := m_controls_rejected_offline m + 1\<rparr>) cl))"

definition client_send :: "IoCommand \<Rightarrow> 's LoxClient \<Rightarrow> (unit result \<times> 's LoxClient) task" where
  "client_send cmd cl =
     (case mpsc_send cmd (lc_cmd_tx cl) of
        Panics \<Rightarrow> Panics
      | Running \<Rightarrow> Running
      | Done (res, ch) \<Rightarrow> Done (map_err (\<lambda>_. ChannelClosed) res, cl\<lparr>lc_cmd_tx := ch\<rparr>))"

definition send_command ::
  "waiter \<Rightarrow> bytes result option \<Rightarrow> string \<Rightarrow> 's LoxClient \<Rightarrow> (bytes result \<times> 's LoxClient) task" where
  "send_command tx rx cmd cl =
     (case client_send (IoEncrypted cmd tx) cl of
        Panics \<Rightarrow> Panics
      | Running \<Rightarrow> Running
      | Done (res, cl) \<Rightarrow>
          Done (try_then res (\<lambda>_. case rx of None \<Rightarrow> Err ChannelClosed | Some r \<Rightarrow> r), cl))"

definition send_live :: "IoCommand \<Rightarrow> 's LoxClient \<Rightarrow> (unit result \<times> 's LoxClient) task" where
  "send_live cmd cl =
     (case require_live cl of
        (Inl e, cl) \<Rightarrow> Done (Err e, cl)
      | (Inr _, cl) \<Rightarrow> client_send cmd cl)"

definition send_control :: "string \<Rightarrow> string \<Rightarrow> 's LoxClient \<Rightarrow> (unit result \<times> 's LoxClient) task" where
  "send_control uuid val = send_live (IoControl uuid val)"

definition send_visu_control :: "string \<Rightarrow> string \<Rightarrow> string \<Rightarrow> 's LoxClient \<Rightarrow> (unit result \<times> 's LoxClient) task" where
  "send_visu_control uuid val pw = send_live (IoVisuControl uuid val pw)"

definition try_send_control :: "string \<Rightarrow> string \<Rightarrow> 's LoxClient \<Rightarrow> unit result \<times> 's LoxClient" where
  "try_send_control uuid val cl =
     (case require_live cl of
        (Inl e, cl) \<Rightarrow> (Err e, cl)
      | (Inr _, cl) \<Rightarrow>
          (case mpsc_try_send (IoControl uuid val) (lc_cmd_tx cl) of
             (Inr _, ch) \<Rightarrow> (Ok (), cl\<lparr>lc_cmd_tx := ch\<rparr>)
           | (Inl ChannelFull, ch) \<Rightarrow>
               (Err Backpressure,
                client_count (\<lambda>m. m\<lparr>m_controls_rejected_backpressure := m_controls_rejected_backpressure m + 1\<rparr>) cl)
           | (Inl ChannelGone, ch) \<Rightarrow> (Err ChannelClosed, cl)))"

text \<open>The two oneshots of the token check: a waiter and the answer it gets.\<close>

definition check_token ::
  "crypto \<Rightarrow> 'v json \<Rightarrow> waiter \<times> bytes result option \<Rightarrow> waiter \<times> bytes result option \<Rightarrow> 's LoxClient \<Rightarrow>
     (bool result \<times> 's LoxClient) task" where
  "check_token c js key_rx resp_rx cl =
     (let tok = ss_token (lc_shared cl)
      in if token_is_empty tok then Done (Ok False, cl)
         else case send_command (fst key_rx) (snd key_rx) CMD_GET_KEY cl of
           Panics \<Rightarrow> Panics
         | Running \<Rightarrow> Running
         | Done (Inl e, cl) \<Rightarrow> Done (Err e, cl)
         | Done (Inr key_resp, cl) \<Rightarrow>
             (case build_token_hash c js key_resp tok of
                Inl e \<Rightarrow> Done (Err e, cl)
              | Inr hash \<Rightarrow>
                  (case send_command (fst resp_rx) (snd resp_rx) (cmd_check_token hash (lc_username cl)) cl of
                     Panics \<Rightarrow> Panics
                   | Running \<Rightarrow> Running
                   | Done (res, cl) \<Rightarrow>
                       Done (try_then res (\<lambda>resp. Ok (payload_ll_status js resp = Some ''200'')), cl))))"

definition client_metrics :: "'s LoxClient \<Rightarrow> LoxMetrics" where
  "client_metrics cl =
     snapshot (get_state (lc_shared cl)) (token_valid_until (lc_shared cl)) (ss_metrics (lc_shared cl))"

text \<open>Joining the task: it is done, it panicked with a text, or it took too long.\<close>

datatype joined = JoinDone | JoinPanicked string | JoinTimeout

definition client_stop :: "joined \<Rightarrow> 's LoxClient \<Rightarrow> (unit result \<times> 's LoxClient) task" where
  "client_stop j cl =
     (let cl = cl\<lparr>lc_stopped := True\<rparr>
      in case client_send IoStop cl of
           Panics \<Rightarrow> Panics
         | Running \<Rightarrow> Running
         | Done (_, cl) \<Rightarrow>
             if \<not> lc_join cl then Done (Ok (), cl)
             else Done (case j of
                          JoinDone \<Rightarrow> Ok ()
                        | JoinPanicked e \<Rightarrow> Err (WebSocket (''IO task join: '' @ e))
                        | JoinTimeout \<Rightarrow> Err (Timeout ''IO task did not stop in time''), cl\<lparr>lc_join := False\<rparr>))"

text \<open>
  What a drop leaves behind: nothing to do, the stop queued, a task that will queue it when there
  is room, or the aborted task.
\<close>

datatype drop_effect = DropNothing | DropQueued | DropSpawned | DropAborted

definition client_drop :: "bool \<Rightarrow> 's LoxClient \<Rightarrow> drop_effect \<times> 's LoxClient" where
  "client_drop has_runtime cl =
     (if \<not> lc_join cl then (DropNothing, cl)
      else
        let cl = cl\<lparr>lc_join := False, lc_stopped := True\<rparr>
        in case mpsc_try_send IoStop (lc_cmd_tx cl) of
             (Inr _, ch) \<Rightarrow> (DropQueued, cl\<lparr>lc_cmd_tx := ch\<rparr>)
           | (Inl _, _) \<Rightarrow> (if has_runtime then DropSpawned else DropAborted, cl))"

section \<open>Controls\<close>

text \<open>
  A history of a client's controls: one is tried, the state changes, the writer takes the oldest
  command, or the channel is closed, which drops what it holds. The run gives the results of the
  tries and the commands that left the channel.
\<close>

datatype control_event = TryControl string string | StateChanged ConnState | CommandTaken | ChannelDropped

fun controls_run ::
  "control_event list \<Rightarrow> 's LoxClient \<Rightarrow> (IoCommand \<times> unit result) list \<times> IoCommand list \<times> 's LoxClient" where
  "controls_run [] cl = ([], [], cl)"
| "controls_run (TryControl uuid val # es) cl =
     (case try_send_control uuid val cl of
        (res, cl) \<Rightarrow> (case controls_run es cl of (rs, gone, cl) \<Rightarrow> ((IoControl uuid val, res) # rs, gone, cl)))"
| "controls_run (StateChanged st # es) cl = controls_run es (cl\<lparr>lc_shared := set_state st (lc_shared cl)\<rparr>)"
| "controls_run (CommandTaken # es) cl =
     (case mc_queue (lc_cmd_tx cl) of
        [] \<Rightarrow> controls_run es cl
      | cmd # cmds \<Rightarrow>
          (case controls_run es (cl\<lparr>lc_cmd_tx := (lc_cmd_tx cl)\<lparr>mc_queue := cmds\<rparr>\<rparr>) of
             (rs, gone, cl) \<Rightarrow> (rs, cmd # gone, cl)))"
| "controls_run (ChannelDropped # es) cl =
     (case controls_run es (cl\<lparr>lc_cmd_tx := (lc_cmd_tx cl)\<lparr>mc_queue := [], mc_closed := True\<rparr>\<rparr>) of
        (rs, gone, cl') \<Rightarrow> (rs, mc_queue (lc_cmd_tx cl) @ gone, cl'))"

definition accepted :: "(IoCommand \<times> unit result) list \<Rightarrow> IoCommand list" where
  "accepted rs = map fst (filter (\<lambda>r. snd r = Ok ()) rs)"

definition refusals :: "error \<Rightarrow> (IoCommand \<times> unit result) list \<Rightarrow> nat" where
  "refusals e rs = length (filter (\<lambda>r. snd r = Err e) rs)"

abbreviation client_rejected :: "'s LoxClient \<Rightarrow> u64 \<times> u64" where
  "client_rejected cl \<equiv>
     (m_controls_rejected_offline (ss_metrics (lc_shared cl)), m_controls_rejected_backpressure (ss_metrics (lc_shared cl)))"

lemma accepted_simps [simp]:
  "accepted [] = []" "accepted ((cmd, res) # rs) = (if res = Ok () then cmd # accepted rs else accepted rs)"
  "refusals e [] = 0" "refusals e ((cmd, res) # rs) = (if res = Err e then 1 + refusals e rs else refusals e rs)"
  by (simp_all add: accepted_def refusals_def)

text \<open>One try: accepted into the queue, or refused with the counter of its reason.\<close>

lemma try_send_control_cases:
  assumes "try_send_control uuid val cl = (res, cl')"
  obtains "res = Ok ()" "live cl" "length (mc_queue (lc_cmd_tx cl)) < mc_depth (lc_cmd_tx cl)"
      "cl' = cl\<lparr>lc_cmd_tx := (lc_cmd_tx cl)\<lparr>mc_queue := mc_queue (lc_cmd_tx cl) @ [IoControl uuid val]\<rparr>\<rparr>"
  | "res = Err NotConnected" "\<not> live cl"
      "cl' = client_count (\<lambda>m. m\<lparr>m_controls_rejected_offline := m_controls_rejected_offline m + 1\<rparr>) cl"
  | "res = Err Backpressure" "live cl" "mc_depth (lc_cmd_tx cl) \<le> length (mc_queue (lc_cmd_tx cl))"
      "cl' = client_count (\<lambda>m. m\<lparr>m_controls_rejected_backpressure := m_controls_rejected_backpressure m + 1\<rparr>) cl"
  | "res = Err ChannelClosed" "live cl" "mc_closed (lc_cmd_tx cl)" "cl' = cl"
proof -
  note d = assms [unfolded try_send_control_def require_live_def mpsc_try_send_def]
  consider "\<not> live cl" | "live cl" "mc_closed (lc_cmd_tx cl)"
    | "live cl" "\<not> mc_closed (lc_cmd_tx cl)" "length (mc_queue (lc_cmd_tx cl)) < mc_depth (lc_cmd_tx cl)"
    | "live cl" "\<not> mc_closed (lc_cmd_tx cl)" "mc_depth (lc_cmd_tx cl) \<le> length (mc_queue (lc_cmd_tx cl))"
    by linarith
  then show thesis
  proof cases
    case 1 with d show ?thesis by (intro that(2)) simp_all
  next
    case 2 with d show ?thesis by (intro that(4)) simp_all
  next
    case 3 with d show ?thesis by (intro that(1)) simp_all
  next
    case 4 with d show ?thesis by (intro that(3)) simp_all
  qed
qed

text \<open>What a history adds up to, and how it does for one more event at its start.\<close>

definition accounted ::
  "'s LoxClient \<Rightarrow> (IoCommand \<times> unit result) list \<Rightarrow> IoCommand list \<Rightarrow> 's LoxClient \<Rightarrow> bool" where
  "accounted cl rs gone cl' \<longleftrightarrow>
     gone @ mc_queue (lc_cmd_tx cl') = mc_queue (lc_cmd_tx cl) @ accepted rs \<and>
     length rs = length (accepted rs) + refusals NotConnected rs + refusals Backpressure rs + refusals ChannelClosed rs \<and>
     client_rejected cl' = (fst (client_rejected cl) + of_nat (refusals NotConnected rs),
                            snd (client_rejected cl) + of_nat (refusals Backpressure rs)) \<and>
     (length (mc_queue (lc_cmd_tx cl)) \<le> mc_depth (lc_cmd_tx cl) \<longrightarrow>
       length (mc_queue (lc_cmd_tx cl')) \<le> mc_depth (lc_cmd_tx cl'))"

lemma accounted_try:
  assumes "try_send_control uuid val cl = (res, c1)" "accounted c1 rs gone cl'"
  shows "accounted cl ((IoControl uuid val, res) # rs) gone cl'"
  using assms(1)
  by (cases rule: try_send_control_cases) (use assms(2) in \<open>simp_all add: accounted_def client_count_def\<close>)

lemma accounted_state:
  "accounted (cl\<lparr>lc_shared := set_state st (lc_shared cl)\<rparr>) rs gone cl' \<Longrightarrow> accounted cl rs gone cl'"
  by (simp add: accounted_def set_state_def)

lemma accounted_taken:
  "accounted (cl\<lparr>lc_cmd_tx := (lc_cmd_tx cl)\<lparr>mc_queue := cmds\<rparr>\<rparr>) rs gone cl' \<Longrightarrow>
   mc_queue (lc_cmd_tx cl) = cmd # cmds \<Longrightarrow> accounted cl rs (cmd # gone) cl'"
  by (simp add: accounted_def)

lemma accounted_dropped:
  "accounted (cl\<lparr>lc_cmd_tx := (lc_cmd_tx cl)\<lparr>mc_queue := [], mc_closed := True\<rparr>\<rparr>) rs gone cl' \<Longrightarrow>
   accounted cl rs (mc_queue (lc_cmd_tx cl) @ gone) cl'"
  by (simp add: accounted_def)

lemma controls_run_accounted: "controls_run es cl = (rs, gone, cl') \<Longrightarrow> accounted cl rs gone cl'"
proof (induction es cl arbitrary: rs gone cl' rule: controls_run.induct)
  case (2 uuid val es cl)
  then show ?case
    by (auto simp del: accepted_simps split: prod.splits intro: accounted_try)
next
  case (3 st es cl)
  then show ?case
    by (auto intro: accounted_state)
next
  case (4 es cl)
  then show ?case
    by (auto split: list.splits prod.splits intro: accounted_taken)
next
  case (5 es cl)
  then show ?case
    by (auto split: prod.splits intro: accounted_dropped)
qed (simp add: accounted_def)

section \<open>Properties\<close>

text \<open>
  C14: No control is lost without a trace: in any history the commands that left the channel, and then
  those still in it, are what it held before followed by the accepted controls in their order;
  every other control was refused, and the refusals for want of a session and of room are exactly
  what the two counters grew by. The queue never outgrows its depth.
\<close>

theorem controls_accounted:
  assumes "controls_run es cl = (rs, gone, cl')"
  shows "gone @ mc_queue (lc_cmd_tx cl') = mc_queue (lc_cmd_tx cl) @ accepted rs \<and>
    length rs = length (accepted rs) + refusals NotConnected rs + refusals Backpressure rs + refusals ChannelClosed rs \<and>
    client_rejected cl' = (fst (client_rejected cl) + of_nat (refusals NotConnected rs),
                           snd (client_rejected cl) + of_nat (refusals Backpressure rs)) \<and>
    (length (mc_queue (lc_cmd_tx cl)) \<le> mc_depth (lc_cmd_tx cl) \<longrightarrow>
      length (mc_queue (lc_cmd_tx cl')) \<le> mc_depth (lc_cmd_tx cl'))"
  using controls_run_accounted [OF assms] unfolding accounted_def .

definition demo_client :: "nat LoxClient" where
  "demo_client = \<lparr>lc_cmd_tx = mpsc_channel 1, lc_shared = set_state StConnected (shared_new 0), lc_stopped = False,
     lc_username = ''admin'', lc_join = True\<rparr>"

theorem controls_accounted_witness:
  "\<exists>rs gone cl'. controls_run [TryControl ''u'' ''1'', TryControl ''u'' ''2'', CommandTaken, StateChanged StReconnecting,
       TryControl ''u'' ''3''] demo_client = (rs, gone, cl') \<and>
     map snd rs = [Ok (), Err Backpressure, Err NotConnected] \<and> client_rejected cl' = (1, 1)"
proof -
  let ?es = "[TryControl ''u'' ''1'', TryControl ''u'' ''2'', CommandTaken, StateChanged StReconnecting, TryControl ''u'' ''3'']"
  obtain rs gone cl' where r: "controls_run ?es demo_client = (rs, gone, cl')"
    by (cases "controls_run ?es demo_client") auto
  moreover have "map snd (fst (controls_run ?es demo_client)) = [Ok (), Err Backpressure, Err NotConnected]"
    "client_rejected demo_client = (0, 0)"
    by code_simp+
  ultimately obtain c1 c2 c3 where rs: "rs = [(c1, Ok ()), (c2, Err Backpressure), (c3, Err NotConnected)]"
    by (auto simp: map_eq_Cons_conv)
  with controls_accounted [OF r] r \<open>client_rejected demo_client = (0, 0)\<close> show ?thesis
    by simp
qed



text \<open>
  When its task has ended, \<^verbatim>\<open>connect\<close> has returned, and never with the error for a task that ended
  without an answer.
\<close>

lemma connect_answered:
  assumes "run_supervisor env U versions ins []
      (connect_shared (se_crypto env) (se_store env) now (se_cfg env) store) False h = Done cx"
  shows "\<exists>r. cx_ready cx = Sent r \<and> (\<exists>out. connect env U versions ins now store h = Done out \<and>
      (\<forall>e. r = Err e \<longrightarrow> out = (Err e, True)))"
proof -
  have "ended cx"
    by (rule run_supervisor_ended [OF assms])
  then obtain r where "cx_ready cx = Sent r"
    by (auto simp: ended_def reported_def)
  with assms show ?thesis
    by (simp add: connect_def connect_answer_def Let_def)
qed

end
