(* ===== verification/Spec2Isabelle.thy ===== *)
theory Spec2Isabelle
  imports Lox_Uuid Lox_Header Lox_Value Lox_Text Lox_Daytimer Lox_Weather Lox_Collect
    Lox_Pending Lox_Sealed Lox_Client
begin

text \<open>
  A verification development for \<^verbatim>\<open>loxwebsocket\<close>, a Rust client for the WebSocket protocol of the
  Loxone Miniserver (a home automation controller).

  \<^bold>\<open>The program.\<close> A \<^verbatim>\<open>LoxClient\<close> owns a command channel and a supervisor task. The supervisor fetches
  the Miniserver's public key over HTTP(S), opens a WebSocket, exchanges a session key, authenticates
  with a stored or a fresh token, subscribes to updates, and then runs a session: a reader loop that
  pairs each 8-byte header with its payload, hands event tables to the consumer's handler and answers
  to the waiting command; a writer task that encrypts commands, queues their waiters, sends keepalives
  and watches for a silent peer; and a refresher that renews the token. When a session ends the
  supervisor reports, waits and connects again within a budget of attempts.

  \<^bold>\<open>Reading the model.\<close> A byte is an \<open>8 word\<close>, a \<^verbatim>\<open>str\<close> is a \<^typ>\<open>string\<close> whose characters are its
  UTF-8 bytes, an \<^verbatim>\<open>f64\<close> is its 64-bit pattern, machine integers keep their width, durations are
  natural numbers of nanoseconds. A \<^verbatim>\<open>Result\<close> is a sum with \<^const>\<open>Ok\<close> and \<^const>\<open>Err\<close>. A panic is the
  value \<^const>\<open>None\<close>, a flag, or \<^const>\<open>Panics\<close>. A oneshot sender is the number of its waiter, and an
  operation returns what it sends. Random bytes, clock readings and the outcomes of system calls are
  arguments. The crates the program calls are records of functions: \<^typ>\<open>zerocopy\<close>, \<^typ>\<open>crypto\<close>
  (AES-CBC, RSA, the SHA family, HMAC, Base64, hex, percent decoding), \<^verbatim>\<open>json\<close>, \<^verbatim>\<open>url_api\<close>,
  \<^verbatim>\<open>x509\<close> and \<^typ>\<open>network\<close>. What the proofs rely on is named (\<^const>\<open>zerocopy_ok\<close>,
  \<^const>\<open>crypto_ok\<close>, \<^verbatim>\<open>env_ok\<close>) and holds for the concrete instances the witnesses use.

  \<^bold>\<open>Foundations.\<close>
  \<^item> \<^verbatim>\<open>Lox_Prelude\<close>: machine types, slices, little-endian integers, the collections \<open>wire\<close> and \<open>strs\<close>.
  \<^item> \<^verbatim>\<open>Lox_Strings\<close>: the string functions of the Rust library, UTF-8 checking included.
  \<^item> \<^verbatim>\<open>Lox_Error\<close> (\<^verbatim>\<open>error.rs\<close>): every error with its text, and which are terminal.
  \<^item> \<^verbatim>\<open>Lox_Tables\<close>: the interface of \<^verbatim>\<open>zerocopy\<close> and three locales: \<open>record_codec\<close> (fixed-size records),
    \<open>table_walker\<close> (a loop that takes one table per step), \<open>zerocopy_env\<close> (an instance that obeys the
    documentation). The header and the table theories interpret them.

  \<^bold>\<open>Wire format\<close> (\<^verbatim>\<open>src/src/proto\<close>, \<^verbatim>\<open>uuid.rs\<close>, \<^verbatim>\<open>collect.rs\<close>).
  \<^item> \<^verbatim>\<open>Lox_Uuid\<close>: the formatter inverts the parser; the parser accepts the 32-digit forms, no others.
  \<^item> \<^verbatim>\<open>Lox_Header\<close>: \<^verbatim>\<open>parse_header\<close> accepts the eight bytes of a header, nothing else.
  \<^item> \<^verbatim>\<open>Lox_Value\<close>, \<^verbatim>\<open>Lox_Text\<close>, \<^verbatim>\<open>Lox_Daytimer\<close>, \<^verbatim>\<open>Lox_Weather\<close>: the walks return, deliver the records an
    encoder wrote, and stop at the first malformed one.
  \<^item> \<^verbatim>\<open>Lox_Collect\<close>: the hasher, and snapshots in which the last record of a UUID wins.

  \<^bold>\<open>Cryptography and tokens\<close> (\<^verbatim>\<open>src/src/crypto\<close>, \<^verbatim>\<open>src/src/auth\<close>).
  \<^item> \<^verbatim>\<open>Lox_Crypto\<close>: the crates as parameters, and an instance with real Base64, hex and percent coding.
  \<^item> \<^verbatim>\<open>Lox_Session\<close> (\<^verbatim>\<open>session.rs\<close>): keys, salt rotation, encryption; a peer that follows the salt
    sequence reads back every command.
  \<^item> \<^verbatim>\<open>Lox_Hash\<close> (\<^verbatim>\<open>hash.rs\<close>, \<^verbatim>\<open>rsa_key.rs\<close>): hashes, the PEM normaliser, the key wrap.
  \<^item> \<^verbatim>\<open>Lox_Auth\<close> (\<^verbatim>\<open>token.rs\<close>, \<^verbatim>\<open>flow.rs\<close>): commands, answers, lifetimes.
  \<^item> \<^verbatim>\<open>Lox_Store\<close> (\<^verbatim>\<open>store.rs\<close>): the token file on an explicit file system in which every call may
    fail; locale \<open>token_store\<close>, interpreted by the file store.

  \<^bold>\<open>The client\<close> (\<^verbatim>\<open>src/src/client\<close>, \<^verbatim>\<open>metrics.rs\<close>).
  \<^item> \<^verbatim>\<open>Lox_Scan\<close>, \<^verbatim>\<open>Lox_Pending\<close> (\<^verbatim>\<open>pending.rs\<close>): the word-at-a-time search finds what a byte-by-byte
    search finds; the queue of waiters refines a queue (locale \<open>fifo_queue\<close>) and expires exactly what is due.
  \<^item> \<^verbatim>\<open>Lox_Policy\<close> (\<^verbatim>\<open>keepalive.rs\<close>, \<^verbatim>\<open>reconnect.rs\<close>, \<^verbatim>\<open>visu.rs\<close>), \<^verbatim>\<open>Lox_State\<close> (\<^verbatim>\<open>state.rs\<close>,
    \<^verbatim>\<open>metrics.rs\<close>): timing, backoff, counters, the shared state with its persisted token.
  \<^item> \<^verbatim>\<open>Lox_Handler\<close> (\<^verbatim>\<open>handler.rs\<close>): callbacks that may panic; dispatch makes the calls of the records.
  \<^item> \<^verbatim>\<open>Lox_Reader\<close> (\<^verbatim>\<open>reader.rs\<close>), \<^verbatim>\<open>Lox_Writer\<close> (\<^verbatim>\<open>writer.rs\<close>), \<^verbatim>\<open>Lox_Refresh\<close> (\<^verbatim>\<open>refresh.rs\<close>): the
    three loops; the reader stays in step, the writer registers what it sends and notices a silent
    peer, the refresher gives up after three failures.
  \<^item> \<^verbatim>\<open>Lox_Tls\<close> (\<^verbatim>\<open>tls.rs\<close>), \<^verbatim>\<open>Lox_Http\<close> (\<^verbatim>\<open>http.rs\<close>, the configuration in \<^verbatim>\<open>mod.rs\<close>), \<^verbatim>\<open>Lox_Connect\<close>
    (\<^verbatim>\<open>connect.rs\<close>): verifiers and pin, HTTP requests, WebSocket connect, the abortable read half.
  \<^item> \<^verbatim>\<open>Lox_Handshake\<close> (\<^verbatim>\<open>handshake.rs\<close>): key exchange to subscription, as steps on a state; locales
    \<open>request_relation\<close> and \<open>login_relation\<close> carry a relation through every step, once for the shared
    state and once for what goes out in the clear.
  \<^item> \<^verbatim>\<open>Lox_Live\<close> (the tasks of \<^verbatim>\<open>io.rs\<close>): reader and writer in any interleaving with clients and the
    refresher, as the step relation \<^const>\<open>live_step\<close>; locale \<open>reader_relation\<close> carries a relation
    through a step of the reader. Every waiter is answered once; pipelined commands get their answers.
  \<^item> \<^verbatim>\<open>Lox_Sealed\<close>: the well-formedness of a session; every text frame is encrypted or the keepalive.
  \<^item> \<^verbatim>\<open>Lox_Supervisor\<close> (\<^verbatim>\<open>io.rs\<close>): the loop around sessions; how it ends and what it reports, the bound
    on reconnects, the pin across connections.
  \<^item> \<^verbatim>\<open>Lox_Client\<close> (\<^verbatim>\<open>mod.rs\<close>): the public operations over the bounded channel.
  \<^item> This theory: a command queued by a client, followed to its answer.

  \<^bold>\<open>Loops and bounds.\<close> The table walks of daytimers and weather are partial functions whose value
  \<^const>\<open>None\<close> would be an endless loop; under \<^const>\<open>zerocopy_ok\<close> they are proved to return. The loops
  over the network take the finite list of what they read; a loop whose list ends before it does is
  still waiting, and this is a value of its own (\<^const>\<open>None\<close> or \<^const>\<open>Running\<close>), never a result. The
  one budget that bounds a loop, 64 interleaved frames before a handshake answer, is the code's own
  constant. \<^const>\<open>replace_str\<close> gives its loop as much fuel as the string is long; each step consumes a
  character, and more fuel changes nothing (\<open>replace_loop_fuel\<close>).

  \<^bold>\<open>Abstractions.\<close> Within a session the bounded channels are lists without a bound: waiting for room
  only delays a sender, and every delay is one of the interleavings. On the client's side the depth is
  modelled, since \<^verbatim>\<open>try_send\<close> can fail on it. A step of a task is atomic between its await points.
  Metrics are exact counters of one record instead of separately read atomics. A writer that does not
  join in time is left to itself by the code, and is not followed further.

  \<^bold>\<open>Not modelled.\<close> Module declarations, re-exports, type aliases and the crate documentation hold no
  behaviour. The lock helper of \<^verbatim>\<open>sync.rs\<close> only makes data readable after a panic, as plain fields
  are. The \<^verbatim>\<open>Debug\<close> renderings of configuration, tables and handlers, the log lines and the text of a
  caught panic go to a human and are read by no code. The choice of the crypto provider, its list of
  signature schemes, the executor and the flags of the frame layer configure third-party code. The
  token file on systems other than Unix relies on the defaults of its file system. The example
  program reads the environment and prints events. AES, RSA, the hashes, TLS, X.509, JSON, URL parsing
  and WebSocket framing are third-party crates and appear as parameters.
\<close>

section \<open>From the client to the answer\<close>

text \<open>
  C1: A command a client has queued is answered exactly once or handed back: if the session that
  takes over the client's channel has ended, in whatever interleaving of reader, writer and
  other clients, then the waiter of that command has either got its one answer or its command is
  still in the channel the next session takes over.
\<close>

theorem client_command_answered:
  assumes "client_send (IoEncrypted cmd x) cl = Done (Ok (), cl')"
    and "x \<notin> set (concat (map (\<lambda>c. submitted (WakeCommand (Some c))) (mc_queue (lc_cmd_tx cl))))"
    and "live_run env api es (live_new cfg keys st shared stopped g (mc_queue (lc_cmd_tx cl'))) lv" and "lv_ended lv"
    and "\<forall>e\<in>set es. x \<notin> set (handed_in e) \<union> set (kill_waiters e)"
  shows "count (mset (lv_answered lv)) x = 1 \<and> x \<notin> set (lv_waiting lv) \<or>
    x \<notin> set (lv_answered lv) \<and> count (mset (concat (map (\<lambda>c. submitted (WakeCommand (Some c))) (lv_cmds lv)))) x = 1"
proof -
  let ?sub = "\<lambda>cmds. concat (map (\<lambda>c. submitted (WakeCommand (Some c))) cmds)"
  let ?lv = "live_new cfg keys st shared stopped g (mc_queue (lc_cmd_tx cl'))"
  have q: "mc_queue (lc_cmd_tx cl') = mc_queue (lc_cmd_tx cl) @ [IoEncrypted cmd x]"
    using assms(1) by (auto simp: client_send_def mpsc_send_def mpsc_try_send_def split: if_splits)
  have start: "lv_answered ?lv = []" "lv_waiting ?lv = ?sub (mc_queue (lc_cmd_tx cl'))"
    by (simp_all add: lv_answered_def lv_waiting_def live_new_def session_reader_def session_writer_def queue_new_def waiters_def)
  have "x \<notin> set (concat (map handed_in es))" "\<forall>e\<in>set es. x \<notin> set (kill_waiters e)"
    using assms(5) by auto
  with live_run_ok [OF assms(3) lv_ok_new, of x] start q assms(2)
  have r: "lv_ok lv" "count (mset (lv_answered lv @ lv_waiting lv)) x = 1"
    by (auto simp: count_eq_zero_iff simp del: mset_map)
  have "lv_waiting lv = ?sub (lv_cmds lv)"
    using r(1) assms(4) by (auto simp: lv_ok_def lv_waiting_def)
  moreover have "count (mset (lv_answered lv)) x + count (mset (lv_waiting lv)) x = 1"
    using r(2) by simp
  moreover have "n = 0 \<and> m = 1 \<or> n = 1 \<and> m = 0" if "n + m = 1" for n m :: nat
    using that by linarith
  ultimately show ?thesis
    by (metis count_eq_zero_iff set_mset_mset)
qed

theorem client_command_answered_witness:
  "\<exists>cl' lv. client_send (IoEncrypted ''jdev/cfg/api'' 7) demo_client = Done (Ok (), cl') \<and>
     live_run demo_reader_env demo_store [LvRead (0, RdError ''reset''), LvTurn demo_turn]
       (live_new (se_cfg demo_sup) (re_keys demo_reader_env) salt_new (shared_new 0) False (guard_new 0)
          (mc_queue (lc_cmd_tx cl'))) lv \<and>
     (count (mset (lv_answered lv)) 7 = 1 \<or> 7 \<in> set (lv_waiting lv))"
proof -
  obtain cl' where c: "client_send (IoEncrypted ''jdev/cfg/api'' 7) demo_client = Done (Ok (), cl')"
    by (simp add: client_send_def mpsc_send_def mpsc_try_send_def demo_client_def mpsc_channel_def)
  let ?new = "live_new (se_cfg demo_sup) (re_keys demo_reader_env) salt_new (shared_new 0) False (guard_new (0 :: nat))
      (mc_queue (lc_cmd_tx cl')) :: (nat, nat) Live"
  obtain lv1 where r: "live_read demo_reader_env (0, RdError ''reset'') ?new = Some lv1" "lv_chan lv1 = [WShutdown]"
      "\<not> lv_ended lv1"
    by (simp add: live_read_def reader_step_def live_new_def share_w_def session_reader_def Let_def)
  define lv where "lv = live_turn (re_crypto demo_reader_env) (re_json demo_reader_env) demo_store demo_turn lv1"
  have e: "lv_ended lv"
    using r(2) by (simp add: lv_def live_turn_def live_wake_def iterate_def decide_def on_writer_msg_def share_r_def Let_def)
  have run: "live_run demo_reader_env demo_store [LvRead (0, RdError ''reset''), LvTurn demo_turn] ?new lv"
    using r by (auto simp: lv_def live_new_def intro!: live_step.intros)
  have "7 \<notin> set (concat (map (\<lambda>c. submitted (WakeCommand (Some c))) (mc_queue (lc_cmd_tx demo_client))))"
    by (simp add: demo_client_def mpsc_channel_def)
  moreover have "\<forall>e\<in>set [LvRead (0, RdError ''reset''), LvTurn demo_turn]. 7 \<notin> set (handed_in e) \<union> set (kill_waiters e)"
    by (simp add: demo_turn_def)
  ultimately have "count (mset (lv_answered lv)) 7 = 1 \<or>
      count (mset (concat (map (\<lambda>c. submitted (WakeCommand (Some c))) (lv_cmds lv)))) 7 = 1"
    using client_command_answered [OF c _ run e] by blast
  then have "count (mset (lv_answered lv)) 7 = 1 \<or> 7 \<in> set (lv_waiting lv)"
    by (metis One_nat_def count_eq_zero_iff lv_waiting_def set_append UnI2 set_mset_mset zero_neq_one)
  with c run show ?thesis
    by blast
qed

end
